(* ===== verification/Prelude.thy ===== *)
theory Prelude
  imports Main "HOL-Library.Word"
begin

text \<open>
  The shared vocabulary of the development.

  Machine integers keep the width the Rust source gives them (\<open>u8\<close>, \<open>u16\<close>, \<open>u32\<close>,
  \<open>u64\<close> are words, with wrapping arithmetic).  A Rust \<open>String\<close> is a HOL \<open>string\<close> whose
  characters are the bytes of its UTF-8 form, so \<open>length\<close> is \<open>String::len\<close>.  An
  \<open>anyhow::Error\<close> is a value of type \<open>error\<close>: an I/O error with its kind and text, a
  message made by \<open>bail!\<close>/\<open>ensure!\<close>, or a context wrapped around another error.
  Fallible, effectful code is a function \<open>'s \<Rightarrow> 'a result \<times> 's\<close>; \<open>io_bind\<close> is the
  source's \<open>?\<close> operator followed by the rest of the function body.
\<close>

named_theorems io_simps \<open>unfolding of the sequencing operators on concrete results\<close>
named_theorems frame_rules \<open>what an operation leaves unchanged\<close>

type_synonym u8 = "8 word"
type_synonym u16 = "16 word"
type_synonym u32 = "32 word"
type_synonym u64 = "64 word"
type_synonym bytes = "u8 list"

section \<open>Errors and results\<close>

datatype io_kind =
    NotFound | AlreadyExists | UnexpectedEof | InvalidData | PermissionDenied
  | IsADirectory | NotADirectory | FilesystemLoop | StorageFull | BrokenPipe | OtherKind

text \<open>\<open>format!\<close> with the pieces already rendered.\<close>

definition fmt :: "string list \<Rightarrow> string" where
  "fmt pieces = concat pieces"

datatype error =
    IoError io_kind string
  | Msg string
  | Context string error

type_synonym 'a result = "error + 'a"

text \<open>\<open>format!("{e:#}")\<close>: the context chain, outermost first, joined by colons.\<close>

fun render :: "error \<Rightarrow> string" where
  "render (IoError k t) = t"
| "render (Msg t) = t"
| "render (Context c e) = c @ '': '' @ render e"

text \<open>\<open>e.downcast_ref::<std::io::Error>()\<close> sees through every layer of context.\<close>

fun downcast_io :: "error \<Rightarrow> io_kind option" where
  "downcast_io (IoError k t) = Some k"
| "downcast_io (Msg t) = None"
| "downcast_io (Context c e) = downcast_io e"

definition with_context :: "string \<Rightarrow> 'a result \<Rightarrow> 'a result" where
  "with_context c r = (case r of Inl e \<Rightarrow> Inl (Context c e) | Inr x \<Rightarrow> Inr x)"

definition ensure :: "bool \<Rightarrow> string \<Rightarrow> unit result" where
  "ensure b t = (if b then Inr () else Inl (Msg t))"

text \<open>\<open>opt.context(..)\<close> on an \<open>Option\<close>.\<close>

definition ok_or :: "'a option \<Rightarrow> string \<Rightarrow> 'a result" where
  "ok_or x t = (case x of None \<Rightarrow> Inl (Msg t) | Some v \<Rightarrow> Inr v)"

section \<open>Sequencing effectful code\<close>

type_synonym ('s, 'a) io = "'s \<Rightarrow> 'a result \<times> 's"

definition io_ok :: "'a \<Rightarrow> ('s, 'a) io" where
  "io_ok x s = (Inr x, s)"

definition io_lift :: "'a result \<Rightarrow> ('s, 'a) io" where
  "io_lift r s = (r, s)"

definition io_bind :: "('s, 'a) io \<Rightarrow> ('a \<Rightarrow> ('s, 'b) io) \<Rightarrow> ('s, 'b) io" where
  "io_bind m f s = (case m s of (Inl e, s') \<Rightarrow> (Inl e, s') | (Inr x, s') \<Rightarrow> f x s')"

definition io_context :: "string \<Rightarrow> ('s, 'a) io \<Rightarrow> ('s, 'a) io" where
  "io_context c m s = (case m s of (r, s') \<Rightarrow> (with_context c r, s'))"

text \<open>
  \<open>let r = m;\<close> without \<open>?\<close>: the result, error or not, is handed to the continuation.
  \<open>let _ = m;\<close> is the case where the continuation ignores it.
\<close>

definition io_catch :: "('s, 'a) io \<Rightarrow> ('a result \<Rightarrow> ('s, 'b) io) \<Rightarrow> ('s, 'b) io" where
  "io_catch m f s = (case m s of (r, s') \<Rightarrow> f r s')"

text \<open>Code that uses two resources at once: each step works on its own component.\<close>

definition on_fst :: "('s, 'a) io \<Rightarrow> ('s \<times> 't, 'a) io" where
  "on_fst m st = (case m (fst st) of (x, s) \<Rightarrow> (x, (s, snd st)))"

definition on_snd :: "('t, 'a) io \<Rightarrow> ('s \<times> 't, 'a) io" where
  "on_snd m st = (case m (snd st) of (x, t) \<Rightarrow> (x, (fst st, t)))"

section \<open>Bytes, text and numerals\<close>

definition byte_of_char :: "char \<Rightarrow> u8" where
  "byte_of_char c = word_of_nat (of_char c)"

definition char_of_byte :: "u8 \<Rightarrow> char" where
  "char_of_byte b = char_of (unat b)"

abbreviation as_bytes :: "string \<Rightarrow> bytes" where
  "as_bytes s \<equiv> map byte_of_char s"

abbreviation of_bytes :: "bytes \<Rightarrow> string" where
  "of_bytes b \<equiv> map char_of_byte b"

text \<open>Decimal text of a natural number (\<open>{n}\<close>) and the zero-padded form \<open>{n:0w}\<close>.\<close>

definition digit_char :: "nat \<Rightarrow> char" where
  "digit_char d = char_of (48 + d)"

fun dec :: "nat \<Rightarrow> string" where
  "dec n = (if n < 10 then [digit_char n] else dec (n div 10) @ [digit_char (n mod 10)])"

declare dec.simps [simp del]

definition dec_pad :: "nat \<Rightarrow> nat \<Rightarrow> string" where
  "dec_pad w n = replicate (w - length (dec n)) (CHR ''0'') @ dec n"

text \<open>\<open>{b:02x}\<close>.\<close>

definition nibble_char :: "nat \<Rightarrow> char" where
  "nibble_char d = (if d < 10 then char_of (48 + d) else char_of (87 + d))"

definition hex_byte :: "u8 \<Rightarrow> string" where
  "hex_byte b = [nibble_char (unat b div 16), nibble_char (unat b mod 16)]"

text \<open>\<open>to_le_bytes\<close>, \<open>to_be_bytes\<close> and their inverses on four bytes.\<close>

definition u32_to_le :: "u32 \<Rightarrow> bytes" where
  "u32_to_le x =
     [word_of_nat (unat x), word_of_nat (unat x div 256),
      word_of_nat (unat x div 65536), word_of_nat (unat x div 16777216)]"

definition u32_to_be :: "u32 \<Rightarrow> bytes" where
  "u32_to_be x = rev (u32_to_le x)"

fun le_value :: "bytes \<Rightarrow> nat" where
  "le_value [] = 0"
| "le_value (b # bs) = unat b + 256 * le_value bs"

definition u32_from_le :: "bytes \<Rightarrow> u32" where
  "u32_from_le bs = word_of_nat (le_value bs)"

definition u32_from_be :: "bytes \<Rightarrow> u32" where
  "u32_from_be bs = word_of_nat (le_value (rev bs))"

section \<open>Lemmas on results and sequencing\<close>

lemma with_context_simps [simp]:
  "with_context c (Inl e) = Inl (Context c e)"
  "with_context c (Inr x) = Inr x"
  by (simp_all add: with_context_def)

lemma with_context_Inr_iff [simp]: "with_context c r = Inr x \<longleftrightarrow> r = Inr x"
  by (cases r) auto

lemma with_context_Inl_iff:
  "with_context c r = Inl e \<longleftrightarrow> (\<exists>e'. r = Inl e' \<and> e = Context c e')"
  "Inl e = with_context c r \<longleftrightarrow> (\<exists>e'. r = Inl e' \<and> e = Context c e')"
  by (cases r; auto)+

lemma ensure_simps [simp]:
  "ensure True t = Inr ()"
  "ensure False t = Inl (Msg t)"
  by (simp_all add: ensure_def)

lemma ensure_Inr_iff [simp]: "ensure b t = Inr u \<longleftrightarrow> b"
  by (simp add: ensure_def)

lemma ok_or_simps [simp]:
  "ok_or None t = Inl (Msg t)"
  "ok_or (Some v) t = Inr v"
  by (simp_all add: ok_or_def)

lemma io_ok_apply [simp]: "io_ok x s = (Inr x, s)"
  by (simp add: io_ok_def)

lemma io_lift_apply [simp]: "io_lift r s = (r, s)"
  by (simp add: io_lift_def)

lemma io_bind_Inl [io_simps]: "m s = (Inl e, s') \<Longrightarrow> io_bind m f s = (Inl e, s')"
  by (simp add: io_bind_def)

lemma io_bind_Inr [io_simps]: "m s = (Inr x, s') \<Longrightarrow> io_bind m f s = f x s'"
  by (simp add: io_bind_def)

lemma io_catch_eq [io_simps]: "m s = (r, s') \<Longrightarrow> io_catch m f s = f r s'"
  by (simp add: io_catch_def)

lemma io_context_eq [io_simps]: "m s = (r, s') \<Longrightarrow> io_context c m s = (with_context c r, s')"
  by (simp add: io_context_def)

lemma io_bind_lift [simp]:
  "io_bind (io_lift r) f s = (case r of Inl e \<Rightarrow> (Inl e, s) | Inr x \<Rightarrow> f x s)"
  by (simp add: io_bind_def split: sum.split)

lemma io_bind_ok [simp]: "io_bind (io_ok x) f = f x"
  by (rule ext) (simp add: io_bind_def)

lemma on_fst_eq [io_simps]: "m s = (x, s') \<Longrightarrow> on_fst m (s, t) = (x, (s', t))"
  by (simp add: on_fst_def)

lemma on_snd_eq [io_simps]: "m t = (x, t') \<Longrightarrow> on_snd m (s, t) = (x, (s, t'))"
  by (simp add: on_snd_def)

lemma on_fst_iff: "on_fst m (s, t) = (x, (s', t')) \<longleftrightarrow> m s = (x, s') \<and> t' = t"
  by (auto simp: on_fst_def split: prod.splits)

lemma on_snd_iff: "on_snd m (s, t) = (x, (s', t')) \<longleftrightarrow> m t = (x, t') \<and> s' = s"
  by (auto simp: on_snd_def split: prod.splits)

lemma io_bind_InrE:
  assumes "io_bind m f s = (Inr y, t)"
  obtains x s' where "m s = (Inr x, s')" and "f x s' = (Inr y, t)"
  using assms by (auto simp: io_bind_def split: prod.splits sum.splits)

lemma io_bind_cases:
  assumes "io_bind m f s = (r, t)"
  obtains (fails) e where "m s = (Inl e, t)" and "r = Inl e"
    | (continues) x s' where "m s = (Inr x, s')" and "f x s' = (r, t)"
  using assms by (auto simp: io_bind_def split: prod.splits sum.splits)

lemma io_context_cases:
  assumes "io_context c m s = (r, t)"
  obtains r0 where "m s = (r0, t)" and "r = with_context c r0"
  using assms by (auto simp: io_context_def split: prod.splits)

lemma io_context_Inr_iff [simp]: "io_context c m s = (Inr x, t) \<longleftrightarrow> m s = (Inr x, t)"
  by (auto simp: io_context_def split: prod.splits)

lemma io_catch_cases:
  assumes "io_catch m f s = (r, t)"
  obtains r0 s' where "m s = (r0, s')" and "f r0 s' = (r, t)"
  using assms by (auto simp: io_catch_def split: prod.splits)

text \<open>
  A relation between the state before and after that is reflexive and transitive and that
  every step respects is respected by the sequence, whichever steps fail.
\<close>

definition io_respects :: "('s \<Rightarrow> 's \<Rightarrow> bool) \<Rightarrow> ('s, 'a) io \<Rightarrow> bool" where
  "io_respects R m \<longleftrightarrow> (\<forall>s r t. m s = (r, t) \<longrightarrow> R s t)"

lemma io_respectsI: "(\<And>s r t. m s = (r, t) \<Longrightarrow> R s t) \<Longrightarrow> io_respects R m"
  by (simp add: io_respects_def)

lemma io_respectsD: "io_respects R m \<Longrightarrow> m s = (r, t) \<Longrightarrow> R s t"
  by (simp add: io_respects_def)

lemma io_respects_ok [intro]: "reflp R \<Longrightarrow> io_respects R (io_ok x)"
  by (auto simp: io_respects_def reflp_def)

lemma io_respects_lift [intro]: "reflp R \<Longrightarrow> io_respects R (io_lift x)"
  by (auto simp: io_respects_def reflp_def)

lemma io_respects_bind:
  assumes "transp R" and "io_respects R m" and "\<And>x. io_respects R (f x)"
  shows "io_respects R (io_bind m f)"
proof (rule io_respectsI)
  fix s r t assume "io_bind m f s = (r, t)"
  then show "R s t"
    by (cases rule: io_bind_cases) (meson assms io_respectsD transpD)+
qed

lemma io_respects_bind_result:
  assumes "transp R" and "io_respects R m" and "\<And>x s t. m s = (Inr x, t) \<Longrightarrow> io_respects R (f x)"
  shows "io_respects R (io_bind m f)"
proof (rule io_respectsI)
  fix s r t assume "io_bind m f s = (r, t)"
  then show "R s t"
    by (cases rule: io_bind_cases) (meson assms io_respectsD transpD)+
qed

lemma io_respects_catch:
  assumes "transp R" and "io_respects R m" and "\<And>x. io_respects R (f x)"
  shows "io_respects R (io_catch m f)"
proof (rule io_respectsI)
  fix s r t assume "io_catch m f s = (r, t)"
  then show "R s t"
    by (cases rule: io_catch_cases) (meson assms io_respectsD transpD)+
qed

lemma io_respects_context: "io_respects R m \<Longrightarrow> io_respects R (io_context c m)"
  by (auto simp: io_respects_def io_context_def split: prod.splits)

lemma io_respects_if: "(b \<Longrightarrow> io_respects R m) \<Longrightarrow> (\<not> b \<Longrightarrow> io_respects R n) \<Longrightarrow> io_respects R (if b then m else n)"
  by simp

lemma io_respects_self:
  "(\<And>s. io_respects R (m s)) \<Longrightarrow> io_respects R (\<lambda>s. m s s)"
  by (auto simp: io_respects_def)

section \<open>Lemmas on bytes, text and numerals\<close>

lemma char_of_byte_of_char [simp]: "char_of_byte (byte_of_char c) = c"
proof -
  have "(of_char c :: nat) < 256" by (metis of_char_mod_256 mod_less_divisor zero_less_numeral)
  then show ?thesis
    by (simp add: char_of_byte_def byte_of_char_def unat_of_nat)
qed

lemma byte_of_char_of_byte [simp]: "byte_of_char (char_of_byte b) = b"
proof -
  have "unat b < 256" using unsigned_less [of b, where ?'a = nat] by simp
  then show ?thesis by (simp add: char_of_byte_def byte_of_char_def)
qed

lemma of_bytes_as_bytes [simp]: "of_bytes (as_bytes s) = s"
  by (simp add: comp_def)

lemma as_bytes_of_bytes [simp]: "as_bytes (of_bytes b) = b"
  by (simp add: comp_def)

lemma byte_char_comp [simp]:
  "map (byte_of_char \<circ> char_of_byte) b = b" "map (char_of_byte \<circ> byte_of_char) s = s"
  by (simp_all add: comp_def)

lemma as_bytes_inject [simp]: "as_bytes s = as_bytes t \<longleftrightarrow> s = t"
  by (metis of_bytes_as_bytes)

lemma unat_u8_less [simp]: "unat (b :: u8) < 256"
  using unsigned_less [of b, where ?'a = nat] by simp

lemma length_u32_to_le [simp]: "length (u32_to_le x) = 4"
  by (simp add: u32_to_le_def)

lemma length_u32_to_be [simp]: "length (u32_to_be x) = 4"
  by (simp add: u32_to_be_def)

lemma base256:
  fixes n :: nat
  assumes "n < 4294967296"
  shows "n mod 256 + 256 * (n div 256 mod 256 + 256 * (n div 65536 mod 256
    + 256 * (n div 16777216 mod 256))) = n"
proof -
  define a where "a = n div 256"
  define b where "b = a div 256"
  define c where "c = b div 256"
  have "n div 65536 = b" "n div 16777216 = c"
    by (simp_all add: a_def b_def c_def flip: div_mult2_eq)
  moreover have "c mod 256 = c"
    using assms by (simp add: a_def b_def c_def flip: div_mult2_eq)
  moreover have "n = n mod 256 + 256 * a" "a = a mod 256 + 256 * b" "b = b mod 256 + 256 * c"
    by (simp_all add: a_def b_def c_def)
  ultimately show ?thesis
    by (metis a_def)
qed

lemma unat_u8_of_nat: "unat (word_of_nat n :: u8) = n mod 256"
  by (simp add: unat_of_nat)

lemma le_value_u32_to_le: "le_value (u32_to_le x) = unat x"
proof -
  have "unat x < 4294967296" using unsigned_less [of x, where ?'a = nat] by simp
  from base256 [OF this] show ?thesis
    by (simp only: u32_to_le_def le_value.simps unat_u8_of_nat mult_0_right add_0_right)
qed

lemma u32_from_to_le [simp]: "u32_from_le (u32_to_le x) = x"
  by (simp add: u32_from_le_def le_value_u32_to_le)

lemma u32_from_to_be [simp]: "u32_from_be (u32_to_be x) = x"
  by (simp add: u32_from_be_def u32_to_be_def le_value_u32_to_le)

lemma unat_u32_of_nat: "n < 4294967296 \<Longrightarrow> unat (word_of_nat n :: u32) = n"
  by (simp add: unat_of_nat)

lemma word_of_nat_byte [simp]: "(word_of_nat (unat a + 256 * x) :: u8) = a"
  by (simp only: word_unat_eq_iff unat_u8_of_nat) simp

lemma u32_to_from_le:
  assumes "length bs = 4"
  shows "u32_to_le (u32_from_le bs) = bs"
proof -
  obtain a b c d where bs: "bs = [a, b, c, d]"
    using assms by (auto simp: length_Suc_conv numeral_eq_Suc)
  note lt = unat_u8_less [of a] unat_u8_less [of b] unat_u8_less [of c] unat_u8_less [of d]
  let ?v = "unat a + 256 * (unat b + 256 * (unat c + 256 * unat d))"
  have "w + 256 * (x + 256 * (y + 256 * z)) < 4294967296"
    if "w < 256" "x < 256" "y < 256" "z < 256" for w x y z :: nat
  proof -
    have "y + 256 * z < 65536" using that(3,4) by simp
    then have "x + 256 * (y + 256 * z) < 16777216" using that(2) by simp
    then show ?thesis using that(1) by simp
  qed
  from this [OF lt] have "?v < 4294967296" .
  then have v: "unat (u32_from_le bs) = ?v"
    by (simp only: bs u32_from_le_def le_value.simps mult_0_right add_0_right unat_u32_of_nat)
  have step: "(n + 256 * m) div 256 = m" if "n < 256" for n m :: nat
    using that by simp
  have d1: "?v div 256 = unat b + 256 * (unat c + 256 * unat d)"
    by (rule step) (rule lt)
  moreover have d2: "?v div 65536 = unat c + 256 * unat d"
    using div_mult2_eq [of ?v 256 256] unfolding d1 step [OF lt(2)] by simp
  moreover have "?v div 16777216 = unat d"
    using div_mult2_eq [of ?v 65536 256] unfolding d2 step [OF lt(3)] by simp
  moreover have "(word_of_nat (unat d) :: u8) = d"
    by simp
  ultimately show ?thesis
    unfolding u32_to_le_def v by (simp only: word_of_nat_byte bs)
qed

lemma u32_to_from_be: "length bs = 4 \<Longrightarrow> u32_to_be (u32_from_be bs) = bs"
  using u32_to_from_le [of "rev bs"] by (simp add: u32_to_be_def u32_from_be_def u32_from_le_def)

lemma unat_u64_of_nat: "n < 18446744073709551616 \<Longrightarrow> unat (word_of_nat n :: u64) = n"
  by (simp add: unat_of_nat)

lemma unat_u64_add:
  "unat (a :: u64) + n < 18446744073709551616 \<Longrightarrow> unat (a + word_of_nat n) = unat a + n"
  by (simp add: unat_word_ariths unat_u64_of_nat)

lemma dec_nonempty [simp]: "dec n \<noteq> []"
  by (subst dec.simps) simp

lemma length_dec: "0 < k \<Longrightarrow> n < 10 ^ k \<Longrightarrow> length (dec n) \<le> k"
proof (induction n arbitrary: k rule: dec.induct)
  case (1 n)
  show ?case
  proof (cases "n < 10")
    case False
    with 1 obtain j where k: "k = Suc j" "0 < j" by (cases k; cases "k - 1") auto
    with "1.prems" have "n div 10 < 10 ^ j" by (simp add: less_mult_imp_div_less)
    with "1.IH" False k show ?thesis by (subst dec.simps) auto
  qed (use "1.prems" in \<open>subst dec.simps, simp\<close>)
qed

lemma takeWhile_absent [simp]: "x \<notin> set xs \<Longrightarrow> takeWhile (\<lambda>c. c \<noteq> x) xs = xs"
  by (auto simp: takeWhile_eq_all_conv)

lemma length_hex_byte [simp]: "length (hex_byte b) = 2"
  by (simp add: hex_byte_def)

end
