(* ===== verification/Streams.thy ===== *)
theory Streams
  imports Prelude
begin

text \<open>
  Byte streams as the source sees them through \<open>AsyncRead\<close> and \<open>AsyncWrite\<close>.  A reader
  is what is still to arrive: the chunks in which the transport will deliver it (the
  chunking is arbitrary, and empty deliveries are invisible), followed by end of stream
  or by a transport error.  A sink holds the bytes accepted so far; any of its calls can
  be made to fail by the environment, after taking any prefix of what it was given.

  The locale \<open>framing\<close> is the contract of a length-prefixed frame codec.  The program has
  two of them, \<open>proto.rs\<close>'s and \<open>ble.rs\<close>'s, and both are interpretations of it.
\<close>

record reader =
  chunks :: "bytes list"
  broken :: "(io_kind \<times> string) option"

record sink =
  sent :: bytes
  writes :: nat
  sfault :: "nat \<Rightarrow> (io_kind \<times> string \<times> nat) option"

definition arriving :: "reader \<Rightarrow> bytes" where
  "arriving r = concat (chunks r)"

text \<open>\<open>r.read(&mut buf)\<close> with a buffer of \<open>k\<close> bytes; the empty list is end of stream.\<close>

fun next_chunk :: "nat \<Rightarrow> bytes list \<Rightarrow> (bytes \<times> bytes list) option" where
  "next_chunk k [] = None"
| "next_chunk k ([] # cs) = next_chunk k cs"
| "next_chunk k ((b # c) # cs) = Some (take k (b # c), drop k (b # c) # cs)"

definition read_some :: "nat \<Rightarrow> (reader, bytes) io" where
  "read_some k r =
     (case next_chunk k (chunks r) of
        Some (b, cs) \<Rightarrow> (Inr b, r\<lparr>chunks := cs\<rparr>)
      | None \<Rightarrow>
          (case broken r of
             None \<Rightarrow> (Inr [], r)
           | Some (e, t) \<Rightarrow> (Inl (IoError e t), r)))"

fun drop_chunks :: "nat \<Rightarrow> bytes list \<Rightarrow> bytes list" where
  "drop_chunks n [] = []"
| "drop_chunks n (c # cs) =
     (if length c \<le> n then drop_chunks (n - length c) cs else drop n c # cs)"

text \<open>\<open>read_exact\<close>: all \<open>n\<close> bytes, or an error that has consumed what there was.\<close>

definition read_exact :: "nat \<Rightarrow> (reader, bytes) io" where
  "read_exact n r =
     (if n \<le> length (arriving r)
      then (Inr (take n (arriving r)), r\<lparr>chunks := drop_chunks n (chunks r)\<rparr>)
      else (Inl (case broken r of
                   None \<Rightarrow> IoError UnexpectedEof ''early eof''
                 | Some (e, t) \<Rightarrow> IoError e t), r\<lparr>chunks := []\<rparr>))"

text \<open>\<open>read_until(byte, &mut buf)\<close> of a buffered reader, into an empty buffer.\<close>

definition read_until :: "u8 \<Rightarrow> (reader, bytes) io" where
  "read_until c r =
     (let line = takeWhile (\<lambda>b. b \<noteq> c) (arriving r) in
      if c \<in> set (arriving r)
      then (Inr (line @ [c]), r\<lparr>chunks := drop_chunks (Suc (length line)) (chunks r)\<rparr>)
      else (case broken r of
              None \<Rightarrow> Inr line
            | Some (e, t) \<Rightarrow> Inl (IoError e t), r\<lparr>chunks := []\<rparr>))"

text \<open>\<open>read_to_end(limit)\<close> of a QUIC receive stream: more than \<open>limit\<close> bytes is an error.\<close>

definition read_to_end :: "nat \<Rightarrow> (reader, bytes) io" where
  "read_to_end n r =
     (if n < length (arriving r) then (Inl (Msg ''stream too long''), r\<lparr>chunks := []\<rparr>)
      else (case broken r of
              None \<Rightarrow> (Inr (arriving r), r\<lparr>chunks := []\<rparr>)
            | Some (e, t) \<Rightarrow> (Inl (IoError e t), r\<lparr>chunks := []\<rparr>)))"

definition send_all :: "bytes \<Rightarrow> (sink, unit) io" where
  "send_all b s =
     (case sfault s (writes s) of
        None \<Rightarrow> (Inr (), s\<lparr>sent := sent s @ b, writes := Suc (writes s)\<rparr>)
      | Some (k, t, n) \<Rightarrow>
          (Inl (IoError k t), s\<lparr>sent := sent s @ take n b, writes := Suc (writes s)\<rparr>))"

text \<open>\<open>flush\<close>, \<open>shutdown\<close> and the transport's \<open>finish\<close>: nothing more is sent.\<close>

definition send_ctl :: "(sink, unit) io" where
  "send_ctl = send_all []"

definition reader_of :: "bytes \<Rightarrow> reader" where
  "reader_of b = \<lparr>chunks = [b], broken = None\<rparr>"

definition fresh_sink :: sink where
  "fresh_sink = \<lparr>sent = [], writes = 0, sfault = (\<lambda>_. None)\<rparr>"

section \<open>Lemmas on readers\<close>

lemma arriving_reader_of [simp]: "arriving (reader_of b) = b"
  by (simp add: arriving_def reader_of_def)

lemma broken_reader_of [simp]: "broken (reader_of b) = None"
  by (simp add: reader_of_def)

lemma concat_drop_chunks [simp]: "concat (drop_chunks n cs) = drop n (concat cs)"
  by (induction n cs rule: drop_chunks.induct) auto

lemma arriving_chunks_update [simp]: "arriving (r\<lparr>chunks := cs\<rparr>) = concat cs"
  by (simp add: arriving_def)

lemma arriving_drop_chunks [simp]:
  "arriving (r\<lparr>chunks := drop_chunks n (chunks r)\<rparr>) = drop n (arriving r)"
  by (simp add: arriving_def)

lemma next_chunk_None_iff: "next_chunk k cs = None \<longleftrightarrow> concat cs = []"
  by (induction k cs rule: next_chunk.induct) auto

lemma next_chunk_Some:
  "next_chunk k cs = Some (b, cs') \<Longrightarrow> concat cs = b @ concat cs' \<and> (0 < k \<longrightarrow> b \<noteq> []) \<and> length b \<le> k"
  by (induction k cs rule: next_chunk.induct) auto

lemma read_some_cases:
  assumes "read_some k r = (x, r')" and "0 < k"
  obtains (data) b where "x = Inr b" "b \<noteq> []" "length b \<le> k" "arriving r = b @ arriving r'"
      "broken r' = broken r"
    | (eof) "x = Inr []" "arriving r = []" "broken r = None" "r' = r"
    | (failure) e t where "x = Inl (IoError e t)" "arriving r = []" "broken r = Some (e, t)" "r' = r"
  using assms
  by (auto simp: read_some_def next_chunk_None_iff arriving_def dest!: next_chunk_Some
      split: option.splits)

lemma read_some_shrinks:
  assumes "read_some k r = (Inr b, r')" and "0 < k" and "b \<noteq> []"
  shows "length (arriving r') < length (arriving r)"
  using assms(1,2) by (cases rule: read_some_cases) (use assms(3) in auto)

lemma read_exact_ok:
  assumes "arriving r = b @ rest" and "length b = n"
  obtains r' where "read_exact n r = (Inr b, r')" "arriving r' = rest" "broken r' = broken r"
  using assms by (simp add: read_exact_def del: arriving_chunks_update)

lemma read_exact_Inr:
  assumes "read_exact n r = (Inr b, r')"
  shows "arriving r = b @ arriving r'" and "length b = n" and "broken r' = broken r"
  using assms by (auto simp: read_exact_def arriving_def split: if_splits)

lemma read_exact_Inl:
  assumes "read_exact n r = (Inl e, r')"
  shows "length (arriving r) < n" and "arriving r' = []"
  using assms by (auto simp: read_exact_def split: if_splits)

lemma read_exact_short:
  assumes "length (arriving r) < n"
  shows "read_exact n r =
    (Inl (case broken r of None \<Rightarrow> IoError UnexpectedEof ''early eof'' | Some (e, t) \<Rightarrow> IoError e t),
     r\<lparr>chunks := []\<rparr>)"
  using assms by (simp add: read_exact_def)

section \<open>Lemmas on sinks\<close>

definition healthy :: "sink \<Rightarrow> bool" where
  "healthy s \<longleftrightarrow> (\<forall>n. sfault s n = None)"

lemma healthy_fresh [simp]: "healthy fresh_sink"
  by (simp add: healthy_def fresh_sink_def)

lemma sent_fresh [simp]: "sent fresh_sink = []"
  by (simp add: fresh_sink_def)

lemma send_all_Inr: "send_all b s = (Inr (), s') \<Longrightarrow> sent s' = sent s @ b \<and> sfault s' = sfault s"
  by (auto simp: send_all_def split: option.splits)

lemma send_all_healthy:
  assumes "healthy s"
  obtains s' where "send_all b s = (Inr (), s')" "healthy s'" "sent s' = sent s @ b"
  using assms by (simp add: send_all_def healthy_def)

lemma send_all_prefix:
  assumes "send_all b s = (x, s')"
  shows "\<exists>n. sent s' = sent s @ take n b"
  using assms by (auto simp: send_all_def split: option.splits intro: exI [of _ "length b"])

lemma send_ctl_Inr: "send_ctl s = (Inr (), s') \<Longrightarrow> sent s' = sent s \<and> sfault s' = sfault s"
  using send_all_Inr [of "[]"] by (simp add: send_ctl_def)

lemma send_ctl_healthy:
  assumes "healthy s"
  obtains s' where "send_ctl s = (Inr (), s')" "healthy s'" "sent s' = sent s"
  using assms send_all_healthy [of s "[]"] by (auto simp: send_ctl_def)

section \<open>Length-prefixed framing\<close>

locale framing =
  fixes put :: "bytes \<Rightarrow> (sink, unit) io"
    and get :: "(reader, bytes) io"
    and header :: "bytes \<Rightarrow> bytes"
    and limit :: nat
  assumes put_sends: "put b s = (Inr (), s') \<Longrightarrow> sent s' = sent s @ header b @ b"
    and put_accepts: "length b \<le> limit \<Longrightarrow> healthy s \<Longrightarrow> \<exists>s'. put b s = (Inr (), s') \<and> healthy s'"
    and put_refuses: "limit < length b \<Longrightarrow> \<exists>e. put b s = (Inl e, s)"
    and get_accepts: "length b \<le> limit \<Longrightarrow> arriving r = header b @ b @ rest \<Longrightarrow>
      \<exists>r'. get r = (Inr b, r') \<and> arriving r' = rest \<and> broken r' = broken r"
    and get_consumes: "get r = (Inr b, r') \<Longrightarrow>
      arriving r = header b @ b @ arriving r' \<and> length b \<le> limit \<and> broken r' = broken r"
begin

fun put_frames :: "bytes list \<Rightarrow> (sink, unit) io" where
  "put_frames [] = io_ok ()"
| "put_frames (b # bs) = io_bind (put b) (\<lambda>_. put_frames bs)"

fun get_frames :: "nat \<Rightarrow> (reader, bytes list) io" where
  "get_frames 0 = io_ok []"
| "get_frames (Suc n) = io_bind get (\<lambda>b. io_bind (get_frames n) (\<lambda>bs. io_ok (b # bs)))"

definition wire :: "bytes list \<Rightarrow> bytes" where
  "wire bs = concat (map (\<lambda>b. header b @ b) bs)"

lemma put_frames_sends:
  "put_frames bs s = (Inr (), s') \<Longrightarrow> sent s' = sent s @ wire bs"
proof (induction bs arbitrary: s)
  case (Cons b bs)
  from Cons.prems obtain s1 where "put b s = (Inr (), s1)" "put_frames bs s1 = (Inr (), s')"
    by (auto elim: io_bind_InrE)
  with Cons.IH show ?case by (simp add: put_sends wire_def)
qed (simp add: wire_def)

lemma put_frames_accepts:
  assumes "\<forall>b \<in> set bs. length b \<le> limit" and "healthy s"
  shows "\<exists>s'. put_frames bs s = (Inr (), s') \<and> healthy s'"
  using assms
proof (induction bs arbitrary: s)
  case (Cons b bs)
  then obtain s1 where "put b s = (Inr (), s1)" "healthy s1"
    using put_accepts [of b s] by auto
  with Cons show ?case by (simp add: io_bind_def)
qed simp

lemma get_frames_wire:
  assumes "\<forall>b \<in> set bs. length b \<le> limit" and "arriving r = wire bs @ rest"
  shows "\<exists>r'. get_frames (length bs) r = (Inr bs, r') \<and> arriving r' = rest \<and> broken r' = broken r"
  using assms
proof (induction bs arbitrary: r)
  case (Cons b bs)
  then obtain r1 where "get r = (Inr b, r1)" "arriving r1 = wire bs @ rest" "broken r1 = broken r"
    using get_accepts [of b r "wire bs @ rest"] by (auto simp: wire_def)
  with Cons.IH [of r1] Cons.prems show ?case by (auto simp: io_bind_def)
qed (simp add: wire_def)

text \<open>What a sequence of sends put on the wire is what as many receives take off it, in
  order, whatever the chunking; and the bytes after it are left for the next reader.\<close>

theorem frames_roundtrip:
  assumes "put_frames bs s = (Inr (), s')" and "\<forall>b \<in> set bs. length b \<le> limit"
    and "sent s = []" and "arriving r = sent s' @ rest"
  shows "\<exists>r'. get_frames (length bs) r = (Inr bs, r') \<and> arriving r' = rest"
  using get_frames_wire [of bs r rest] put_frames_sends [OF assms(1)] assms by auto

lemma header_unique:
  assumes "header b @ b @ u = header c @ c @ v" and "length b \<le> limit" and "length c \<le> limit"
  shows "b = c \<and> u = v"
proof -
  define x where "x = reader_of (header b @ b @ u)"
  have "arriving x = header b @ b @ u" and "arriving x = header c @ c @ v"
    using assms(1) by (simp_all add: x_def)
  with get_accepts [of b x u] get_accepts [of c x v] assms(2,3) show ?thesis by auto
qed

end

end
