(* ===== verification/Proto.thy ===== *)
theory Proto
  imports Streams
begin

text \<open>
  \<open>src/proto.rs\<close>, first part: the messages and the frame codec.

  \<open>postcard\<close> is not part of the source: the encoder \<open>enc\<close> and the decoder \<open>unpack\<close> are
  arguments.  The frame codec is an interpretation of the locale \<open>framing\<close>.
\<close>

section \<open>Messages\<close>

datatype Admission = Pending | Approved

datatype Request =
    Exec "string list"
  | Push string u32 u64 bytes
  | Pull string
  | Forward string

datatype ExecFrame =
    Stdout bytes
  | Stderr bytes
  | Exit u32
  | Failed string
  | Truncated

datatype Ack = AckOk | AckErr string

datatype PullStart = PullOk u32 u64 bytes | PullMissing | PullErr string

datatype Route = Route string

datatype PathKind = DirectLocal | DirectLan | DirectWan | Relayed | Unknown

datatype RouteReply = RouteOk string PathKind string | RouteErr string

fun show_PathKind :: "PathKind \<Rightarrow> string" where
  "show_PathKind DirectLocal = ''direct-local''"
| "show_PathKind DirectLan = ''direct-lan''"
| "show_PathKind DirectWan = ''direct-wan''"
| "show_PathKind Relayed = ''relayed''"
| "show_PathKind Unknown = ''unknown''"

definition ALPN :: string where "ALPN = ''egdod/1''"
definition MAX_MSG :: nat where "MAX_MSG = 1048576"
definition CHUNK :: nat where "CHUNK = 65536"

type_synonym 'm encoder = "'m \<Rightarrow> bytes result"
type_synonym 'm decoder = "bytes \<Rightarrow> 'm result"

text \<open>\<open>postcard\<close>'s encoders and decoders of the message types.\<close>

record postcard =
  enc_admission :: "Admission encoder"
  dec_admission :: "Admission decoder"
  enc_request :: "Request encoder"
  dec_request :: "Request decoder"
  enc_frame :: "ExecFrame encoder"
  dec_frame :: "ExecFrame decoder"
  enc_ack :: "Ack encoder"
  dec_ack :: "Ack decoder"
  enc_pull :: "PullStart encoder"
  dec_pull :: "PullStart decoder"
  enc_route :: "Route encoder"
  dec_route :: "Route decoder"
  enc_reply :: "RouteReply encoder"
  dec_reply :: "RouteReply decoder"

text \<open>What is used of it: it decodes what it encoded.\<close>

definition postcard_laws :: "postcard \<Rightarrow> bool" where
  "postcard_laws pc \<longleftrightarrow>
     (\<forall>m b. enc_admission pc m = Inr b \<longrightarrow> dec_admission pc b = Inr m)
   \<and> (\<forall>m b. enc_request pc m = Inr b \<longrightarrow> dec_request pc b = Inr m)
   \<and> (\<forall>m b. enc_frame pc m = Inr b \<longrightarrow> dec_frame pc b = Inr m)
   \<and> (\<forall>m b. enc_ack pc m = Inr b \<longrightarrow> dec_ack pc b = Inr m)
   \<and> (\<forall>m b. enc_pull pc m = Inr b \<longrightarrow> dec_pull pc b = Inr m)
   \<and> (\<forall>m b. enc_route pc m = Inr b \<longrightarrow> dec_route pc b = Inr m)
   \<and> (\<forall>m b. enc_reply pc m = Inr b \<longrightarrow> dec_reply pc b = Inr m)"

section \<open>The frame codec\<close>

definition write_msg :: "'m encoder \<Rightarrow> 'm \<Rightarrow> (sink, unit) io" where
  "write_msg enc m =
     io_bind (io_lift (with_context ''encoding message'' (enc m))) (\<lambda>body.
     io_bind (io_lift (ensure (length body \<le> MAX_MSG) (fmt [''message too large: '', dec (length body)]))) (\<lambda>_.
     let len = word_of_nat (length body) :: u32 in
     io_bind (send_all (u32_to_le len)) (\<lambda>_.
     io_bind (send_all body) (\<lambda>_.
     send_ctl))))"

definition read_msg_opt :: "'m decoder \<Rightarrow> (reader, 'm option) io" where
  "read_msg_opt unpack =
     io_catch (read_exact 4) (\<lambda>res.
       case res of
         Inl e \<Rightarrow>
           (if downcast_io e = Some UnexpectedEof then io_ok None
            else io_lift (Inl (Context ''reading message length'' e)))
       | Inr lenb \<Rightarrow>
           (let len = unat (u32_from_le lenb) in
            io_bind (io_lift (ensure (len \<le> MAX_MSG)
              (fmt [''peer announced an oversized message: '', dec len]))) (\<lambda>_.
            io_bind (io_context ''reading message'' (read_exact len)) (\<lambda>body.
            io_lift (map_sum id Some (with_context ''decoding message'' (unpack body)))))))"

definition read_msg :: "'m decoder \<Rightarrow> (reader, 'm) io" where
  "read_msg unpack = io_bind (read_msg_opt unpack)
     (\<lambda>x. io_lift (ok_or x ''peer closed the stream before sending a message''))"

text \<open>The bytes in front of a message body.\<close>

definition msg_header :: "bytes \<Rightarrow> bytes" where
  "msg_header body = u32_to_le (word_of_nat (length body))"

definition finish :: "(sink, unit) io" where
  "finish = io_bind send_ctl (\<lambda>_. send_ctl)"

section \<open>The frame codec is a framing\<close>

lemma unat_msg_len: "n \<le> MAX_MSG \<Longrightarrow> unat (word_of_nat n :: u32) = n"
  by (simp add: MAX_MSG_def unat_u32_of_nat)

lemma write_msg_via_frames:
  "write_msg enc m = io_bind (io_lift (with_context ''encoding message'' (enc m))) (write_msg Inr)"
  by (rule ext) (simp add: write_msg_def io_bind_def split: sum.split)

lemma write_frame_Inr:
  assumes "write_msg Inr b s = (Inr (), s')"
  shows "sent s' = sent s @ msg_header b @ b" and "length b \<le> MAX_MSG" and "sfault s' = sfault s"
  using assms
  by (auto simp: write_msg_def msg_header_def Let_def ensure_def split: if_splits
      elim!: io_bind_InrE dest!: send_all_Inr send_ctl_Inr)

lemma write_frame_accepts:
  assumes "length b \<le> MAX_MSG" and "healthy s"
  shows "\<exists>s'. write_msg Inr b s = (Inr (), s') \<and> healthy s'"
proof -
  obtain s1 where 1: "send_all (u32_to_le (word_of_nat (length b))) s = (Inr (), s1)" "healthy s1"
    using assms(2) by (rule send_all_healthy)
  obtain s2 where 2: "send_all b s1 = (Inr (), s2)" "healthy s2"
    using 1(2) by (rule send_all_healthy)
  obtain s3 where 3: "send_ctl s2 = (Inr (), s3)" "healthy s3"
    using 2(2) by (rule send_ctl_healthy)
  show ?thesis
    using assms(1) 1 2 3 by (simp add: write_msg_def Let_def io_simps)
qed

lemma read_frame_accepts:
  assumes "length b \<le> MAX_MSG" and "arriving r = msg_header b @ b @ rest"
  shows "\<exists>r'. read_msg_opt Inr r = (Inr (Some b), r') \<and> arriving r' = rest \<and> broken r' = broken r"
proof -
  obtain r1 where 1: "read_exact 4 r = (Inr (msg_header b), r1)"
      "arriving r1 = b @ rest" "broken r1 = broken r"
    using assms(2) by (rule read_exact_ok) (simp add: msg_header_def)
  obtain r2 where 2: "read_exact (length b) r1 = (Inr b, r2)" "arriving r2 = rest" "broken r2 = broken r1"
    using 1(2) by (rule read_exact_ok) simp
  have "unat (u32_from_le (msg_header b)) = length b"
    using assms(1) by (simp add: msg_header_def unat_msg_len)
  with assms(1) 1 2 show ?thesis
    by (simp add: read_msg_opt_def io_simps)
qed

lemma read_msg_opt_SomeE:
  assumes "read_msg_opt unpack r = (Inr (Some m), r')"
  obtains b where "unpack b = Inr m" "arriving r = msg_header b @ b @ arriving r'"
    "length b \<le> MAX_MSG" "broken r' = broken r"
proof -
  from assms obtain h r1 where h: "read_exact 4 r = (Inr h, r1)"
    by (auto simp: read_msg_opt_def split: sum.splits if_splits elim!: io_catch_cases)
  let ?n = "unat (u32_from_le h)"
  from assms h obtain b where b: "?n \<le> MAX_MSG" "read_exact ?n r1 = (Inr b, r')" "unpack b = Inr m"
    by (auto simp: read_msg_opt_def io_catch_def Let_def ensure_def map_sum_def split: if_splits sum.splits
        elim!: io_bind_InrE)
  note r = read_exact_Inr [OF h] read_exact_Inr [OF b(2)]
  have "msg_header b = h"
    using r by (simp add: msg_header_def u32_to_from_le)
  with r b that show thesis by simp
qed

lemma read_msg_opt_shrinks:
  "read_msg_opt unpack r = (Inr (Some m), r') \<Longrightarrow> length (arriving r') < length (arriving r)"
  by (erule read_msg_opt_SomeE) (simp add: msg_header_def)

lemma read_msg_iff: "read_msg unpack r = (Inr m, r') \<longleftrightarrow> read_msg_opt unpack r = (Inr (Some m), r')"
  by (auto simp: read_msg_def io_bind_def ok_or_def split: prod.splits sum.splits option.splits)

interpretation msg: framing "write_msg Inr" "read_msg Inr" msg_header MAX_MSG
proof
  fix b s s' r r' rest
  show "write_msg Inr b s = (Inr (), s') \<Longrightarrow> sent s' = sent s @ msg_header b @ b"
    by (rule write_frame_Inr(1))
  show "length b \<le> MAX_MSG \<Longrightarrow> healthy s \<Longrightarrow> \<exists>s'. write_msg Inr b s = (Inr (), s') \<and> healthy s'"
    by (rule write_frame_accepts)
  show "MAX_MSG < length b \<Longrightarrow> \<exists>e. write_msg Inr b s = (Inl e, s)"
    by (simp add: write_msg_def ensure_def)
  show "length b \<le> MAX_MSG \<Longrightarrow> arriving r = msg_header b @ b @ rest \<Longrightarrow>
      \<exists>r'. read_msg Inr r = (Inr b, r') \<and> arriving r' = rest \<and> broken r' = broken r"
    by (auto simp: read_msg_iff dest: read_frame_accepts)
  show "read_msg Inr r = (Inr b, r') \<Longrightarrow>
      arriving r = msg_header b @ b @ arriving r' \<and> length b \<le> MAX_MSG \<and> broken r' = broken r"
    by (auto simp: read_msg_iff elim: read_msg_opt_SomeE)
qed

lemma read_msg_opt_decode:
  assumes "read_msg_opt Inr r = (Inr (Some b), r')"
  shows "read_msg_opt unpack r = (map_sum id Some (with_context ''decoding message'' (unpack b)), r')"
proof -
  from assms obtain h r1 where h: "read_exact 4 r = (Inr h, r1)"
    by (auto simp: read_msg_opt_def split: sum.splits if_splits elim!: io_catch_cases)
  with assms show ?thesis
    by (auto simp: read_msg_opt_def io_catch_def Let_def ensure_def map_sum_def io_bind_def
        io_context_def with_context_def split: if_splits sum.splits prod.splits)
qed

section \<open>Properties of the frame codec\<close>

lemma write_msg_Inr:
  assumes "write_msg enc m s = (Inr (), s')"
  obtains b where "enc m = Inr b" "sent s' = sent s @ msg_header b @ b" "length b \<le> MAX_MSG"
    "sfault s' = sfault s"
  using assms write_frame_Inr
  by (auto simp: write_msg_via_frames [of enc] with_context_def split: sum.splits)

lemma read_msg_accepts:
  assumes "unpack b = Inr m" and "length b \<le> MAX_MSG" and "arriving r = msg_header b @ b @ rest"
  shows "\<exists>r'. read_msg unpack r = (Inr m, r') \<and> arriving r' = rest \<and> broken r' = broken r"
  using read_frame_accepts [OF assms(2,3)] assms(1) read_msg_opt_decode [of r b _ unpack]
  by (auto simp: read_msg_iff)

text \<open>C34. A message that \<open>write_msg\<close> put on the wire is what \<open>read_msg\<close> takes off it, in
  whatever chunks the transport delivers the bytes, and the bytes that follow are left
  untouched for the next reader.  What is used of postcard is that it decodes what it encoded.\<close>

theorem msg_roundtrip:
  assumes postcard: "\<And>m b. enc m = Inr b \<Longrightarrow> unpack b = Inr m"
    and sent: "write_msg enc m s = (Inr (), s')"
    and arrives: "sent s @ arriving r = sent s' @ rest"
  shows "\<exists>r'. read_msg unpack r = (Inr m, r') \<and> arriving r' = rest \<and> broken r' = broken r"
proof -
  from sent obtain b where "enc m = Inr b" "sent s' = sent s @ msg_header b @ b" "length b \<le> MAX_MSG"
    by (rule write_msg_Inr)
  with postcard arrives show ?thesis by (intro read_msg_accepts) auto
qed

theorem msg_roundtrip_witness:
  "\<exists>r'. read_msg (\<lambda>b. Inr (b = [1])) (reader_of [1, 0, 0, 0, 1, 7]) = (Inr True, r')
     \<and> arriving r' = [7] \<and> broken r' = None"
proof -
  let ?enc = "\<lambda>x::bool. Inr (if x then [1] else [0 :: u8]) :: bytes result"
  let ?s = "fresh_sink\<lparr>sent := [1, 0, 0, 0, 1], writes := 3\<rparr>"
  have "write_msg ?enc True fresh_sink = (Inr (), ?s)"
    by (simp add: write_msg_def MAX_MSG_def fresh_sink_def send_all_def send_ctl_def io_bind_def
        u32_to_le_def)
  from msg_roundtrip [OF _ this, of "\<lambda>b. Inr (b = [1])" "reader_of [1, 0, 0, 0, 1, 7]" "[7]"]
  show ?thesis by simp
qed

text \<open>When a framed sequence ends: exactly when fewer than the four bytes of a length
  are left and the stream ends there without a fault.  The one to three bytes of a
  length that was cut off end the sequence as a clean end of stream does.\<close>

theorem read_msg_opt_end:
  "fst (read_msg_opt unpack r) = Inr None \<longleftrightarrow>
     length (arriving r) < 4 \<and> (broken r = None \<or> fst ` set_option (broken r) = {UnexpectedEof})"
proof -
  have "map_sum id Some y \<noteq> Inr None" for y :: "'a result" by (cases y) simp_all
  then show ?thesis
    by (cases "broken r")
      (auto simp: read_msg_opt_def read_exact_def io_catch_def io_bind_def io_lift_def io_ok_def io_context_def Let_def
        split: sum.splits if_splits prod.splits)
qed

section \<open>A postcard\<close>

text \<open>An instance of the codec that knows one message of each kind (and every output frame);
  the witnesses use it.\<close>

definition only_enc :: "'m \<Rightarrow> 'm encoder" where
  "only_enc m0 m = (if m = m0 then Inr [0] else Inl (Msg ''other''))"

definition only_dec :: "'m \<Rightarrow> 'm decoder" where
  "only_dec m0 b = (if b = [0] then Inr m0 else Inl (Msg ''other''))"

definition demo_postcard :: "Request \<Rightarrow> Ack \<Rightarrow> PullStart \<Rightarrow> Route \<Rightarrow> RouteReply \<Rightarrow> postcard" where
  "demo_postcard rq ak pl rt rp =
    \<lparr>enc_admission = only_enc Approved, dec_admission = only_dec Approved,
     enc_request = only_enc rq, dec_request = only_dec rq,
     enc_frame = (\<lambda>f. if f = Exit 0 then Inr [0] else case f of Stdout b \<Rightarrow> Inr (1 # b) | _ \<Rightarrow> Inl (Msg ''other'')),
     dec_frame = (\<lambda>b. if b = [0] then Inr (Exit 0) else Inr (Stdout (tl b))),
     enc_ack = only_enc ak, dec_ack = only_dec ak, enc_pull = only_enc pl, dec_pull = only_dec pl,
     enc_route = only_enc rt, dec_route = only_dec rt, enc_reply = only_enc rp, dec_reply = only_dec rp\<rparr>"

lemma demo_postcard_laws: "postcard_laws (demo_postcard rq ak pl rt rp)"
  by (auto simp: postcard_laws_def demo_postcard_def only_enc_def only_dec_def split: if_splits ExecFrame.splits)

text \<open>A codec of the listed messages: the number of those before it, in ones.\<close>

fun list_enc :: "'m list \<Rightarrow> 'm encoder" where
  "list_enc [] m = Inl (Msg ''other'')"
| "list_enc (x # xs) m = (if m = x then Inr [0] else map_sum id (Cons 1) (list_enc xs m))"

fun list_dec :: "'m list \<Rightarrow> 'm decoder" where
  "list_dec [] b = Inl (Msg ''other'')"
| "list_dec (x # xs) b = (if b = [0] then Inr x else list_dec xs (tl b))"

lemma list_enc_dec: "list_enc xs m = Inr b \<Longrightarrow> list_dec xs b = Inr m"
proof (induction xs arbitrary: b)
  case (Cons x xs)
  show ?case
  proof (cases "m = x")
    case False
    with Cons.prems obtain c where c: "list_enc xs m = Inr c" "b = 1 # c" by (cases "list_enc xs m") auto
    with Cons.IH show ?thesis by simp
  qed (use Cons.prems in simp)
qed simp

definition listed_postcard :: "Request list \<Rightarrow> PullStart list \<Rightarrow> Route \<Rightarrow> RouteReply \<Rightarrow> postcard" where
  "listed_postcard rqs pls rt rp =
    (demo_postcard (Pull []) AckOk PullMissing rt rp)\<lparr>enc_request := list_enc rqs, dec_request := list_dec rqs,
      enc_pull := list_enc pls, dec_pull := list_dec pls\<rparr>"

lemma listed_postcard_laws: "postcard_laws (listed_postcard rqs pls rt rp)"
  using demo_postcard_laws [of "Pull []" AckOk PullMissing rt rp]
  by (auto simp: postcard_laws_def listed_postcard_def dest: list_enc_dec)

end
