(* ===== verification/Rust_Text.thy ===== *)
theory Rust_Text
  imports Prelude
begin

text \<open>
  The parts of Rust's \<open>str\<close> that the source uses, on the UTF-8 bytes of the text:
  UTF-8 validation (\<open>read_to_string\<close>), \<open>lines\<close>, \<open>split('#').next()\<close>, \<open>trim\<close>,
  \<open>split_whitespace\<close>, \<open>starts_with\<close> and \<open>to_lowercase\<close>.  White space is the Unicode
  property: the 25 code points, recognised by their byte sequences (a UTF-8 lead byte never
  occurs inside another character, so scanning bytes finds exactly the characters).
  \<open>to_lowercase\<close> maps the ASCII capitals only; the two non-ASCII characters whose lower
  case is ASCII give a \<open>k\<close> and an \<open>i\<close>, which occur neither in hexadecimal text nor in
  the word "any", the only texts a lowercased selector is compared with.
\<close>

section \<open>UTF-8\<close>

definition is_cont :: "nat \<Rightarrow> bool" where
  "is_cont x \<longleftrightarrow> 128 \<le> x \<and> x \<le> 191"

definition utf8_2 :: "u8 \<Rightarrow> u8 \<Rightarrow> bool" where
  "utf8_2 a b \<longleftrightarrow> 194 \<le> unat a \<and> unat a \<le> 223 \<and> is_cont (unat b)"

definition utf8_3 :: "u8 \<Rightarrow> u8 \<Rightarrow> u8 \<Rightarrow> bool" where
  "utf8_3 a b c \<longleftrightarrow> 224 \<le> unat a \<and> unat a \<le> 239 \<and> is_cont (unat b) \<and> is_cont (unat c)
     \<and> (unat a = 224 \<longrightarrow> 160 \<le> unat b) \<and> (unat a = 237 \<longrightarrow> unat b \<le> 159)"

definition utf8_4 :: "u8 \<Rightarrow> u8 \<Rightarrow> u8 \<Rightarrow> u8 \<Rightarrow> bool" where
  "utf8_4 a b c d \<longleftrightarrow> 240 \<le> unat a \<and> unat a \<le> 244
     \<and> is_cont (unat b) \<and> is_cont (unat c) \<and> is_cont (unat d)
     \<and> (unat a = 240 \<longrightarrow> 144 \<le> unat b) \<and> (unat a = 244 \<longrightarrow> unat b \<le> 143)"

text \<open>The width of the well-formed character at the head of the bytes, 0 when there is none.\<close>

fun utf8_width :: "bytes \<Rightarrow> nat" where
  "utf8_width [] = 0"
| "utf8_width [a] = (if unat a < 128 then 1 else 0)"
| "utf8_width [a, b] = (if unat a < 128 then 1 else if utf8_2 a b then 2 else 0)"
| "utf8_width [a, b, c] =
     (if unat a < 128 then 1 else if utf8_2 a b then 2 else if utf8_3 a b c then 3 else 0)"
| "utf8_width (a # b # c # d # s) =
     (if unat a < 128 then 1 else if utf8_2 a b then 2 else if utf8_3 a b c then 3
      else if utf8_4 a b c d then 4 else 0)"

function utf8_ok :: "bytes \<Rightarrow> bool" where
  "utf8_ok s = (if s = [] then True
     else if utf8_width s = 0 then False
     else utf8_ok (drop (utf8_width s) s))"
  by pat_completeness auto
termination
  by (relation "measure length") auto

declare utf8_ok.simps [simp del]

text \<open>\<open>String::from_utf8\<close>.\<close>

definition from_utf8 :: "bytes \<Rightarrow> string option" where
  "from_utf8 b = (if utf8_ok b then Some (of_bytes b) else None)"

text \<open>
  \<open>String::from_utf8_lossy\<close>: each maximal part of an ill-formed sequence becomes one replacement
  character.
\<close>

definition second_ok :: "u8 \<Rightarrow> u8 \<Rightarrow> bool" where
  "second_ok a b \<longleftrightarrow> is_cont (unat b)
     \<and> (unat a = 224 \<longrightarrow> 160 \<le> unat b) \<and> (unat a = 237 \<longrightarrow> unat b \<le> 159)
     \<and> (unat a = 240 \<longrightarrow> 144 \<le> unat b) \<and> (unat a = 244 \<longrightarrow> unat b \<le> 143)"

fun bad_width :: "bytes \<Rightarrow> nat" where
  "bad_width (a # b # s) =
     (if 224 \<le> unat a \<and> unat a \<le> 244 \<and> second_ok a b
      then (if 240 \<le> unat a then (case s of c # _ \<Rightarrow> (if is_cont (unat c) then 3 else 2) | [] \<Rightarrow> 2) else 2)
      else 1)"
| "bad_width s = 1"

function from_utf8_lossy :: "bytes \<Rightarrow> string" where
  "from_utf8_lossy s =
     (if s = [] then []
      else if utf8_width s = 0 then map char_of [239, 191, 189 :: nat] @ from_utf8_lossy (drop (bad_width s) s)
      else of_bytes (take (utf8_width s) s) @ from_utf8_lossy (drop (utf8_width s) s))"
  by pat_completeness auto
termination
proof (relation "measure length", goal_cases)
  case (2 s)
  then have "0 < bad_width s" by (cases s rule: bad_width.cases) (auto split: list.splits)
  with 2 show ?case by simp
qed auto

declare from_utf8_lossy.simps [simp del]

section \<open>Lines and fields\<close>

definition newline :: char where "newline = char_of (10 :: nat)"
definition carriage_return :: char where "carriage_return = char_of (13 :: nat)"
definition tab :: char where "tab = char_of (9 :: nat)"
definition quote :: char where "quote = char_of (34 :: nat)"
definition backslash :: char where "backslash = char_of (92 :: nat)"
definition nul :: char where "nul = char_of (0 :: nat)"

definition em_dash :: string where "em_dash = map char_of [226, 128, 148 :: nat]"

abbreviation nl :: string where "nl \<equiv> [newline]"

definition strip_cr :: "string \<Rightarrow> string" where
  "strip_cr s = (if s \<noteq> [] \<and> last s = carriage_return then butlast s else s)"

text \<open>\<open>str::lines\<close>: pieces ended by a newline (an optional carriage return before it
  removed), and the unterminated rest when it is not empty.\<close>

fun lines_from :: "string \<Rightarrow> string \<Rightarrow> string list" where
  "lines_from acc [] = (if acc = [] then [] else [acc])"
| "lines_from acc (c # cs) =
     (if c = newline then strip_cr acc # lines_from [] cs else lines_from (acc @ [c]) cs)"

definition lines :: "string \<Rightarrow> string list" where
  "lines s = lines_from [] s"

text \<open>\<open>line.split('#').next().unwrap_or("")\<close>.\<close>

definition before_hash :: "string \<Rightarrow> string" where
  "before_hash s = takeWhile (\<lambda>c. c \<noteq> CHR ''#'') s"

definition ends_with_newline :: "string \<Rightarrow> bool" where
  "ends_with_newline s \<longleftrightarrow> s \<noteq> [] \<and> last s = newline"

text \<open>The white-space characters of one, two and three bytes.\<close>

definition ws1 :: "char \<Rightarrow> bool" where
  "ws1 a \<longleftrightarrow> (let x = of_char a :: nat in (9 \<le> x \<and> x \<le> 13) \<or> x = 32)"

definition ws2 :: "char \<Rightarrow> char \<Rightarrow> bool" where
  "ws2 a b \<longleftrightarrow> of_char a = (194 :: nat) \<and> (of_char b = (133 :: nat) \<or> of_char b = (160 :: nat))"

definition ws3 :: "char \<Rightarrow> char \<Rightarrow> char \<Rightarrow> bool" where
  "ws3 a b c \<longleftrightarrow>
     (let x = of_char a :: nat; y = of_char b :: nat; z = of_char c :: nat in
      (x = 225 \<and> y = 154 \<and> z = 128)
      \<or> (x = 226 \<and> y = 128 \<and> ((128 \<le> z \<and> z \<le> 138) \<or> z = 168 \<or> z = 169 \<or> z = 175))
      \<or> (x = 226 \<and> y = 129 \<and> z = 159)
      \<or> (x = 227 \<and> y = 128 \<and> z = 128))"

text \<open>Length in bytes of the white-space character at the head, 0 when there is none.\<close>

fun ws_len :: "string \<Rightarrow> nat" where
  "ws_len [] = 0"
| "ws_len [a] = (if ws1 a then 1 else 0)"
| "ws_len [a, b] = (if ws1 a then 1 else if ws2 a b then 2 else 0)"
| "ws_len (a # b # c # s) =
     (if ws1 a then 1 else if ws2 a b then 2 else if ws3 a b c then 3 else 0)"

function trim_start :: "string \<Rightarrow> string" where
  "trim_start s = (if ws_len s = 0 then s else trim_start (drop (ws_len s) s))"
  by pat_completeness auto
termination
  by (relation "measure length") (auto, case_tac s, auto)

declare trim_start.simps [simp del]

text \<open>Length in bytes of the white-space character that ends the text.\<close>

definition ws_len_end :: "string \<Rightarrow> nat" where
  "ws_len_end s =
     (if ws_len (drop (length s - 1) s) = 1 then 1
      else if ws_len (drop (length s - 2) s) = 2 then 2
      else if ws_len (drop (length s - 3) s) = 3 then 3 else 0)"

function trim_end :: "string \<Rightarrow> string" where
  "trim_end s =
     (if s = [] \<or> ws_len_end s = 0 then s else trim_end (take (length s - ws_len_end s) s))"
  by pat_completeness auto
termination
  by (relation "measure length") auto

declare trim_end.simps [simp del]

definition trim :: "string \<Rightarrow> string" where
  "trim s = trim_end (trim_start s)"

function fields_from :: "string \<Rightarrow> string \<Rightarrow> string list" where
  "fields_from acc s =
     (case s of
        [] \<Rightarrow> (if acc = [] then [] else [acc])
      | c # cs \<Rightarrow>
          (if ws_len s = 0 then fields_from (acc @ [c]) cs
           else (if acc = [] then [] else [acc]) @ fields_from [] (drop (ws_len s) s)))"
  by pat_completeness auto
termination
  by (relation "measure (\<lambda>(acc, s). length s)") auto

declare fields_from.simps [simp del]

definition split_whitespace :: "string \<Rightarrow> string list" where
  "split_whitespace s = fields_from [] s"

definition starts_with :: "string \<Rightarrow> string \<Rightarrow> bool" where
  "starts_with s p \<longleftrightarrow> take (length p) s = p"

definition lower_char :: "char \<Rightarrow> char" where
  "lower_char c =
     (let x = of_char c :: nat in if 65 \<le> x \<and> x \<le> 90 then char_of (x + 32) else c)"

definition to_lowercase :: "string \<Rightarrow> string" where
  "to_lowercase s = map lower_char s"

section \<open>Lemmas on UTF-8\<close>

lemma utf8_width_le: "utf8_width s \<le> length s"
  by (cases s rule: utf8_width.cases) auto

lemma utf8_width_append: "utf8_width s \<noteq> 0 \<Longrightarrow> utf8_width (s @ t) = utf8_width s"
  by (cases s rule: utf8_width.cases; cases t rule: utf8_width.cases) (auto split: if_splits)

lemma utf8_width_ascii: "unat a < 128 \<Longrightarrow> utf8_width (a # s) = 1"
  by (cases "a # s" rule: utf8_width.cases) auto

lemma utf8_ok_Nil [simp]: "utf8_ok []"
  by (subst utf8_ok.simps) simp

lemma utf8_ok_append: "utf8_ok s \<Longrightarrow> utf8_ok t \<Longrightarrow> utf8_ok (s @ t)"
proof (induction s rule: utf8_ok.induct)
  case (1 s)
  show ?case
  proof (cases "s = []")
    case False
    with "1.prems" have w: "utf8_width s \<noteq> 0" and ok: "utf8_ok (drop (utf8_width s) s)"
      by (simp_all add: utf8_ok.simps [of s] split: if_splits)
    with False "1.IH" "1.prems" have "utf8_ok (drop (utf8_width s) s @ t)" by simp
    with w utf8_width_le [of s] show ?thesis
      by (simp add: utf8_ok.simps [of "s @ t"] utf8_width_append)
  qed (use "1.prems" in simp)
qed

lemma utf8_ok_ascii_Cons: "unat b < 128 \<Longrightarrow> utf8_ok (b # s) = utf8_ok s"
  by (subst utf8_ok.simps) (simp add: utf8_width_ascii)

definition ascii :: "string \<Rightarrow> bool" where
  "ascii s \<longleftrightarrow> (\<forall>c \<in> set s. of_char c < (128 :: nat))"

lemma ascii_simps [simp]:
  "ascii []"
  "ascii (c # s) \<longleftrightarrow> of_char c < (128 :: nat) \<and> ascii s"
  "ascii (s @ t) \<longleftrightarrow> ascii s \<and> ascii t"
  by (auto simp: ascii_def)

lemma unat_byte_of_char [simp]: "unat (byte_of_char c) = of_char c"
proof -
  have "(of_char c :: nat) < 256" by (metis of_char_mod_256 mod_less_divisor zero_less_numeral)
  then show ?thesis by (simp only: byte_of_char_def unat_u8_of_nat) simp
qed

lemma utf8_ok_ascii: "ascii s \<Longrightarrow> utf8_ok (as_bytes s)"
  by (induction s) (simp_all add: utf8_ok_ascii_Cons)

lemma of_char_newline [simp]: "of_char newline = (10 :: nat)"
  by (simp add: newline_def)

section \<open>Lemmas on lines\<close>

lemma control_chars:
  "newline = CHR 0x0A" "carriage_return = CHR 0x0D" "tab = CHR 0x09" "quote = CHR 0x22" "nul = CHR 0x00" "backslash = CHR 0x5C"
  by code_simp+

lemma lines_from_append_newline:
  "lines_from acc (s @ newline # t) =
     lines_from acc (s @ nl) @ lines_from [] t"
  by (induction s arbitrary: acc) auto

lemma lines_from_no_newline:
  "newline \<notin> set s \<Longrightarrow> lines_from acc (s @ nl) = [strip_cr (acc @ s)]"
  by (induction s arbitrary: acc) auto

lemma lines_append_terminated:
  assumes "s = [] \<or> ends_with_newline s"
  shows "lines (s @ t) = lines s @ lines t"
proof (cases "s = []")
  case False
  with assms obtain u where "s = u @ nl"
    by (metis append_butlast_last_id ends_with_newline_def)
  then show ?thesis
    using lines_from_append_newline [of "[]" u t] by (simp add: lines_def)
qed (simp add: lines_def)

lemma lines_one: "newline \<notin> set l \<Longrightarrow> lines (l @ nl) = [strip_cr l]"
  by (simp add: lines_def lines_from_no_newline)

lemma lines_block:
  assumes "\<forall>l \<in> set ls. newline \<notin> set l \<and> carriage_return \<notin> set l"
  shows "lines (concat (map (\<lambda>l. l @ nl) ls)) = ls"
  using assms
proof (induction ls)
  case (Cons l ls)
  then have "lines ((l @ nl) @ concat (map (\<lambda>l. l @ nl) ls)) = lines (l @ nl) @ ls"
    by (subst lines_append_terminated) (auto simp: ends_with_newline_def)
  moreover have "strip_cr l = l" using Cons.prems last_in_set [of l] unfolding strip_cr_def by fastforce
  ultimately show ?case using Cons.prems by (simp add: lines_one)
qed (simp add: lines_def)

text \<open>Terminating an unterminated text changes its lines at most by a carriage return.\<close>

lemma lines_from_terminate:
  assumes "\<not> ends_with_newline s" and "acc @ s \<noteq> []"
  shows "\<exists>ls l. lines_from acc s = ls @ [l] \<and> lines_from acc (s @ nl) = ls @ [strip_cr l]"
  using assms
proof (induction s arbitrary: acc)
  case Nil
  then show ?case by simp
next
  case (Cons c s)
  have step: "\<not> ends_with_newline s"
    using Cons.prems(1) by (auto simp: ends_with_newline_def split: if_splits)
  show ?case
  proof (cases "c = newline")
    case True
    with Cons.prems have "s \<noteq> []" by (auto simp: ends_with_newline_def)
    with Cons.IH [OF step, of "[]"] obtain ls l where
      "lines_from [] s = ls @ [l]" "lines_from [] (s @ nl) = ls @ [strip_cr l]" by auto
    with True show ?thesis by (intro exI [of _ "strip_cr acc # ls"] exI [of _ l]) simp
  next
    case False
    with Cons.IH [OF step, of "acc @ [c]"] show ?thesis by simp
  qed
qed

section \<open>Lemmas on white space\<close>

text \<open>A byte that can begin a character: not a UTF-8 continuation byte.\<close>

definition lead :: "char \<Rightarrow> bool" where
  "lead c \<longleftrightarrow> \<not> is_cont (of_char c)"

lemma ws_lead:
  "ws1 a \<Longrightarrow> lead a" "ws2 a b \<Longrightarrow> lead a" "ws3 a b c \<Longrightarrow> lead a"
  "ws2 a b \<Longrightarrow> \<not> lead b" "ws3 a b c \<Longrightarrow> \<not> lead b" "ws3 a b c \<Longrightarrow> \<not> lead c"
  by (auto simp: ws1_def ws2_def ws3_def Let_def lead_def is_cont_def)

lemma ws_len_le: "ws_len s \<le> length s"
  by (cases s rule: ws_len.cases) auto

lemma ws_len_lead: "ws_len (c # s) \<noteq> 0 \<Longrightarrow> lead c"
  by (cases "c # s" rule: ws_len.cases) (auto dest: ws_lead split: if_splits)

lemma ws_len_append_lead:
  assumes "s \<noteq> []" and "lead c"
  shows "ws_len (s @ c # t) = ws_len s"
  using assms
  by (cases s rule: ws_len.cases; cases t) (auto dest: ws_lead)

lemma ws_len_prefix: "ws_len (s @ t) = 0 \<Longrightarrow> ws_len s = 0"
  by (cases s rule: ws_len.cases; cases t rule: ws_len.cases) (auto split: if_splits)

lemma fields_from_Nil [simp]: "fields_from acc [] = (if acc = [] then [] else [acc])"
  by (subst fields_from.simps) simp

lemma fields_from_char:
  "ws_len (c # s) = 0 \<Longrightarrow> fields_from acc (c # s) = fields_from (acc @ [c]) s"
  by (subst fields_from.simps) (simp del: ws_len.simps)

lemma fields_from_ws:
  assumes "ws_len s \<noteq> 0"
  shows "fields_from acc s =
    (if acc = [] then [] else [acc]) @ fields_from [] (drop (ws_len s) s)"
proof -
  obtain c u where "s = c # u" using assms by (cases s) auto
  with assms show ?thesis
    by (subst fields_from.simps) (simp del: ws_len.simps)
qed

lemma fields_from_append_ws:
  assumes "w \<noteq> []" and "ws_len w = length w"
  shows "fields_from acc (s @ w) = fields_from acc s"
proof (induction acc s rule: fields_from.induct)
  case (1 acc s)
  obtain x v where w: "w = x # v" using assms(1) by (cases w) auto
  have "lead x" using assms ws_len_lead [of x v] by (simp add: w)
  show ?case
  proof (cases s)
    case Nil
    with assms show ?thesis by (simp add: fields_from_ws)
  next
    case (Cons c cs)
    then have len: "ws_len (s @ w) = ws_len s"
      using ws_len_append_lead [of s x v] \<open>lead x\<close> by (simp add: w)
    show ?thesis
    proof (cases "ws_len s = 0")
      case True
      then have "fields_from acc (c # cs @ w) = fields_from (acc @ [c]) (cs @ w)"
        using len Cons by (intro fields_from_char) simp
      also have "\<dots> = fields_from (acc @ [c]) cs"
        using "1.IH"(1) [OF Cons True] .
      finally show ?thesis using True Cons by (simp add: fields_from_char)
    next
      case False
      moreover have "drop (ws_len s) (s @ w) = drop (ws_len s) s @ w"
        using ws_len_le [of s] by simp
      ultimately show ?thesis
        using "1.IH"(2) [OF Cons False] len
        by (simp add: fields_from_ws)
    qed
  qed
qed

lemma trim_start_eq:
  "ws_len s = 0 \<Longrightarrow> trim_start s = s"
  "ws_len s \<noteq> 0 \<Longrightarrow> trim_start s = trim_start (drop (ws_len s) s)"
  by (subst trim_start.simps, simp)+

lemma trim_end_eq:
  "ws_len_end s = 0 \<Longrightarrow> trim_end s = s"
  "s \<noteq> [] \<Longrightarrow> ws_len_end s \<noteq> 0 \<Longrightarrow>
    trim_end s = trim_end (take (length s - ws_len_end s) s)"
  by (subst trim_end.simps, simp)+

lemma fields_from_trim_start: "fields_from [] (trim_start s) = fields_from [] s"
proof (induction s rule: trim_start.induct)
  case (1 s)
  show ?case
  proof (cases "ws_len s = 0")
    case True
    then show ?thesis by (simp only: trim_start_eq(1))
  next
    case False
    show ?thesis
      unfolding trim_start_eq(2) [OF False] "1.IH" [OF False] fields_from_ws [OF False] by simp
  qed
qed

lemma ws_len_end_suffix:
  assumes "ws_len_end s \<noteq> 0"
  shows "ws_len (drop (length s - ws_len_end s) s) = length (drop (length s - ws_len_end s) s)"
    and "drop (length s - ws_len_end s) s \<noteq> []"
proof -
  let ?k = "ws_len_end s"
  have k: "ws_len (drop (length s - ?k) s) = ?k"
    using assms by (auto simp: ws_len_end_def)
  then have "?k \<le> length s"
    using ws_len_le [of "drop (length s - ?k) s"] by simp
  with k assms show "ws_len (drop (length s - ?k) s) = length (drop (length s - ?k) s)"
    and "drop (length s - ?k) s \<noteq> []" by auto
qed

lemma fields_from_trim_end: "fields_from acc (trim_end s) = fields_from acc s"
proof (induction s rule: trim_end.induct)
  case (1 s)
  show ?case
  proof (cases "s = [] \<or> ws_len_end s = 0")
    case True
    then show ?thesis by (auto simp: trim_end_eq(1) trim_end.simps [of "[]"])
  next
    case False
    let ?n = "length s - ws_len_end s"
    have "fields_from acc (take ?n s @ drop ?n s) = fields_from acc (take ?n s)"
      using False ws_len_end_suffix by (intro fields_from_append_ws) auto
    with False "1.IH" show ?thesis by (simp add: trim_end_eq(2))
  qed
qed

lemma split_whitespace_trim [simp]: "split_whitespace (trim s) = split_whitespace s"
  by (simp add: split_whitespace_def trim_def fields_from_trim_end fields_from_trim_start)

lemma trim_end_prefix: "\<exists>t. s = trim_end s @ t"
proof (induction s rule: trim_end.induct)
  case (1 s)
  show ?case
  proof (cases "s = [] \<or> ws_len_end s = 0")
    case True
    then show ?thesis by (auto simp: trim_end_eq(1) trim_end.simps [of "[]"])
  next
    case False
    let ?n = "length s - ws_len_end s"
    from False "1.IH" obtain t where "take ?n s = trim_end (take ?n s) @ t" by auto
    then have "s = trim_end (take ?n s) @ t @ drop ?n s"
      by (metis append.assoc append_take_drop_id)
    moreover have "trim_end s = trim_end (take ?n s)"
      using False by (intro trim_end_eq(2)) auto
    ultimately show ?thesis by metis
  qed
qed

lemma ws_len_trim_start: "ws_len (trim_start s) = 0"
proof (induction s rule: trim_start.induct)
  case (1 s)
  show ?case
  proof (cases "ws_len s = 0")
    case False
    show ?thesis unfolding trim_start_eq(2) [OF False] by (rule "1.IH" [OF False])
  qed (simp add: trim_start_eq(1))
qed

lemma ws_len_trim: "ws_len (trim s) = 0"
  by (metis trim_def trim_end_prefix ws_len_prefix ws_len_trim_start)

lemma fields_from_acc_nonempty: "acc \<noteq> [] \<Longrightarrow> fields_from acc s \<noteq> []"
proof (induction acc s rule: fields_from.induct)
  case (1 acc s)
  show ?case
  proof (cases s)
    case (Cons c cs)
    with "1" show ?thesis
      by (cases "ws_len s = 0") (simp_all add: fields_from_char fields_from_ws del: ws_len.simps)
  qed (use "1.prems" in simp)
qed

text \<open>The \<open>expect("non-empty line has a first field")\<close> of the approved list never fails.\<close>

lemma trim_Nil_iff: "trim s = [] \<longleftrightarrow> split_whitespace s = []"
proof
  assume "trim s = []"
  then show "split_whitespace s = []"
    by (metis fields_from_Nil split_whitespace_def split_whitespace_trim)
next
  assume none: "split_whitespace s = []"
  show "trim s = []"
  proof (rule ccontr)
    assume "trim s \<noteq> []"
    then obtain c cs where t: "trim s = c # cs" by (cases "trim s") auto
    with ws_len_trim [of s] have "fields_from [] (c # cs) = fields_from [c] cs"
      by (simp add: fields_from_char del: ws_len.simps)
    then have "split_whitespace (trim s) \<noteq> []"
      by (simp add: split_whitespace_def t fields_from_acc_nonempty)
    with none show False by simp
  qed
qed

lemma split_whitespace_append_cr: "split_whitespace (s @ [carriage_return]) = split_whitespace s"
  unfolding split_whitespace_def
  by (rule fields_from_append_ws) (simp_all add: carriage_return_def ws1_def)

text \<open>Printable ASCII without the space.\<close>

definition graphic :: "string \<Rightarrow> bool" where
  "graphic s \<longleftrightarrow> (\<forall>c \<in> set s. 32 < (of_char c :: nat) \<and> of_char c < (127 :: nat))"

lemma graphic_simps [simp]:
  "graphic []"
  "graphic (c # s) \<longleftrightarrow> 32 < (of_char c :: nat) \<and> of_char c < (127 :: nat) \<and> graphic s"
  "graphic (s @ t) \<longleftrightarrow> graphic s \<and> graphic t"
  by (auto simp: graphic_def)

lemma graphic_ascii: "graphic s \<Longrightarrow> ascii s"
  by (auto simp: graphic_def ascii_def)

lemma graphic_not_mem:
  "graphic s \<Longrightarrow> of_char c \<le> (32 :: nat) \<Longrightarrow> c \<notin> set s"
  by (auto simp: graphic_def)

lemma ws_len_graphic:
  assumes "32 < (of_char c :: nat)" and "of_char c < (127 :: nat)"
  shows "ws_len (c # s) = 0"
proof -
  have "\<not> ws1 c" and "\<And>b. \<not> ws2 c b" and "\<And>b d. \<not> ws3 c b d"
    using assms by (simp_all add: ws1_def ws2_def ws3_def)
  then show ?thesis by (cases "c # s" rule: ws_len.cases) simp_all
qed

lemma fields_from_graphic:
  "graphic s \<Longrightarrow> fields_from acc s = (if acc @ s = [] then [] else [acc @ s])"
  by (induction s arbitrary: acc) (simp_all add: fields_from_char ws_len_graphic)

lemma split_whitespace_word: "s \<noteq> [] \<Longrightarrow> graphic s \<Longrightarrow> split_whitespace s = [s]"
  by (simp add: split_whitespace_def fields_from_graphic)

end
