(* ===== verification/Fs.thy ===== *)
theory Fs
  imports Rust_Text
begin

text \<open>
  Paths and the file system, as \<open>std::path\<close> and \<open>std::fs\<close> (and tokio's wrappers of them)
  present them to the source.  A path is its list of components.  The world maps paths to
  nodes; every system call advances \<open>tick\<close> and may be made to fail by the environment
  (\<open>fault\<close> at that tick, with the number of bytes a failing write still got onto the disk),
  so a statement about an operation covers every pattern of I/O failures.  \<open>history\<close> is a
  ghost: the node map after every change, that is, everything another process or a crash
  could observe in between.  Randomness, the clock, the process id and \<open>statvfs\<close> are
  likewise supplied by the environment.

  Symbolic links are followed in the final component only, and one process runs at a time
  between two of its own system calls.
\<close>

section \<open>Paths\<close>

datatype component = RootDir | CurDir | ParentDir | Normal string

type_synonym path = "component list"

definition file_name :: "path \<Rightarrow> string option" where
  "file_name p = (case rev p of Normal s # _ \<Rightarrow> Some s | _ \<Rightarrow> None)"

definition parent_path :: "path \<Rightarrow> path option" where
  "parent_path p = (if p = [] \<or> last p = RootDir then None else Some (butlast p))"

definition join :: "path \<Rightarrow> string \<Rightarrow> path" where
  "join p s = p @ [Normal s]"

definition with_file_name :: "path \<Rightarrow> string \<Rightarrow> path" where
  "with_file_name p s =
     (case file_name p of None \<Rightarrow> p @ [Normal s] | Some _ \<Rightarrow> butlast p @ [Normal s])"

fun split_slash :: "string \<Rightarrow> string \<Rightarrow> string list" where
  "split_slash acc [] = [acc]"
| "split_slash acc (c # s) =
     (if c = CHR ''/'' then acc # split_slash [] s else split_slash (acc @ [c]) s)"

definition component_of :: "string \<Rightarrow> component" where
  "component_of s = (if s = ''..'' then ParentDir else Normal s)"

text \<open>\<open>PathBuf::from\<close> followed by \<open>components()\<close>: repeated separators and \<open>.\<close> vanish,
  except a leading \<open>.\<close> of a relative path.\<close>

definition path_of :: "string \<Rightarrow> path" where
  "path_of s =
     (let parts = split_slash [] s;
          body = map component_of (filter (\<lambda>x. x \<noteq> [] \<and> x \<noteq> ''.'') parts)
      in if starts_with s ''/'' then RootDir # body
         else if hd parts = ''.'' then CurDir # body else body)"

fun show_component :: "component \<Rightarrow> string" where
  "show_component RootDir = []"
| "show_component CurDir = ''.''"
| "show_component ParentDir = ''..''"
| "show_component (Normal s) = s"

fun show_path :: "path \<Rightarrow> string" where
  "show_path [] = []"
| "show_path [RootDir] = ''/''"
| "show_path [c] = show_component c"
| "show_path (c # cs) = show_component c @ ''/'' @ show_path cs"

lemma file_name_Some_iff: "file_name p = Some s \<longleftrightarrow> (\<exists>d. p = d @ [Normal s])"
  by (cases p rule: rev_cases) (auto simp: file_name_def split: component.splits)

lemma file_name_snoc [simp]: "file_name (d @ [Normal s]) = Some s"
  by (simp add: file_name_def)

lemma with_file_name_eq: "with_file_name (d @ [Normal s]) t = d @ [Normal t]"
  by (simp add: with_file_name_def file_name_def)

section \<open>The world\<close>

datatype node = File bytes u32 | Dir u32 | Symlink path | Special u32

type_synonym nodemap = "path \<Rightarrow> node option"

record world =
  nodes :: nodemap
  history :: "nodemap list"
  tick :: nat
  fault :: "nat \<Rightarrow> (io_kind \<times> string \<times> nat) option"
  entropy :: "nat \<Rightarrow> nat \<Rightarrow> u8"
  clock :: "nat \<Rightarrow> int"
  pid :: u32
  umask :: u32
  vfs :: "nat \<Rightarrow> path \<Rightarrow> u64 \<times> u64 \<times> u64"

definition enoent :: error where
  "enoent = IoError NotFound ''No such file or directory (os error 2)''"
definition eexist :: error where
  "eexist = IoError AlreadyExists ''File exists (os error 17)''"
definition eisdir :: error where
  "eisdir = IoError IsADirectory ''Is a directory (os error 21)''"
definition enotdir :: error where
  "enotdir = IoError NotADirectory ''Not a directory (os error 20)''"
definition eloop :: error where
  "eloop = IoError FilesystemLoop ''Too many levels of symbolic links (os error 40)''"
definition enxio :: error where
  "enxio = IoError OtherKind ''No such device or address (os error 6)''"

definition put_nodes :: "nodemap \<Rightarrow> world \<Rightarrow> world" where
  "put_nodes m w = w\<lparr>nodes := m, history := history w @ [m]\<rparr>"

definition put_node :: "path \<Rightarrow> node option \<Rightarrow> world \<Rightarrow> world" where
  "put_node p n w = put_nodes ((nodes w)(p := n)) w"

definition next_tick :: "world \<Rightarrow> world" where
  "next_tick w = w\<lparr>tick := Suc (tick w)\<rparr>"

text \<open>One system call: the environment's failure, or the call's own outcome.\<close>

definition fs_call :: "(world \<Rightarrow> 'a result \<times> world) \<Rightarrow> (world, 'a) io" where
  "fs_call f w =
     (case fault w (tick w) of
        Some (k, t, _) \<Rightarrow> (Inl (IoError k t), next_tick w)
      | None \<Rightarrow> f (next_tick w))"

text \<open>Following symbolic links, at most 40 of them as Linux does.\<close>

fun follow_n :: "nat \<Rightarrow> nodemap \<Rightarrow> path \<Rightarrow> path option" where
  "follow_n 0 m p = (case m p of Some (Symlink q) \<Rightarrow> None | _ \<Rightarrow> Some p)"
| "follow_n (Suc n) m p = (case m p of Some (Symlink q) \<Rightarrow> follow_n n m q | _ \<Rightarrow> Some p)"

definition follow :: "nodemap \<Rightarrow> path \<Rightarrow> path option" where
  "follow m p = follow_n 40 m p"

definition is_dir :: "nodemap \<Rightarrow> path \<Rightarrow> bool" where
  "is_dir m p \<longleftrightarrow> p = [RootDir] \<or> p = [CurDir] \<or> (p \<noteq> [] \<and> last p = ParentDir)
     \<or> (case follow m p of None \<Rightarrow> False
        | Some q \<Rightarrow> (case m q of Some (Dir _) \<Rightarrow> True | _ \<Rightarrow> False))"

definition parent_is_dir :: "nodemap \<Rightarrow> path \<Rightarrow> bool" where
  "parent_is_dir m p =
     (case parent_path p of None \<Rightarrow> False | Some d \<Rightarrow> d = [] \<or> is_dir m d)"

section \<open>File operations\<close>

text \<open>\<open>std::fs::read\<close>.\<close>

definition read_bytes :: "path \<Rightarrow> (world, bytes) io" where
  "read_bytes p = fs_call (\<lambda>w.
     (case follow (nodes w) p of
        None \<Rightarrow> Inl eloop
      | Some q \<Rightarrow>
          (case nodes w q of
             None \<Rightarrow> Inl enoent
           | Some (File c _) \<Rightarrow> Inr c
           | Some (Dir _) \<Rightarrow> Inl eisdir
           | Some (Special _) \<Rightarrow> Inl enxio
           | Some (Symlink _) \<Rightarrow> Inl eloop), w))"

text \<open>\<open>std::fs::read_to_string\<close>.\<close>

definition read_to_string :: "path \<Rightarrow> (world, string) io" where
  "read_to_string p = io_bind (read_bytes p) (\<lambda>b.
     io_lift (case from_utf8 b of
        None \<Rightarrow> Inl (IoError InvalidData ''stream did not contain valid UTF-8'')
      | Some s \<Rightarrow> Inr s))"

text \<open>\<open>File::open\<close> for reading: the handle is the node that was opened.\<close>

definition open_read :: "path \<Rightarrow> (world, node) io" where
  "open_read p = fs_call (\<lambda>w.
     (case follow (nodes w) p of
        None \<Rightarrow> Inl eloop
      | Some q \<Rightarrow>
          (case nodes w q of
             None \<Rightarrow> Inl enoent
           | Some (Special m) \<Rightarrow> Inl enxio
           | Some n \<Rightarrow> Inr n), w))"

text \<open>\<open>std::fs::metadata\<close>, which follows a symbolic link.\<close>

definition metadata :: "path \<Rightarrow> (world, node) io" where
  "metadata p = fs_call (\<lambda>w.
     (case follow (nodes w) p of
        None \<Rightarrow> Inl eloop
      | Some q \<Rightarrow> (case nodes w q of None \<Rightarrow> Inl enoent | Some n \<Rightarrow> Inr n), w))"

text \<open>A call on an open handle that changes no node (\<open>metadata\<close>, \<open>read\<close>, \<open>flush\<close>,
  \<open>sync_all\<close>) and returns \<open>x\<close> unless the environment makes it fail.\<close>

definition handle_call :: "'a \<Rightarrow> (world, 'a) io" where
  "handle_call x = fs_call (\<lambda>w. (Inr x, w))"

text \<open>\<open>OpenOptions::new().write(true).create_new(true).mode(m).open(p)\<close>.\<close>

definition create_new :: "path \<Rightarrow> u32 \<Rightarrow> (world, unit) io" where
  "create_new p m = fs_call (\<lambda>w.
     if nodes w p \<noteq> None then (Inl eexist, w)
     else if \<not> parent_is_dir (nodes w) p then (Inl enoent, w)
     else (Inr (), put_node p (Some (File [] (and m (not (umask w))))) w))"

text \<open>\<open>write_all\<close> on the handle of the file at \<open>p\<close>; a failing write may leave a prefix.\<close>

definition write_all :: "path \<Rightarrow> bytes \<Rightarrow> (world, unit) io" where
  "write_all p b w =
     (case nodes w p of
        Some (File c m) \<Rightarrow>
          (case fault w (tick w) of
             None \<Rightarrow> (Inr (), put_node p (Some (File (c @ b) m)) (next_tick w))
           | Some (k, t, n) \<Rightarrow>
               (Inl (IoError k t), put_node p (Some (File (c @ take n b) m)) (next_tick w)))
      | _ \<Rightarrow> (Inl enoent, next_tick w))"

text \<open>The truncating open of \<open>std::fs::write\<close>; it follows a symbolic link.\<close>

definition open_truncate :: "path \<Rightarrow> (world, path) io" where
  "open_truncate p = fs_call (\<lambda>w.
     (case follow (nodes w) p of
        None \<Rightarrow> (Inl eloop, w)
      | Some q \<Rightarrow>
          (case nodes w q of
             None \<Rightarrow>
               (if parent_is_dir (nodes w) q
                then (Inr q, put_node q (Some (File [] (and 438 (not (umask w))))) w)
                else (Inl enoent, w))
           | Some (File _ m) \<Rightarrow> (Inr q, put_node q (Some (File [] m)) w)
           | Some (Dir _) \<Rightarrow> (Inl eisdir, w)
           | Some _ \<Rightarrow> (Inl enxio, w))))"

definition fs_write :: "path \<Rightarrow> bytes \<Rightarrow> (world, unit) io" where
  "fs_write p b = io_bind (open_truncate p) (\<lambda>q. write_all q b)"

fun with_mode :: "node \<Rightarrow> u32 \<Rightarrow> node" where
  "with_mode (File c _) m = File c m"
| "with_mode (Dir _) m = Dir m"
| "with_mode (Special _) m = Special m"
| "with_mode (Symlink q) m = Symlink q"

text \<open>\<open>chmod\<close> keeps the twelve permission bits.\<close>

definition set_permissions :: "path \<Rightarrow> u32 \<Rightarrow> (world, unit) io" where
  "set_permissions p m = fs_call (\<lambda>w.
     (case follow (nodes w) p of
        None \<Rightarrow> (Inl eloop, w)
      | Some q \<Rightarrow>
          (case nodes w q of
             None \<Rightarrow> (Inl enoent, w)
           | Some n \<Rightarrow> (Inr (), put_node q (Some (with_mode n (and m 4095))) w))))"

definition remove_file :: "path \<Rightarrow> (world, unit) io" where
  "remove_file p = fs_call (\<lambda>w.
     (case nodes w p of
        None \<Rightarrow> (Inl enoent, w)
      | Some (Dir _) \<Rightarrow> (Inl eisdir, w)
      | Some _ \<Rightarrow> (Inr (), put_node p None w)))"

text \<open>\<open>std::fs::remove_dir_all\<close> as one call: the tree below a directory, or a symbolic link itself.\<close>

definition remove_dir_all :: "path \<Rightarrow> (world, unit) io" where
  "remove_dir_all p = fs_call (\<lambda>w.
     (case nodes w p of
        None \<Rightarrow> (Inl enoent, w)
      | Some (Dir _) \<Rightarrow> (Inr (), put_nodes (\<lambda>q. if take (length p) q = p then None else nodes w q) w)
      | Some (Symlink _) \<Rightarrow> (Inr (), put_node p None w)
      | Some _ \<Rightarrow> (Inl enotdir, w)))"

text \<open>\<open>std::fs::rename\<close> of a non-directory: one atomic step that replaces whatever
  non-directory was at the destination, a symbolic link included.\<close>

definition rename :: "path \<Rightarrow> path \<Rightarrow> (world, unit) io" where
  "rename p q = fs_call (\<lambda>w.
     (case nodes w p of
        None \<Rightarrow> (Inl enoent, w)
      | Some n \<Rightarrow>
          (case nodes w q of
             Some (Dir _) \<Rightarrow> (Inl eisdir, w)
           | _ \<Rightarrow>
               (if \<not> parent_is_dir (nodes w) q then (Inl enoent, w)
                else (Inr (), put_nodes ((nodes w)(p := None, q := Some n)) w)))))"

text \<open>\<open>create_dir_all\<close>: every missing ancestor, outermost first.\<close>

definition make_dir :: "path \<Rightarrow> (world, unit) io" where
  "make_dir p = fs_call (\<lambda>w.
     if is_dir (nodes w) p then (Inr (), w)
     else if nodes w p = None
       then (Inr (), put_node p (Some (Dir (and 511 (not (umask w))))) w)
     else (Inl eexist, w))"

fun make_dirs :: "path list \<Rightarrow> (world, unit) io" where
  "make_dirs [] = io_ok ()"
| "make_dirs (p # ps) = io_bind (make_dir p) (\<lambda>_. make_dirs ps)"

definition ancestors :: "path \<Rightarrow> path list" where
  "ancestors p = map (\<lambda>n. take (Suc n) p) [0..<length p]"

definition create_dir_all :: "path \<Rightarrow> (world, unit) io" where
  "create_dir_all p = make_dirs (ancestors p)"

text \<open>\<open>Path::exists\<close>: an error counts as absence.\<close>

definition path_exists :: "path \<Rightarrow> (world, bool) io" where
  "path_exists p w =
     (case fault w (tick w) of
        Some _ \<Rightarrow> (Inr False, next_tick w)
      | None \<Rightarrow>
          (Inr (is_dir (nodes w) p \<or> (case follow (nodes w) p of None \<Rightarrow> False | Some q \<Rightarrow> nodes w q \<noteq> None)),
           next_tick w))"

section \<open>Randomness and time\<close>

definition getrandom :: "nat \<Rightarrow> (world, bytes) io" where
  "getrandom n w =
     (case fault w (tick w) of
        Some (k, t, _) \<Rightarrow> (Inl (Msg (fmt [''getrandom: '', t])), next_tick w)
      | None \<Rightarrow> (Inr (map (entropy w (tick w)) [0..<n]), next_tick w))"

text \<open>\<open>SystemTime::now().duration_since(UNIX_EPOCH)\<close> in seconds; a clock before 1970 gives 0.\<close>

definition now_unix :: "(world, u64) io" where
  "now_unix w = (Inr (if clock w (tick w) < 0 then 0 else word_of_int (clock w (tick w))), next_tick w)"

section \<open>What an operation may change\<close>

text \<open>
  \<open>touches S w w'\<close>: getting from \<open>w\<close> to \<open>w'\<close> changed no path outside \<open>S\<close>, at no
  moment in between either, and left the environment as it was.
\<close>

definition same_env :: "world \<Rightarrow> world \<Rightarrow> bool" where
  "same_env w w' \<longleftrightarrow> fault w' = fault w \<and> entropy w' = entropy w \<and> clock w' = clock w
     \<and> pid w' = pid w \<and> umask w' = umask w \<and> vfs w' = vfs w"

definition touches :: "path set \<Rightarrow> world \<Rightarrow> world \<Rightarrow> bool" where
  "touches S w w' \<longleftrightarrow> same_env w w' \<and> (\<forall>p. p \<notin> S \<longrightarrow> nodes w' p = nodes w p)
     \<and> (\<exists>h. history w' = history w @ h \<and> (\<forall>m \<in> set h. \<forall>p. p \<notin> S \<longrightarrow> m p = nodes w p))"

lemma touches_refl [simp, intro]: "touches S w w"
  by (simp add: touches_def same_env_def)

lemma reflp_touches [simp, intro]: "reflp (touches S)"
  by (simp add: reflp_def)

lemma touches_trans:
  assumes "touches S u v" and "touches S v w"
  shows "touches S u w"
proof -
  from assms obtain h k where
    h: "history v = history u @ h" "\<forall>m \<in> set h. \<forall>p. p \<notin> S \<longrightarrow> m p = nodes u p" and
    k: "history w = history v @ k" "\<forall>m \<in> set k. \<forall>p. p \<notin> S \<longrightarrow> m p = nodes v p"
    unfolding touches_def by blast
  have "history w = history u @ (h @ k)" using h(1) k(1) by simp
  moreover have "\<forall>m \<in> set (h @ k). \<forall>p. p \<notin> S \<longrightarrow> m p = nodes u p"
    using assms(1) h(2) k(2) by (auto simp: touches_def)
  moreover have "same_env u w"
    using assms by (simp add: touches_def same_env_def)
  moreover have "\<forall>p. p \<notin> S \<longrightarrow> nodes w p = nodes u p"
    using assms by (simp add: touches_def)
  ultimately show ?thesis unfolding touches_def by blast
qed

lemma transp_touches [simp, intro]: "transp (touches S)"
  by (rule transpI) (rule touches_trans)

lemma touches_mono: "touches S w w' \<Longrightarrow> S \<subseteq> T \<Longrightarrow> touches T w w'"
  unfolding touches_def by blast

lemma touches_nodes: "touches S w w' \<Longrightarrow> p \<notin> S \<Longrightarrow> nodes w' p = nodes w p"
  by (simp add: touches_def)

lemma touches_env:
  assumes "touches S w w'"
  shows "fault w' = fault w" "entropy w' = entropy w" "clock w' = clock w"
    "pid w' = pid w" "umask w' = umask w" "vfs w' = vfs w"
  using assms by (simp_all add: touches_def same_env_def)

lemma touches_next_tick [simp, intro]: "touches S w (next_tick w)"
  by (simp add: touches_def same_env_def next_tick_def)

lemma touches_put_nodes:
  assumes "\<And>p. p \<notin> S \<Longrightarrow> m p = nodes w p"
  shows "touches S w (put_nodes m w)"
  using assms by (auto simp: touches_def same_env_def put_nodes_def)

lemma touches_put_node: "p \<in> S \<Longrightarrow> touches S w (put_node p n w)"
  unfolding put_node_def by (rule touches_put_nodes) auto

lemma nodes_put_node [simp]: "nodes (put_node p n w) = (nodes w)(p := n)"
  by (simp add: put_node_def put_nodes_def)

lemma nodes_put_nodes [simp]: "nodes (put_nodes m w) = m"
  by (simp add: put_nodes_def)

lemma nodes_next_tick [simp]: "nodes (next_tick w) = nodes w"
  by (simp add: next_tick_def)

lemma history_put [simp]:
  "history (put_node p n w) = history w @ [(nodes w)(p := n)]"
  "history (put_nodes m w) = history w @ [m]"
  "history (next_tick w) = history w"
  by (simp_all add: put_node_def put_nodes_def next_tick_def)

lemma env_put [simp]:
  "fault (put_node p n w) = fault w" "fault (next_tick w) = fault w" "fault (put_nodes m w) = fault w"
  "umask (put_node p n w) = umask w" "umask (next_tick w) = umask w" "umask (put_nodes m w) = umask w"
  "pid (put_node p n w) = pid w" "pid (next_tick w) = pid w" "pid (put_nodes m w) = pid w"
  "clock (put_node p n w) = clock w" "clock (next_tick w) = clock w" "clock (put_nodes m w) = clock w"
  "entropy (put_node p n w) = entropy w" "entropy (next_tick w) = entropy w"
  "entropy (put_nodes m w) = entropy w"
  "vfs (put_node p n w) = vfs w" "vfs (next_tick w) = vfs w" "vfs (put_nodes m w) = vfs w"
  "tick (put_node p n w) = tick w" "tick (next_tick w) = Suc (tick w)" "tick (put_nodes m w) = tick w"
  by (simp_all add: put_node_def put_nodes_def next_tick_def)

text \<open>The body of a call that touches \<open>S\<close> makes a call that touches \<open>S\<close>.\<close>

lemma fs_call_cases:
  assumes "fs_call f w = (r, w')"
  obtains (faulted) k t n where "fault w (tick w) = Some (k, t, n)" "r = Inl (IoError k t)"
      "w' = next_tick w"
    | (served) "fault w (tick w) = None" "f (next_tick w) = (r, w')"
  using assms by (auto simp: fs_call_def split: option.splits)

lemma fs_call_touches:
  assumes "\<And>v r v'. f v = (r, v') \<Longrightarrow> touches S v v'"
  shows "io_respects (touches S) (fs_call f)"
proof (rule io_respectsI)
  fix w r w' assume "fs_call f w = (r, w')"
  then show "touches S w w'"
    by (cases rule: fs_call_cases) (use assms touches_trans touches_next_tick in blast)+
qed

lemma handle_call_touches [frame_rules]: "io_respects (touches S) (handle_call x)"
  unfolding handle_call_def by (rule fs_call_touches) auto

lemma read_bytes_touches [frame_rules]: "io_respects (touches S) (read_bytes p)"
  unfolding read_bytes_def by (rule fs_call_touches) auto

lemma open_read_touches [frame_rules]: "io_respects (touches S) (open_read p)"
  unfolding open_read_def by (rule fs_call_touches) auto

lemma metadata_touches [frame_rules]: "io_respects (touches S) (metadata p)"
  unfolding metadata_def by (rule fs_call_touches) auto

lemma read_to_string_touches [frame_rules]: "io_respects (touches S) (read_to_string p)"
  unfolding read_to_string_def
  by (intro io_respects_bind read_bytes_touches io_respects_lift transp_touches reflp_touches)

lemma create_new_touches [frame_rules]: "p \<in> S \<Longrightarrow> io_respects (touches S) (create_new p m)"
  unfolding create_new_def by (rule fs_call_touches) (auto split: if_splits intro: touches_put_node)

lemma write_all_touches [frame_rules]: "p \<in> S \<Longrightarrow> io_respects (touches S) (write_all p b)"
  by (rule io_respectsI)
    (auto simp: write_all_def split: option.splits node.splits
      intro: touches_trans [OF touches_next_tick touches_put_node])

lemma remove_file_touches [frame_rules]: "p \<in> S \<Longrightarrow> io_respects (touches S) (remove_file p)"
  unfolding remove_file_def
  by (rule fs_call_touches) (auto split: option.splits node.splits intro: touches_put_node)

lemma rename_touches [frame_rules]:
  "p \<in> S \<Longrightarrow> q \<in> S \<Longrightarrow> io_respects (touches S) (rename p q)"
  unfolding rename_def
  by (rule fs_call_touches)
    (auto split: option.splits node.splits if_splits intro!: touches_put_nodes)

lemma getrandom_touches [frame_rules]: "io_respects (touches S) (getrandom n)"
  by (rule io_respectsI) (auto simp: getrandom_def split: option.splits)

lemma path_exists_touches [frame_rules]: "io_respects (touches S) (path_exists p)"
  by (rule io_respectsI) (auto simp: path_exists_def split: option.splits)

lemma now_unix_touches [frame_rules]: "io_respects (touches S) now_unix"
  by (rule io_respectsI) (auto simp: now_unix_def)

text \<open>A path that is no symbolic link is followed to itself.\<close>

lemma follow_self: "(\<And>q. m p \<noteq> Some (Symlink q)) \<Longrightarrow> follow m p = Some p"
  unfolding follow_def by (cases "m p" rule: option.exhaust; simp split: node.splits add: numeral_eq_Suc)

lemma make_dir_touches [frame_rules]: "p \<in> S \<Longrightarrow> io_respects (touches S) (make_dir p)"
  unfolding make_dir_def by (rule fs_call_touches) (auto split: if_splits intro: touches_put_node)

lemma set_permissions_touches_any [frame_rules]: "io_respects (touches UNIV) (set_permissions p m)"
  unfolding set_permissions_def
  by (rule fs_call_touches) (auto split: option.splits intro: touches_put_node)

lemma open_truncate_touches_any [frame_rules]: "io_respects (touches UNIV) (open_truncate p)"
  unfolding open_truncate_def
  by (rule fs_call_touches) (auto split: option.splits node.splits if_splits intro: touches_put_node)

lemma fs_write_touches_any [frame_rules]: "io_respects (touches UNIV) (fs_write p b)"
  unfolding fs_write_def
  by (intro io_respects_bind transp_touches open_truncate_touches_any write_all_touches UNIV_I)

lemma make_dirs_touches [frame_rules]: "set ps \<subseteq> S \<Longrightarrow> io_respects (touches S) (make_dirs ps)"
  by (induction ps) (auto intro!: io_respects_bind make_dir_touches)

lemma create_dir_all_touches [frame_rules]:
  "set (ancestors p) \<subseteq> S \<Longrightarrow> io_respects (touches S) (create_dir_all p)"
  unfolding create_dir_all_def by (rule make_dirs_touches)

section \<open>Calls that succeed\<close>

text \<open>A world in which the environment makes no call fail.\<close>

definition calm :: "world \<Rightarrow> bool" where
  "calm w \<longleftrightarrow> (\<forall>n. fault w n = None)"

lemma calm_put [simp]:
  "calm (put_node p n w) = calm w" "calm (next_tick w) = calm w" "calm (put_nodes m w) = calm w"
  by (simp_all add: calm_def)

lemma calm_fault [simp]: "calm w \<Longrightarrow> fault w n = None"
  by (simp add: calm_def)

lemma touches_calm: "touches S w w' \<Longrightarrow> calm w' = calm w"
  by (simp add: calm_def touches_env)

lemma fs_call_calm: "calm w \<Longrightarrow> fs_call f w = f (next_tick w)"
  by (simp add: fs_call_def)

lemma handle_call_calm: "calm w \<Longrightarrow> handle_call x w = (Inr x, next_tick w)"
  by (simp add: handle_call_def fs_call_calm)

lemma handle_call_Inr: "handle_call x w = (Inr y, w') \<Longrightarrow> y = x \<and> w' = next_tick w"
  by (auto simp: handle_call_def fs_call_def split: option.splits)

lemma handle_call_world: "handle_call x w = (y, w') \<Longrightarrow> w' = next_tick w"
  by (auto simp: handle_call_def fs_call_def split: option.splits)

lemma open_read_Inr:
  assumes "open_read p w = (Inr n, w')"
  obtains q where "follow (nodes w) p = Some q" "nodes w q = Some n" "w' = next_tick w"
  using assms
  by (auto simp: open_read_def fs_call_def split: option.splits node.splits prod.splits)

lemma create_new_Inr:
  assumes "create_new p m w = (Inr (), w')"
  shows "nodes w p = None" and "nodes w' = (nodes w)(p := Some (File [] (and m (not (umask w)))))"
    and "history w' = history w @ [nodes w']"
  using assms by (auto simp: create_new_def fs_call_def split: option.splits if_splits)

lemma create_new_Inl: "create_new p m w = (Inl e, w') \<Longrightarrow> w' = next_tick w"
  by (auto simp: create_new_def fs_call_def split: option.splits if_splits)

lemma write_all_Inr:
  assumes "write_all p b w = (Inr (), w')"
  obtains c m where "nodes w p = Some (File c m)" "nodes w' = (nodes w)(p := Some (File (c @ b) m))"
    "history w' = history w @ [nodes w']"
  using assms by (auto simp: write_all_def split: option.splits node.splits)

lemma write_all_file:
  assumes "nodes w p = Some (File c m)" and "write_all p b w = (x, w')"
  shows "\<exists>d. nodes w' p = Some (File d m)"
  using assms by (auto simp: write_all_def split: option.splits)

lemma set_permissions_Inr:
  assumes "set_permissions p m w = (Inr (), w')" and "nodes w p = Some (File c k)"
  shows "nodes w' = (nodes w)(p := Some (File c (and m 4095)))"
    and "history w' = history w @ [nodes w']"
  using assms follow_self [of "nodes w" p]
  by (auto simp: set_permissions_def fs_call_def split: option.splits)

lemma set_permissions_file:
  assumes "nodes w p = Some (File c k)" and "set_permissions p m w = (x, w')"
  shows "\<exists>k'. nodes w' p = Some (File c k')" and "touches {p} w w'"
  using assms follow_self [of "nodes w" p]
  by (auto simp: set_permissions_def fs_call_def split: option.splits
      intro: touches_trans [OF touches_next_tick touches_put_node])

lemma rename_Inr:
  assumes "rename p q w = (Inr (), w')"
  obtains n where "nodes w p = Some n" "nodes w' = (nodes w)(p := None, q := Some n)"
    "history w' = history w @ [nodes w']"
  using assms by (auto simp: rename_def fs_call_def split: option.splits node.splits if_splits)

lemma rename_Inl: "rename p q w = (Inl e, w') \<Longrightarrow> w' = next_tick w"
  by (auto simp: rename_def fs_call_def split: option.splits node.splits if_splits)

lemma remove_file_result:
  assumes "remove_file p w = (x, w')" and "nodes w p = Some (File c m)"
  shows "(nodes w' = (nodes w)(p := None) \<and> fault w (tick w) = None)
       \<or> (nodes w' = nodes w \<and> fault w (tick w) \<noteq> None)"
    and "tick w' = Suc (tick w)"
  using assms by (auto simp: remove_file_def fs_call_def split: option.splits)

lemma getrandom_Inr: "getrandom n w = (Inr b, w') \<Longrightarrow> length b = n \<and> w' = next_tick w"
  by (auto simp: getrandom_def split: option.splits)

lemma getrandom_world: "getrandom n w = (x, w') \<Longrightarrow> w' = next_tick w"
  by (auto simp: getrandom_def split: option.splits)

lemma with_mode_Symlink: "with_mode n m = Symlink z \<longleftrightarrow> n = Symlink z"
  by (cases n) auto

lemma set_permissions_touches:
  assumes "set_permissions p m w = (x, w')" and "\<And>z. nodes w p \<noteq> Some (Symlink z)"
  shows "touches {p} w w'"
  using assms follow_self [of "nodes w" p]
  by (auto simp: set_permissions_def fs_call_def split: option.splits
      intro: touches_trans [OF touches_next_tick touches_put_node])

text \<open>Making directories fills free names with directories and changes nothing else.\<close>

lemma make_dirs_nodes:
  "make_dirs ps w = (x, w') \<Longrightarrow> nodes w' p = nodes w p \<or> (nodes w p = None \<and> (\<exists>k. nodes w' p = Some (Dir k)))"
proof (induction ps arbitrary: w)
  case (Cons q ps)
  obtain y w1 where 1: "make_dir q w = (y, w1)" by (metis prod.exhaust)
  then have "nodes w1 p = nodes w p \<or> (nodes w p = None \<and> (\<exists>k. nodes w1 p = Some (Dir k)))"
    by (auto simp: make_dir_def fs_call_def split: option.splits if_splits)
  with Cons 1 show ?case by (cases y) (fastforce simp: io_bind_def)+
qed simp

lemma create_dir_all_nodes:
  "create_dir_all d w = (x, w') \<Longrightarrow> nodes w' p = nodes w p \<or> (nodes w p = None \<and> (\<exists>k. nodes w' p = Some (Dir k)))"
  unfolding create_dir_all_def by (rule make_dirs_nodes)

lemma ancestors_length: "q \<in> set (ancestors p) \<Longrightarrow> length q \<le> length p"
  by (auto simp: ancestors_def)

section \<open>What could be observed in between\<close>

definition observed :: "world \<Rightarrow> world \<Rightarrow> nodemap set" where
  "observed w w' = set (drop (length (history w)) (history w'))"

lemma observed_refl [simp]: "observed w w = {}"
  by (simp add: observed_def)

lemma observed_eq: "history w' = history w @ h \<Longrightarrow> observed w w' = set h"
  by (simp add: observed_def)

lemma observed_trans:
  assumes "touches S u v" and "touches T v w"
  shows "observed u w = observed u v \<union> observed v w"
proof -
  from assms obtain h k where "history v = history u @ h" "history w = history v @ k"
    by (auto simp: touches_def)
  then show ?thesis by (auto simp: observed_def)
qed

lemma touches_observed: "touches S w w' \<Longrightarrow> m \<in> observed w w' \<Longrightarrow> p \<notin> S \<Longrightarrow> m p = nodes w p"
  by (auto simp: touches_def observed_def)

lemma open_truncate_Inr:
  assumes "open_truncate p w = (Inr q, w')" and "\<And>z. nodes w p \<noteq> Some (Symlink z)"
  shows "q = p" and "\<exists>k. nodes w' = (nodes w)(p := Some (File [] k))" and "touches {p} w w'"
  using assms follow_self [of "nodes w" p]
  by (auto simp: open_truncate_def fs_call_def split: option.splits node.splits if_splits
      intro: touches_trans [OF touches_next_tick touches_put_node])

lemma open_truncate_Inl: "open_truncate p w = (Inl e, w') \<Longrightarrow> w' = next_tick w"
  by (auto simp: open_truncate_def fs_call_def split: option.splits node.splits if_splits)

lemma fs_write_result:
  assumes "fs_write p b w = (x, w')" and "\<And>z. nodes w p \<noteq> Some (Symlink z)"
  shows "touches {p} w w'" and "x = Inr () \<Longrightarrow> \<exists>k. nodes w' p = Some (File b k)"
    and "nodes w' p \<noteq> Some (Symlink z)"
proof -
  have "touches {p} w w' \<and> (x = Inr () \<longrightarrow> (\<exists>k. nodes w' p = Some (File b k))) \<and> (\<forall>z. nodes w' p \<noteq> Some (Symlink z))"
    using assms(1) unfolding fs_write_def
  proof (cases rule: io_bind_cases)
    case (fails e)
    then show ?thesis using open_truncate_Inl [OF fails(1)] assms(2) by simp
  next
    case (continues q w1)
    note o = open_truncate_Inr [OF continues(1) assms(2)]
    then obtain k where k: "nodes w1 p = Some (File [] k)" by auto
    have "touches {p} w1 w'" using io_respectsD [OF write_all_touches continues(2)] o(1) by simp
    moreover have "x = Inr () \<longrightarrow> nodes w' p = Some (File b k)"
      using continues(2) k o(1) by (auto elim!: write_all_Inr)
    moreover have "\<exists>d. nodes w' p = Some (File d k)" using write_all_file [OF k] continues(2) o(1) by blast
    ultimately show ?thesis using o(3) by (auto intro: touches_trans)
  qed
  then show "touches {p} w w'" and "x = Inr () \<Longrightarrow> \<exists>k. nodes w' p = Some (File b k)"
    and "nodes w' p \<noteq> Some (Symlink z)" by auto
qed

section \<open>Directories that are there or can be made\<close>

lemma follow_n_upd:
  "m p = None \<Longrightarrow> follow_n n m q = Some z \<Longrightarrow> m z \<noteq> None \<Longrightarrow> follow_n n (m(p \<mapsto> x)) q = Some z"
proof (induction n arbitrary: q)
  case 0
  then show ?case by (cases "q = p") (auto split: option.splits node.splits)
next
  case (Suc n)
  then show ?case by (cases "q = p") (auto split: option.splits node.splits)
qed

lemma is_dir_upd:
  assumes "is_dir m q" and "m p = None"
  shows "is_dir (m(p \<mapsto> x)) q"
  using assms follow_n_upd [where m = m and p = p and n = 40 and q = q]
  by (auto simp: is_dir_def follow_def split: option.splits node.splits)

lemma is_dir_new: "is_dir (m(p \<mapsto> Dir k)) p"
  using follow_self [of "m(p \<mapsto> Dir k)" p] by (simp add: is_dir_def)

lemma make_dirs_calm:
  assumes "calm w" and "\<forall>p \<in> set ps. is_dir (nodes w) p \<or> nodes w p = None"
  shows "\<exists>w'. make_dirs ps w = (Inr (), w') \<and> calm w' \<and> (\<forall>p \<in> set ps. is_dir (nodes w') p)
    \<and> (\<forall>q. is_dir (nodes w) q \<longrightarrow> is_dir (nodes w') q)"
  using assms
proof (induction ps arbitrary: w)
  case (Cons p ps)
  obtain w1 where 1: "make_dir p w = (Inr (), w1)" "calm w1" "is_dir (nodes w1) p"
    and mono: "\<And>q. is_dir (nodes w) q \<Longrightarrow> is_dir (nodes w1) q"
    and keep: "\<And>q. nodes w q = None \<Longrightarrow> is_dir (nodes w1) q \<or> nodes w1 q = None"
    using Cons.prems is_dir_upd [of "nodes w" _ p] is_dir_new [of "nodes w" p]
    by (cases "is_dir (nodes w) p") (auto simp: make_dir_def fs_call_calm)
  have "\<forall>q \<in> set ps. is_dir (nodes w1) q \<or> nodes w1 q = None"
    using Cons.prems(2) mono keep by (metis list.set_intros(2))
  from Cons.IH [OF 1(2) this] obtain w' where
    "make_dirs ps w1 = (Inr (), w')" "calm w'" "\<forall>q \<in> set ps. is_dir (nodes w') q"
    "\<forall>q. is_dir (nodes w1) q \<longrightarrow> is_dir (nodes w') q" by blast
  with 1 mono show ?case by (simp add: io_bind_def)
qed simp

lemma ancestors_self: "p \<noteq> [] \<Longrightarrow> p \<in> set (ancestors p)"
  by (auto simp: ancestors_def image_iff intro!: bexI [of _ "length p - 1"])

lemma create_dir_all_calm:
  assumes "calm w" and "p \<noteq> []" and "\<forall>a \<in> set (ancestors p). is_dir (nodes w) a \<or> nodes w a = None"
  shows "\<exists>w'. create_dir_all p w = (Inr (), w') \<and> calm w' \<and> is_dir (nodes w') p"
  using make_dirs_calm [OF assms(1,3)] ancestors_self [OF assms(2)] by (auto simp: create_dir_all_def)

lemma parent_is_dir_upd: "parent_is_dir m q \<Longrightarrow> m p = None \<Longrightarrow> parent_is_dir (m(p \<mapsto> x)) q"
  by (auto simp: parent_is_dir_def is_dir_upd split: option.splits)

lemma parent_is_dir_sibling: "parent_is_dir m (d @ [Normal s]) = parent_is_dir m (d @ [Normal t])"
  by (simp add: parent_is_dir_def parent_path_def)

lemma follow_n_end: "follow_n n m p = Some q \<Longrightarrow> m q \<noteq> Some (Symlink z)"
  by (induction n arbitrary: p) (auto split: option.splits node.splits)

lemma follow_n_target:
  "follow_n n m p = Some q \<Longrightarrow> follow_n n (m(q := Some (File b k))) p = Some q"
proof (induction n arbitrary: p)
  case 0
  then show ?case by (auto split: option.splits node.splits)
next
  case (Suc n)
  show ?case
  proof (cases "p = q")
    case False
    with Suc show ?thesis by (auto split: option.splits node.splits)
  qed simp
qed

lemma fs_write_follow:
  assumes "fs_write p b w = (Inr (), w')"
  shows "\<exists>q k. follow (nodes w') p = Some q \<and> nodes w' q = Some (File b k)"
proof -
  from assms obtain q w1 where 1: "open_truncate p w = (Inr q, w1)" and 2: "write_all q b w1 = (Inr (), w')"
    by (auto simp: fs_write_def elim!: io_bind_InrE)
  from 1 obtain k where "follow (nodes w) p = Some q" "nodes w1 = (nodes w)(q := Some (File [] k))"
    by (auto simp: open_truncate_def fs_call_def split: option.splits node.splits if_splits)
  with 2 have "nodes w' = (nodes w)(q := Some (File b k))" "follow (nodes w) p = Some q"
    by (auto elim!: write_all_Inr split: if_splits)
  then show ?thesis using follow_n_target [of 40 "nodes w" p q b k] by (auto simp: follow_def)
qed

lemma fs_write_fresh:
  assumes "fault w (tick w) = None" and "fault w (Suc (tick w)) = None"
    and "nodes w p = None" and "parent_is_dir (nodes w) p"
  shows "\<exists>w'. fs_write p b w = (Inr (), w') \<and> nodes w' = (nodes w)(p \<mapsto> File b (and 438 (not (umask w))))
    \<and> tick w' = Suc (Suc (tick w)) \<and> fault w' = fault w"
  using assms follow_self [of "nodes w" p]
  by (simp add: fs_write_def open_truncate_def fs_call_def io_bind_def write_all_def)

lemma read_to_string_file:
  "fault w (tick w) = None \<Longrightarrow> nodes w p = Some (File b k) \<Longrightarrow> from_utf8 b = Some s \<Longrightarrow>
    read_to_string p w = (Inr s, next_tick w)"
  using follow_self [of "nodes w" p]
  by (simp add: read_to_string_def read_bytes_def fs_call_def io_bind_def)

lemma read_to_string_fault:
  "fault w (tick w) = Some (k, t, n) \<Longrightarrow> read_to_string p w = (Inl (IoError k t), next_tick w)"
  by (simp add: read_to_string_def read_bytes_def fs_call_def io_bind_def)

text \<open>A machine with nothing in its working directory, on which no call fails.\<close>

definition blank_world :: world where
  "blank_world = \<lparr>nodes = (\<lambda>_. None), history = [], tick = 0, fault = (\<lambda>_. None),
     entropy = (\<lambda>_ _. 0), clock = (\<lambda>_. 0), pid = 1, umask = 18, vfs = (\<lambda>_ _. (0, 0, 0))\<rparr>"

lemma blank_world_simps [simp]:
  "nodes blank_world = (\<lambda>_. None)" "calm blank_world" "umask blank_world = 18"
  "vfs blank_world = (\<lambda>_ _. (0, 0, 0))" "history blank_world = []" "tick blank_world = 0"
  "fault blank_world = (\<lambda>_. None)" "pid blank_world = 1" "clock blank_world = (\<lambda>_. 0)"
  by (simp_all add: blank_world_def calm_def)

text \<open>The environment in which exactly one system call fails, the one at tick \<open>k\<close>.\<close>

definition fail_at :: "nat \<Rightarrow> nat \<Rightarrow> (io_kind \<times> string \<times> nat) option" where
  "fail_at k n = (if n = k then Some (OtherKind, ''Input/output error (os error 5)'', 0) else None)"

end
