(* ===== verification/File_Transfer.thy ===== *)
theory File_Transfer
  imports Proto Fs
begin

text \<open>
  \<open>src/proto.rs\<close>, second part: hashing a file, sending it, and receiving one into a
  staging file that is verified before it is renamed over the destination.

  SHA-256 is not part of the source: the digest \<open>sha\<close> is an argument, and an incremental
  hasher is the list of bytes fed to it so far.
\<close>

section \<open>Sending a file\<close>

text \<open>A file's content as the successive reads into a buffer of \<open>k\<close> bytes deliver it.\<close>

function chunks_of :: "nat \<Rightarrow> bytes \<Rightarrow> bytes list" where
  "chunks_of k b = (if b = [] \<or> k = 0 then [] else take k b # chunks_of k (drop k b))"
  by pat_completeness auto
termination
  by (relation "measure (\<lambda>(k, b). length b)") auto

declare chunks_of.simps [simp del]

text \<open>\<open>meta.permissions().mode() & 0o7777\<close>; a regular file's \<open>st_mode\<close> also carries the
  file-type bit \<open>0o100000\<close>.\<close>

definition mode_of :: "u32 \<Rightarrow> u32" where
  "mode_of m = and (or 32768 m) 4095"

fun hash_loop :: "bytes list \<Rightarrow> bytes \<Rightarrow> u64 \<Rightarrow> (world, bytes \<times> u64) io" where
  "hash_loop [] h len = io_bind (handle_call ([] :: bytes)) (\<lambda>_. io_ok (h, len))"
| "hash_loop (c # cs) h len =
     io_bind (handle_call c) (\<lambda>b. hash_loop cs (h @ b) (len + word_of_nat (length b)))"

definition stat_and_hash :: "(bytes \<Rightarrow> bytes) \<Rightarrow> path \<Rightarrow> (world, u32 \<times> u64 \<times> bytes) io" where
  "stat_and_hash sha p =
     io_bind (io_context (fmt [''opening '', show_path p]) (open_read p)) (\<lambda>n.
     io_bind (handle_call n) (\<lambda>meta.
     case meta of
       File c m \<Rightarrow>
         io_bind (hash_loop (chunks_of CHUNK c) [] 0) (\<lambda>(h, len). io_ok (mode_of m, len, sha h))
     | _ \<Rightarrow> io_lift (Inl (Msg (fmt [show_path p, '' is not a regular file''])))))"

fun send_loop :: "bytes list \<Rightarrow> (sink \<times> world, unit) io" where
  "send_loop [] = io_bind (on_snd (handle_call ([] :: bytes))) (\<lambda>_. on_fst send_ctl)"
| "send_loop (c # cs) =
     io_bind (on_snd (handle_call c)) (\<lambda>b.
     io_bind (on_fst (send_all b)) (\<lambda>_. send_loop cs))"

text \<open>Reading from an opened directory fails with \<open>EISDIR\<close>.\<close>

definition send_file_body :: "path \<Rightarrow> (sink \<times> world, unit) io" where
  "send_file_body p =
     io_bind (on_snd (io_context (fmt [''opening '', show_path p]) (open_read p))) (\<lambda>n.
     case n of
       File c _ \<Rightarrow> send_loop (chunks_of CHUNK c)
     | _ \<Rightarrow> io_lift (Inl eisdir))"

section \<open>Hexadecimal and free space\<close>

definition hex :: "bytes \<Rightarrow> string" where
  "hex bs = concat (map hex_byte bs)"

definition saturating_mul :: "u64 \<Rightarrow> u64 \<Rightarrow> u64" where
  "saturating_mul a b = (if unat a * unat b < 2 ^ 64 then a * b else - 1)"

definition ensure_free_space :: "path \<Rightarrow> u64 \<Rightarrow> (world, unit) io" where
  "ensure_free_space dir len =
     io_bind (io_context (fmt [''statvfs '', show_path dir])
       (fs_call (\<lambda>w. (Inr (vfs w (tick w) dir), w)))) (\<lambda>(f_blocks, f_bfree, f_frsize).
     if f_blocks = 0 then io_ok ()
     else
       (let free = saturating_mul f_bfree f_frsize in
        io_lift (ensure (len \<le> free)
          (fmt [''peer declared '', dec (unat len), '' bytes but the filesystem holding '',
                show_path dir, '' has '', dec (unat free), '' free'']))))"

definition set_mode :: "path \<Rightarrow> u32 \<Rightarrow> (world, unit) io" where
  "set_mode p m = io_context (fmt [''setting mode on '', show_path p]) (set_permissions p m)"

text \<open>\<open>iroh\<close>'s key parser is an argument.\<close>

definition parse_pubkey :: "(string \<Rightarrow> string + 'k) \<Rightarrow> string \<Rightarrow> 'k result" where
  "parse_pubkey parse s =
     (case parse s of
        Inr k \<Rightarrow> Inr k
      | Inl e \<Rightarrow> Inl (Msg (fmt [''not a valid public key ('', e, ''): '', s])))"

section \<open>Receiving a file\<close>

definition part_name :: "path \<Rightarrow> string \<Rightarrow> bytes \<Rightarrow> path" where
  "part_name dest base nonce = with_file_name dest (base @ ''.egdod-part.'' @ hex nonce)"

fun try_part :: "nat \<Rightarrow> path \<Rightarrow> string \<Rightarrow> (world, path) io" where
  "try_part 0 dest base =
     io_lift (Inl (Msg (fmt [''could not create a staging file next to '', show_path dest])))"
| "try_part (Suc n) dest base =
     io_bind (getrandom 8) (\<lambda>nonce.
     let tmp = part_name dest base nonce in
     io_catch (create_new tmp 384) (\<lambda>res.
       case res of
         Inr _ \<Rightarrow> io_ok tmp
       | Inl e \<Rightarrow>
           (if downcast_io e = Some AlreadyExists then try_part n dest base
            else io_lift (Inl (Context (fmt [''creating '', show_path tmp]) e)))))"

definition create_part_file :: "path \<Rightarrow> (world, path) io" where
  "create_part_file dest =
     (case file_name dest of
        None \<Rightarrow> io_lift (Inl (Msg ''checked by the caller''))
      | Some base \<Rightarrow> try_part 8 dest base)"

text \<open>
  A tokio file: \<open>write_all\<close> hands the bytes to a background write whose failure is stashed
  and only surfaces from the next \<open>write_all\<close> or from \<open>flush\<close>.
\<close>

type_synonym stash = "(io_kind \<times> string) option"

definition tokio_write :: "path \<Rightarrow> bytes \<Rightarrow> stash \<Rightarrow> world \<Rightarrow> unit result \<times> stash \<times> world" where
  "tokio_write p b st w =
     (case st of
        Some (k, t) \<Rightarrow> (Inl (IoError k t), None, w)
      | None \<Rightarrow>
          (case write_all p b w of
             (Inl (IoError k t), w') \<Rightarrow> (Inr (), Some (k, t), w')
           | (Inl e, w') \<Rightarrow> (Inl e, None, w')
           | (Inr _, w') \<Rightarrow> (Inr (), None, w')))"

definition tokio_flush :: "stash \<Rightarrow> (world, unit) io" where
  "tokio_flush st w =
     (case st of Some (k, t) \<Rightarrow> (Inl (IoError k t), w) | None \<Rightarrow> handle_call () w)"

text \<open>The receive loop: its \<open>outcome\<close>, the hasher, \<open>got\<close> and the file's stash.\<close>

function body_loop ::
  "path \<Rightarrow> u64 \<Rightarrow> bytes \<Rightarrow> u64 \<Rightarrow> stash \<Rightarrow> reader \<Rightarrow> world \<Rightarrow>
    (unit result \<times> bytes \<times> u64 \<times> stash) \<times> reader \<times> world" where
  "body_loop tmp len h got st r w =
     (case read_some CHUNK r of
        (Inl e, r') \<Rightarrow> ((Inl (Context ''reading file body'' e), h, got, st), r', w)
      | (Inr b, r') \<Rightarrow>
          (if b = [] then ((Inr (), h, got, st), r', w)
           else
             (let h' = h @ b; got' = got + word_of_nat (length b) in
              if len < got'
              then ((Inl (Msg (fmt [''peer sent more than the announced '', dec (unat len), '' bytes''])),
                     h', got', st), r', w)
              else
                (case tokio_write tmp b st w of
                   (Inl e, st', w') \<Rightarrow> ((Inl (Context ''writing file body'' e), h', got', st'), r', w')
                 | (Inr _, st', w') \<Rightarrow> body_loop tmp len h' got' st' r' w'))))"
  by pat_completeness auto
termination
  by (relation "measure (\<lambda>(tmp, len, h, got, st, r, w). length (arriving r))")
    (auto simp: CHUNK_def dest!: read_some_shrinks [OF sym])

declare body_loop.simps [simp del]

text \<open>\<open>f.flush()\<close> and then \<open>f.sync_all()\<close>.\<close>

definition flush_and_sync :: "stash \<Rightarrow> (world, unit) io" where
  "flush_and_sync st = io_bind (tokio_flush st) (\<lambda>_. handle_call ())"

definition body_verdict ::
  "(bytes \<Rightarrow> bytes) \<Rightarrow> u64 \<Rightarrow> bytes \<Rightarrow> unit result \<Rightarrow> unit result \<Rightarrow> bytes \<Rightarrow> u64 \<Rightarrow> unit result" where
  "body_verdict sha len sha256 outcome flushed h got =
     (case outcome of Inl e \<Rightarrow> Inl e | Inr _ \<Rightarrow>
      case flushed of Inl e \<Rightarrow> Inl e | Inr _ \<Rightarrow>
      if got \<noteq> len
      then Inl (Msg (fmt [''expected '', dec (unat len), '' bytes, got '', dec (unat got)]))
      else if sha h \<noteq> sha256 then Inl (Msg ''sha256 mismatch'')
      else Inr ())"

text \<open>The last steps, once the whole body is on disk and verified.\<close>

definition land :: "path \<Rightarrow> path \<Rightarrow> u32 \<Rightarrow> (world, unit) io" where
  "land tmp dest mode =
     io_catch
       (io_bind (set_mode tmp mode) (\<lambda>_.
        io_context (fmt [''renaming into '', show_path dest]) (rename tmp dest)))
       (\<lambda>landed.
          case landed of
            Inr _ \<Rightarrow> io_ok ()
          | Inl e \<Rightarrow> io_catch (remove_file tmp) (\<lambda>_. io_lift (Inl e)))"

definition body_dir :: "path \<Rightarrow> path" where
  "body_dir dest =
     (case parent_path dest of Some p \<Rightarrow> (if p = [] then [CurDir] else p) | None \<Rightarrow> [CurDir])"

definition recv_file_body ::
  "(bytes \<Rightarrow> bytes) \<Rightarrow> path \<Rightarrow> u64 \<Rightarrow> bytes \<Rightarrow> u32 \<Rightarrow> u64 \<Rightarrow> (reader \<times> world, unit) io" where
  "recv_file_body sha dest len sha256 mode lim =
     io_bind (io_lift (ensure (len \<le> lim)
       (fmt [''peer declared '', dec (unat len), '' bytes, over the '', dec (unat lim), ''-byte ceiling'']))) (\<lambda>_.
     io_bind (io_lift (ensure (file_name dest \<noteq> None) (fmt [show_path dest, '' is not a file path'']))) (\<lambda>_.
     let dir = body_dir dest in
     io_bind (on_snd (io_context (fmt [''creating '', show_path dir]) (create_dir_all dir))) (\<lambda>_.
     io_bind (on_snd (ensure_free_space dir len)) (\<lambda>_.
     io_bind (on_snd (create_part_file dest)) (\<lambda>tmp.
     (\<lambda>(r, w).
        case body_loop tmp len [] 0 None r w of
          ((outcome, h, got, st), r', w1) \<Rightarrow>
            (case flush_and_sync st w1 of
               (flushed, w2) \<Rightarrow>
                 (case body_verdict sha len sha256 outcome flushed h got of
                    Inl e \<Rightarrow> (case remove_file tmp w2 of (_, w3) \<Rightarrow> (Inl e, (r', w3)))
                  | Inr _ \<Rightarrow> (case land tmp dest mode w2 of (x, w3) \<Rightarrow> (x, (r', w3)))))))))))"

section \<open>Reading a file in chunks\<close>

lemma concat_chunks_of: "0 < k \<Longrightarrow> concat (chunks_of k b) = b"
proof (induction k b rule: chunks_of.induct)
  case (1 k b)
  show ?case
  proof (cases "b = []")
    case True
    then show ?thesis by (subst chunks_of.simps) simp
  next
    case False
    with "1" have "concat (chunks_of k (drop k b)) = drop k b" by simp
    with False "1.prems" show ?thesis by (subst chunks_of.simps) simp
  qed
qed

lemma concat_file_chunks [simp]: "concat (chunks_of CHUNK b) = b"
  by (simp add: concat_chunks_of CHUNK_def)

lemma mode_of_eq: "mode_of m = and m 4095"
  by (simp add: mode_of_def bit.conj_disj_distrib2)

lemma hash_loop_Inr:
  "hash_loop cs h len w = (Inr (h', len'), w') \<Longrightarrow>
     h' = h @ concat cs \<and> len' = len + word_of_nat (length (concat cs)) \<and> touches {} w w'"
proof (induction cs arbitrary: h len w)
  case Nil
  then show ?case by (auto elim!: io_bind_InrE dest!: handle_call_Inr)
next
  case (Cons c cs)
  then have "hash_loop cs (h @ c) (len + word_of_nat (length c)) (next_tick w) = (Inr (h', len'), w')"
    by (auto elim!: io_bind_InrE dest!: handle_call_Inr)
  from Cons.IH [OF this] show ?case
    using touches_trans [OF touches_next_tick] by (simp add: algebra_simps)
qed

lemma hash_loop_calm:
  "calm w \<Longrightarrow> \<exists>w'. hash_loop cs h len w = (Inr (h @ concat cs, len + word_of_nat (length (concat cs))), w') \<and> calm w' \<and> touches {} w w'"
proof (induction cs arbitrary: h len w)
  case Nil
  then show ?case by (auto simp: io_bind_def handle_call_calm)
next
  case (Cons c cs)
  from Cons.IH [of "next_tick w" "h @ c" "len + word_of_nat (length c)"] Cons.prems
  obtain w' where "hash_loop cs (h @ c) (len + word_of_nat (length c)) (next_tick w)
      = (Inr (h @ concat (c # cs), len + word_of_nat (length (concat (c # cs)))), w')"
    "calm w'" "touches {} (next_tick w) w'"
    by (auto simp: algebra_simps)
  with Cons.prems show ?case
    using touches_trans [OF touches_next_tick, of "{}" w w'] by (simp add: io_bind_def handle_call_calm)
qed

lemma stat_and_hash_Inr:
  assumes "stat_and_hash sha p w = (Inr (mode, len, digest), w')"
  obtains q c m where "follow (nodes w) p = Some q" "nodes w q = Some (File c m)"
    "mode = and m 4095" "len = word_of_nat (length c)" "digest = sha c" "touches {} w w'"
proof -
  from assms obtain q n w1 w2 where
    q: "follow (nodes w) p = Some q" "nodes w q = Some n" "w1 = next_tick w" "w2 = next_tick w1" and
    rest: "(case n of File c m \<Rightarrow>
         io_bind (hash_loop (chunks_of CHUNK c) [] 0) (\<lambda>(h, len). io_ok (mode_of m, len, sha h))
       | _ \<Rightarrow> io_lift (Inl (Msg (fmt [show_path p, '' is not a regular file''])))) w2
       = (Inr (mode, len, digest), w')"
    by (auto simp: stat_and_hash_def elim!: io_bind_InrE open_read_Inr dest!: handle_call_Inr)
  from rest obtain c m where n: "n = File c m" by (cases n) auto
  with rest obtain h where "hash_loop (chunks_of CHUNK c) [] 0 w2 = (Inr (h, len), w')"
      "mode = mode_of m" "digest = sha h"
    by (auto elim!: io_bind_InrE)
  with hash_loop_Inr [of "chunks_of CHUNK c" "[]" 0 w2 h len w'] q n show thesis
    using that touches_trans [OF touches_next_tick [of "{}" w] touches_trans [OF touches_next_tick]]
    by (simp add: mode_of_eq)
qed

lemma stat_and_hash_calm:
  assumes "calm w" and "follow (nodes w) p = Some q" and "nodes w q = Some (File c m)"
  shows "\<exists>w'. stat_and_hash sha p w = (Inr (and m 4095, word_of_nat (length c), sha c), w')
    \<and> calm w' \<and> touches {} w w'"
proof -
  have 1: "open_read p w = (Inr (File c m), next_tick w)"
    using assms by (simp add: open_read_def fs_call_calm)
  obtain w' where "hash_loop (chunks_of CHUNK c) [] 0 (next_tick (next_tick w))
      = (Inr (c, word_of_nat (length c)), w')" "calm w'" "touches {} (next_tick (next_tick w)) w'"
    using hash_loop_calm [of "next_tick (next_tick w)" "chunks_of CHUNK c" "[]" 0] assms(1) by auto
  with 1 assms(1) touches_trans [OF touches_next_tick [of "{}" w] touches_trans [OF touches_next_tick]]
  show ?thesis
    by (simp add: stat_and_hash_def io_bind_def io_context_def handle_call_calm mode_of_eq)
qed

text \<open>A missing path is told apart from every other failure.\<close>

lemma stat_and_hash_missing:
  assumes "calm w" and "follow (nodes w) p = Some q" and "nodes w q = None"
  shows "\<exists>e w'. stat_and_hash sha p w = (Inl e, w') \<and> downcast_io e = Some NotFound \<and> touches {} w w'"
  using assms
  by (simp add: stat_and_hash_def open_read_def fs_call_calm io_bind_def io_context_def enoent_def)

lemma send_loop_Inr:
  "send_loop cs (s, w) = (Inr (), (s', w')) \<Longrightarrow>
     sent s' = sent s @ concat cs \<and> sfault s' = sfault s \<and> touches {} w w'"
proof (induction cs arbitrary: s w)
  case Nil
  then show ?case
    by (auto simp: on_fst_iff on_snd_iff elim!: io_bind_InrE dest!: handle_call_Inr send_ctl_Inr)
next
  case (Cons c cs)
  then obtain s1 where "send_all c s = (Inr (), s1)" "send_loop cs (s1, next_tick w) = (Inr (), (s', w'))"
    by (auto simp: on_fst_iff on_snd_iff elim!: io_bind_InrE dest!: handle_call_Inr)
  with Cons.IH [of s1 "next_tick w"] show ?case
    by (auto dest!: send_all_Inr intro: touches_trans [OF touches_next_tick])
qed

lemma send_file_body_Inr:
  assumes "send_file_body p (s, w) = (Inr (), (s', w'))"
  obtains q c m where "follow (nodes w) p = Some q" "nodes w q = Some (File c m)"
    "sent s' = sent s @ c" "sfault s' = sfault s" "touches {} w w'"
proof -
  from assms obtain q n where q: "follow (nodes w) p = Some q" "nodes w q = Some n" and
    rest: "(case n of File c _ \<Rightarrow> send_loop (chunks_of CHUNK c) | _ \<Rightarrow> io_lift (Inl eisdir)) (s, next_tick w)
      = (Inr (), (s', w'))"
    by (auto simp: send_file_body_def on_snd_def elim!: io_bind_InrE open_read_Inr split: prod.splits)
  from rest obtain c m where "n = File c m" by (cases n) auto
  with rest q show thesis
    using that send_loop_Inr [of "chunks_of CHUNK c" s "next_tick w" s' w']
      touches_trans [OF touches_next_tick [of "{}" w]] by auto
qed

section \<open>The staging file\<close>

text \<open>Every name a staging file for \<open>dest\<close> can have.\<close>

definition part_names :: "path \<Rightarrow> path set" where
  "part_names dest = {part_name dest base nonce | base nonce. file_name dest = Some base \<and> length nonce = 8}"

lemma dest_notin_part_names: "dest \<notin> part_names dest"
  by (auto simp: part_names_def part_name_def file_name_Some_iff with_file_name_eq)

lemma part_names_length: "p \<in> part_names dest \<Longrightarrow> length p = length dest"
  by (auto simp: part_names_def part_name_def file_name_Some_iff with_file_name_eq)

lemma try_part_result:
  "try_part n dest base w = (x, w') \<Longrightarrow>
     (\<exists>nonce w0. x = Inr (part_name dest base nonce) \<and> length nonce = 8 \<and> touches {} w w0
        \<and> create_new (part_name dest base nonce) 384 w0 = (Inr (), w'))
     \<or> (\<exists>e. x = Inl e \<and> touches {} w w')"
proof (induction n arbitrary: w)
  case 0
  then show ?case by auto
next
  case (Suc n)
  from Suc.prems show ?case unfolding try_part.simps
  proof (cases rule: io_bind_cases)
    case (fails e)
    then show ?thesis by (auto dest: getrandom_world)
  next
    case (continues nonce w1)
    then have nonce: "length nonce = 8" and w1: "w1 = next_tick w"
      by (auto dest: getrandom_Inr)
    let ?tmp = "part_name dest base nonce"
    from continues(2) [unfolded Let_def] show ?thesis
    proof (cases rule: io_catch_cases)
      case (1 res w2)
      show ?thesis
      proof (cases res)
        case (Inr u)
        with 1 nonce w1 show ?thesis by auto
      next
        case (Inl e)
        with 1(1) have w2: "w2 = next_tick w1" by (auto dest: create_new_Inl)
        have t: "touches {} w w2" unfolding w1 w2 by (meson touches_next_tick touches_trans)
        show ?thesis
        proof (cases "downcast_io e = Some AlreadyExists")
          case True
          with 1(2) Inl have "try_part n dest base w2 = (x, w')" by simp
          from Suc.IH [OF this] touches_trans [OF t] show ?thesis by blast
        next
          case False
          with 1(2) Inl t show ?thesis by auto
        qed
      qed
    qed
  qed
qed

lemma create_part_file_Inr:
  assumes "create_part_file dest w = (Inr tmp, w')"
  shows "tmp \<in> part_names dest" and "nodes w tmp = None"
    and "nodes w' tmp = Some (File [] (and 384 (not (umask w))))" and "touches {tmp} w w'"
proof -
  from assms obtain base where base: "file_name dest = Some base" "try_part 8 dest base w = (Inr tmp, w')"
    by (auto simp: create_part_file_def split: option.splits)
  from try_part_result [OF base(2)] obtain nonce w0 where
    n: "tmp = part_name dest base nonce" "length nonce = 8" and t: "touches {} w w0" and
    c: "create_new tmp 384 w0 = (Inr (), w')"
    by auto
  show "tmp \<in> part_names dest" using base n by (auto simp: part_names_def)
  show "nodes w tmp = None" using create_new_Inr(1) [OF c] touches_nodes [OF t] by simp
  show "nodes w' tmp = Some (File [] (and 384 (not (umask w))))"
    using create_new_Inr(2) [OF c] touches_env(5) [OF t] by simp
  have "touches {tmp} w0 w'"
    using io_respectsD [OF create_new_touches c, of "{tmp}"] by simp
  with touches_mono [OF t] show "touches {tmp} w w'" by (meson empty_subsetI touches_trans)
qed

lemma create_part_file_Inl: "create_part_file dest w = (Inl e, w') \<Longrightarrow> touches {} w w'"
  using try_part_result by (fastforce simp: create_part_file_def split: option.splits)

section \<open>The receive loop\<close>

lemma tokio_write_cases:
  assumes "tokio_write p b st w = (x, st', w')" and "nodes w p = Some (File c m)"
  shows "touches {p} w w'" and "\<exists>d. nodes w' p = Some (File d m)"
    and "x = Inr () \<Longrightarrow> st' = None \<Longrightarrow> st = None \<and> nodes w' p = Some (File (c @ b) m)"
proof -
  show "touches {p} w w'"
    using assms(1) io_respectsD [OF write_all_touches [of p "{p}"]]
    by (force simp: tokio_write_def split: option.splits prod.splits sum.splits error.splits)
  show "\<exists>d. nodes w' p = Some (File d m)"
    using assms write_all_file [OF assms(2)]
    by (auto simp: tokio_write_def split: option.splits prod.splits sum.splits error.splits)
  show "x = Inr () \<Longrightarrow> st' = None \<Longrightarrow> st = None \<and> nodes w' p = Some (File (c @ b) m)"
    using assms
    by (auto simp: tokio_write_def split: option.splits prod.splits sum.splits error.splits
        elim!: write_all_Inr)
qed

lemma body_loop_cases:
  assumes "body_loop tmp len h got st r w = ((outcome, h', got', st'), r', w')"
  obtains (torn) e where "outcome = Inl e" "w' = w" "broken r \<noteq> None"
    | (overrun) e b r1 where "outcome = Inl e" "w' = w" "arriving r = b @ arriving r1"
        "length b \<le> CHUNK" "len < got + word_of_nat (length b)"
    | (eof) "outcome = Inr ()" "h' = h" "got' = got" "st' = st" "w' = w" "r' = r"
        "arriving r = []" "broken r = None"
    | (unwritten) b e e' where "outcome = Inl e" "tokio_write tmp b st w = (Inl e', st', w')"
    | (more) b r1 st1 w1 where "b \<noteq> []" "length b \<le> CHUNK" "arriving r = b @ arriving r1"
        "broken r1 = broken r" "\<not> len < got + word_of_nat (length b)"
        "tokio_write tmp b st w = (Inr (), st1, w1)"
        "body_loop tmp len (h @ b) (got + word_of_nat (length b)) st1 r1 w1
          = ((outcome, h', got', st'), r', w')"
proof -
  obtain x r1 where rd: "read_some CHUNK r = (x, r1)" by (cases "read_some CHUNK r")
  have pos: "0 < CHUNK" by (simp add: CHUNK_def)
  from rd pos show thesis
  proof (cases rule: read_some_cases)
    case (failure e t)
    with rd assms that(1) show ?thesis by (auto simp: body_loop.simps [of tmp len h got st r w])
  next
    case eof
    with rd assms that(3) show ?thesis by (auto simp: body_loop.simps [of tmp len h got st r w])
  next
    case (data b)
    obtain y st1 w1 where wr: "tokio_write tmp b st w = (y, st1, w1)"
      by (cases "tokio_write tmp b st w") auto
    show ?thesis
    proof (cases "len < got + word_of_nat (length b)")
      case True
      with rd data assms that(2) show ?thesis
        by (auto simp: body_loop.simps [of tmp len h got st r w] Let_def)
    next
      case False
      show ?thesis
      proof (cases y)
        case (Inl e)
        with rd data assms False wr that(4) show ?thesis
          by (auto simp: body_loop.simps [of tmp len h got st r w] Let_def)
      next
        case (Inr u)
        with rd data assms False wr that(5) show ?thesis
          by (auto simp: body_loop.simps [of tmp len h got st r w] Let_def)
      qed
    qed
  qed
qed

lemma body_loop_frame:
  assumes "body_loop tmp len h got st r w = ((outcome, h', got', st'), r', w')"
    and "nodes w tmp = Some (File c m)"
  shows "touches {tmp} w w' \<and> (\<exists>d. nodes w' tmp = Some (File d m))"
  using assms
proof (induction "length (arriving r)" arbitrary: h got st r w c rule: less_induct)
  case less
  from less.prems(1) show ?case
  proof (cases rule: body_loop_cases)
    case (unwritten b e e')
    then show ?thesis using tokio_write_cases(1,2) less.prems(2) by blast
  next
    case (more b r1 st1 w1)
    note t = tokio_write_cases [OF more(6) less.prems(2)]
    then obtain d where "nodes w1 tmp = Some (File d m)" by blast
    with less.hyps [of r1 "h @ b" "got + word_of_nat (length b)" st1 w1 d] more t(1)
    show ?thesis by (auto intro: touches_trans)
  qed (use less.prems in auto)
qed

lemma unat_got_step:
  assumes "unat (got :: u64) = length h" and "\<not> len < got + word_of_nat (length b)"
    and "got \<le> len" and "length b \<le> CHUNK" and "unat len + CHUNK < 18446744073709551616"
  shows "unat (got + word_of_nat (length b)) = length (h @ b)" and "got + word_of_nat (length b) \<le> len"
proof -
  have "unat got \<le> unat len" using assms(3) by (simp add: word_le_nat_alt)
  then show "unat (got + word_of_nat (length b)) = length (h @ b)"
    using assms by (subst unat_u64_add) auto
  show "got + word_of_nat (length b) \<le> len" using assms(2) by simp
qed

text \<open>A loop that ended without an error and without a stashed one has put on disk, and fed
  to the hasher, exactly what arrived.\<close>

lemma body_loop_complete:
  assumes "body_loop tmp len h got st r w = ((Inr (), h', got', None), r', w')"
    and "nodes w tmp = Some (File c m)" and "st = None \<Longrightarrow> c = h"
    and "unat got = length h" and "got \<le> len" and "unat len + CHUNK < 18446744073709551616"
  shows "st = None \<and> h' = h @ arriving r \<and> nodes w' tmp = Some (File h' m) \<and> unat got' = length h'
     \<and> arriving r' = [] \<and> broken r = None"
  using assms
proof (induction "length (arriving r)" arbitrary: h got st r w c rule: less_induct)
  case less
  from less.prems(1) show ?case
  proof (cases rule: body_loop_cases)
    case (more b r1 st1 w1)
    note t = tokio_write_cases [OF more(6) less.prems(2)]
    then obtain d where d: "nodes w1 tmp = Some (File d m)" by blast
    note step = unat_got_step [OF less.prems(4) more(5) less.prems(5) more(2) less.prems(6)]
    have "st1 = None \<Longrightarrow> d = h @ b"
      using t(3) d less.prems(3) by auto
    from less.hyps [OF _ more(7) d this step less.prems(6)] more(1,3,4)
    have "st1 = None \<and> h' = (h @ b) @ arriving r1 \<and> nodes w' tmp = Some (File h' m)
        \<and> unat got' = length h' \<and> arriving r' = [] \<and> broken r1 = None" by auto
    with t(3) more(3,4) show ?thesis by auto
  qed (use less.prems in auto)
qed

text \<open>In a calm world a stream that ends at or before the announced length is taken whole.\<close>

lemma body_loop_calm:
  assumes "calm w" and "nodes w tmp = Some (File h m)" and "broken r = None"
    and "unat got = length h" and "unat got + length (arriving r) \<le> unat len"
    and "unat len + CHUNK < 18446744073709551616"
  shows "\<exists>got' r' w'. body_loop tmp len h got None r w = ((Inr (), h @ arriving r, got', None), r', w')"
  using assms
proof (induction "length (arriving r)" arbitrary: h got r w rule: less_induct)
  case less
  obtain outcome h' got' st' r' w' where
    run: "body_loop tmp len h got None r w = ((outcome, h', got', st'), r', w')"
    by (metis prod.collapse)
  have fits: "unat (got + word_of_nat n) = unat got + n" if "n \<le> length (arriving r)" for n
    using that less.prems(5,6) by (subst unat_u64_add) auto
  from run show ?case
  proof (cases rule: body_loop_cases)
    case (overrun e b r1)
    then show ?thesis
      using fits [of "length b"] less.prems(5) by (simp add: word_less_nat_alt)
  next
    case (unwritten b e e')
    then show ?thesis
      using less.prems(1,2) by (simp add: tokio_write_def write_all_def)
  next
    case (more b r1 st1 w1)
    from more(6) less.prems(1,2) have st1: "st1 = None" and w1: "calm w1" "nodes w1 tmp = Some (File (h @ b) m)"
      by (auto simp: tokio_write_def write_all_def)
    from more(3) fits [of "length b"] less.prems(4,5)
    have "unat (got + word_of_nat (length b)) = length (h @ b)"
      and "unat (got + word_of_nat (length b)) + length (arriving r1) \<le> unat len" by auto
    from less.hyps [OF _ w1 _ this less.prems(6)] more(1,3,4) less.prems(3)
    have "\<exists>got' r' w'. body_loop tmp len (h @ b) (got + word_of_nat (length b)) None r1 w1
        = ((Inr (), (h @ b) @ arriving r1, got', None), r', w')" by auto
    with more(3,7) run st1 show ?thesis by auto
  qed (use run less.prems(3) in auto)
qed

section \<open>Landing\<close>

lemma cleanup:
  assumes "remove_file tmp w = (x, w')" and "nodes w tmp = Some (File c k)"
  shows "touches {tmp} w w'" and "nodes w' tmp = None \<or> fault w (tick w' - 1) \<noteq> None"
  using io_respectsD [OF remove_file_touches assms(1), of "{tmp}"] remove_file_result [OF assms] by auto

lemma set_mode_Inr: "set_mode p m w = (Inr (), w') \<longleftrightarrow> set_permissions p m w = (Inr (), w')"
  by (simp add: set_mode_def)

lemma set_mode_file:
  assumes "nodes w p = Some (File c k)" and "set_mode p m w = (x, w')"
  shows "\<exists>k'. nodes w' p = Some (File c k')" and "touches {p} w w'"
  using assms set_permissions_file [OF assms(1)]
  by (auto simp: set_mode_def elim!: io_context_cases)

lemma land_Inl:
  assumes "land tmp dest mode w = (Inl e, w')" and "nodes w tmp = Some (File c k)"
  shows "touches {tmp} w w'" and "nodes w' tmp = None \<or> fault w (tick w' - 1) \<noteq> None"
proof -
  from assms(1) obtain y w1 where
    m: "io_bind (set_mode tmp mode) (\<lambda>_. io_context (fmt [''renaming into '', show_path dest]) (rename tmp dest)) w
      = (Inl e, w1)" and rm: "remove_file tmp w1 = (y, w')"
    unfolding land_def by (auto elim!: io_catch_cases split: sum.splits)
  have w1: "touches {tmp} w w1 \<and> (\<exists>k. nodes w1 tmp = Some (File c k))"
    using m
  proof (cases rule: io_bind_cases)
    case (fails e')
    with set_mode_file [OF assms(2)] show ?thesis by auto
  next
    case (continues u w0)
    then have "w1 = next_tick w0" by (auto simp: with_context_Inl_iff elim!: io_context_cases dest: rename_Inl)
    with set_mode_file [OF assms(2) continues(1)] show ?thesis
      by (auto intro: touches_trans [OF _ touches_next_tick])
  qed
  then obtain k' where "nodes w1 tmp = Some (File c k')" by blast
  note c = cleanup [OF rm this]
  from w1 c show "touches {tmp} w w'" by (meson touches_trans)
  have "fault w1 = fault w" using w1 touches_env(1) by blast
  with c(2) show "nodes w' tmp = None \<or> fault w (tick w' - 1) \<noteq> None" by simp
qed

lemma land_Inr:
  assumes "land tmp dest mode w = (Inr (), w')" and "nodes w tmp = Some (File c k)" and "tmp \<noteq> dest"
  shows "nodes w' dest = Some (File c (and mode 4095))" and "nodes w' tmp = None"
    and "touches {tmp, dest} w w'"
    and "\<forall>m \<in> observed w w'. m dest = nodes w dest \<or> m dest = Some (File c (and mode 4095))"
proof -
  from assms(1) obtain w1 where
    1: "set_permissions tmp mode w = (Inr (), w1)" and 2: "rename tmp dest w1 = (Inr (), w')"
    unfolding land_def by (auto simp: set_mode_Inr elim!: io_catch_cases io_bind_InrE split: sum.splits)
  note n1 = set_permissions_Inr [OF 1 assms(2)]
  have t1: "touches {tmp} w w1" by (rule set_permissions_file(2) [OF assms(2) 1])
  from 2 have n2: "nodes w' = (nodes w1)(tmp := None, dest := Some (File c (and mode 4095)))"
    and h2: "history w' = history w1 @ [nodes w']"
    by (auto elim!: rename_Inr simp: n1(1))
  have t2: "touches {tmp, dest} w1 w'"
    using io_respectsD [OF rename_touches 2, of "{tmp, dest}"] by simp
  show "nodes w' dest = Some (File c (and mode 4095))" "nodes w' tmp = None"
    using n2 assms(3) by simp_all
  from touches_mono [OF t1] t2 show "touches {tmp, dest} w w'"
    by (meson touches_trans insert_mono empty_subsetI)
  show "\<forall>m \<in> observed w w'. m dest = nodes w dest \<or> m dest = Some (File c (and mode 4095))"
    using observed_trans [OF t1 t2] observed_eq [OF h2] touches_observed [OF t1] n2 assms(3) by auto
qed

section \<open>Receiving a file\<close>

abbreviation dir_names :: "path \<Rightarrow> path set" where
  "dir_names dest \<equiv> set (ancestors (body_dir dest))"

lemma dir_names_disjoint:
  assumes "file_name dest \<noteq> None"
  shows "dest \<notin> dir_names dest" and "p \<in> part_names dest \<Longrightarrow> p \<notin> dir_names dest"
proof -
  obtain d s where dest: "dest = d @ [Normal s]" using assms by (auto simp: file_name_Some_iff)
  have dir: "body_dir (d @ [Normal s]) = (if d = [] then [CurDir] else d)"
    by (simp add: body_dir_def parent_path_def)
  have short: "length q \<le> length d" if "q \<in> set (ancestors d)" for q
    using that by (auto simp: ancestors_def)
  show "dest \<notin> dir_names dest"
    unfolding dest dir using short [of "d @ [Normal s]"]
    by (cases "d = []") (auto simp: ancestors_def [of "[CurDir]"])
  show "p \<in> part_names dest \<Longrightarrow> p \<notin> dir_names dest"
    unfolding dest dir using short [of p]
    by (cases "d = []") (auto simp: ancestors_def [of "[CurDir]"] part_names_def part_name_def
        with_file_name_def file_name_def)
qed

lemma ensure_free_space_touches: "io_respects (touches S) (ensure_free_space dir len)"
  unfolding ensure_free_space_def
  by (auto intro!: io_respects_bind io_respects_context fs_call_touches io_respects_lift io_respects_ok
      simp: Let_def split: prod.splits)

lemma recv_file_body_cases:
  assumes "recv_file_body sha dest len sha256 mode lim (r, w) = (x, (r', w'))"
  obtains (refused) e where "x = Inl e" "r' = r" "touches (dir_names dest) w w'"
    | (ran) w0 tmp w1 outcome h got st w2 flushed w3 where
      "len \<le> lim" "file_name dest \<noteq> None" "touches (dir_names dest) w w0"
      "create_part_file dest w0 = (Inr tmp, w1)"
      "body_loop tmp len [] 0 None r w1 = ((outcome, h, got, st), r', w2)"
      "flush_and_sync st w2 = (flushed, w3)"
      "case body_verdict sha len sha256 outcome flushed h got of
         Inl e \<Rightarrow> x = Inl e \<and> (\<exists>y. remove_file tmp w3 = (y, w'))
       | Inr _ \<Rightarrow> land tmp dest mode w3 = (x, w')"
proof (cases "len \<le> lim \<and> file_name dest \<noteq> None")
  case False
  with assms that(1) show thesis
    by (auto simp: recv_file_body_def ensure_def split: if_splits)
next
  case True
  let ?dir = "body_dir dest"
  define mk where "mk = io_context (fmt [''creating '', show_path ?dir]) (create_dir_all ?dir)"
  note body = recv_file_body_def [of sha dest len sha256 mode lim, unfolded Let_def, folded mk_def]
  obtain y1 wa where 1: "mk w = (y1, wa)" by (metis prod.exhaust)
  have ta: "touches (dir_names dest) w wa"
    using 1 io_respectsD [OF io_respects_context [OF create_dir_all_touches [OF subset_refl]]]
    unfolding mk_def by blast
  obtain y2 wb where 2: "ensure_free_space ?dir len wa = (y2, wb)" by (metis prod.exhaust)
  have tb: "touches (dir_names dest) wa wb"
    using 2 io_respectsD [OF ensure_free_space_touches] by blast
  obtain y3 wc where 3: "create_part_file dest wb = (y3, wc)" by (metis prod.exhaust)
  note t = touches_trans [OF ta tb]
  show thesis
  proof (cases "isl y1 \<or> isl y2 \<or> isl y3")
    case bad: True
    have "touches (dir_names dest) wb wc" if "isl y3"
      using 3 that create_part_file_Inl touches_mono [of "{}"] by (cases y3) auto
    with assms True bad 1 2 3 t ta tb that(1) show thesis
      by (cases y1; cases y2; cases y3)
        (auto simp: body io_bind_def on_snd_def intro: touches_trans)
  next
    case False
    then obtain u1 u2 tmp where y: "y1 = Inr u1" "y2 = Inr u2" "y3 = Inr tmp"
      by (cases y1; cases y2; cases y3) auto
    obtain outcome h got st r1 w2 where
      l: "body_loop tmp len [] 0 None r wc = ((outcome, h, got, st), r1, w2)" by (metis prod.exhaust)
    obtain flushed w3 where f: "flush_and_sync st w2 = (flushed, w3)"
      by (metis prod.exhaust)
    have eq: "recv_file_body sha dest len sha256 mode lim (r, w) =
      (case body_verdict sha len sha256 outcome flushed h got of
         Inl e \<Rightarrow> (case remove_file tmp w3 of (_, w4) \<Rightarrow> (Inl e, (r1, w4)))
       | Inr _ \<Rightarrow> (case land tmp dest mode w3 of (x, w4) \<Rightarrow> (x, (r1, w4))))"
      using True 1 2 3 y l f by (simp add: body io_bind_def on_snd_def)
    show thesis
    proof (rule that(2) [OF _ _ t])
      show "body_loop tmp len [] 0 None r wc = ((outcome, h, got, st), r', w2)"
        using l assms eq by (auto split: sum.splits prod.splits)
      show "case body_verdict sha len sha256 outcome flushed h got of
         Inl e \<Rightarrow> x = Inl e \<and> (\<exists>y. remove_file tmp w3 = (y, w'))
       | Inr _ \<Rightarrow> land tmp dest mode w3 = (x, w')"
        using assms eq by (auto split: sum.splits prod.splits)
    qed (use True 3 y f in auto)
  qed
qed

lemma flush_and_sync_touches: "io_respects (touches S) (flush_and_sync st)"
  unfolding flush_and_sync_def
  by (intro io_respects_bind transp_touches handle_call_touches)
    (auto simp: io_respects_def tokio_flush_def split: option.splits dest!: handle_call_world)

lemma flush_and_sync_Inr: "flush_and_sync st w = (Inr (), w') \<Longrightarrow> st = None"
  by (auto simp: flush_and_sync_def tokio_flush_def elim!: io_bind_InrE split: option.splits)

lemma body_verdict_Inr_iff:
  "body_verdict sha len sha256 outcome flushed h got = Inr () \<longleftrightarrow>
     outcome = Inr () \<and> flushed = Inr () \<and> got = len \<and> sha h = sha256"
  by (cases outcome; cases flushed) (simp_all add: body_verdict_def)

text \<open>Once the staging file exists, what happens up to the verdict happens to it alone.\<close>

lemma staged:
  assumes "create_part_file dest w0 = (Inr tmp, w1)"
    and "body_loop tmp len [] 0 None r w1 = ((outcome, h, got, st), r', w2)"
    and "flush_and_sync st w2 = (flushed, w3)"
  shows "touches {tmp} w0 w3" and "\<exists>c k. nodes w3 tmp = Some (File c k)"
    and "tmp \<in> part_names dest" and "nodes w0 tmp = None"
proof -
  note c = create_part_file_Inr [OF assms(1)]
  note l = body_loop_frame [OF assms(2) c(3)]
  have f: "touches {} w2 w3" using io_respectsD [OF flush_and_sync_touches assms(3)] .
  show "touches {tmp} w0 w3"
    using c(4) l touches_mono [OF f, of "{tmp}"] by (blast intro: touches_trans)
  show "\<exists>c k. nodes w3 tmp = Some (File c k)"
    using l touches_nodes [OF f] by auto
qed (use create_part_file_Inr [OF assms(1)] in auto)

text \<open>The three ways a transfer ends: refused before the stream is read, given up after
  staging, or landed.\<close>

lemma recv_file_body_outcome:
  assumes "recv_file_body sha dest len sha256 mode lim (r, w) = (x, (r', w'))"
    and "unat len + CHUNK < 18446744073709551616"
  obtains (refused) e where "x = Inl e" "r' = r" "touches (dir_names dest) w w'"
    | (given_up) e tmp w0 where "x = Inl e" "touches (dir_names dest) w w0" "touches {tmp} w0 w'"
        "tmp \<in> part_names dest" "nodes w0 tmp = None" "file_name dest \<noteq> None"
        "nodes w' tmp = None \<or> fault w (tick w' - 1) \<noteq> None"
    | (landed) tmp w0 w3 k where "x = Inr ()" "len \<le> lim" "file_name dest \<noteq> None"
        "touches (dir_names dest) w w0" "touches {tmp} w0 w3" "tmp \<in> part_names dest"
        "nodes w0 tmp = None" "nodes w3 tmp = Some (File (arriving r) k)"
        "land tmp dest mode w3 = (Inr (), w')"
        "length (arriving r) = unat len" "sha (arriving r) = sha256" "arriving r' = []"
        "broken r = None"
  using assms(1)
proof (cases rule: recv_file_body_cases)
  case (ran w0 tmp w1 outcome h got st w2 flushed w3)
  note s = staged [OF ran(4-6)]
  obtain c k where tmp: "nodes w3 tmp = Some (File c k)" using s(2) by blast
  have env: "fault w3 = fault w" using touches_env(1) [OF ran(3)] touches_env(1) [OF s(1)] by simp
  show thesis
  proof (cases "body_verdict sha len sha256 outcome flushed h got")
    case (Inl e)
    with ran(7) obtain y where x: "x = Inl e" and rm: "remove_file tmp w3 = (y, w')" by auto
    note c = cleanup [OF rm tmp, unfolded env]
    from that(2) [OF x ran(3) touches_trans [OF s(1) c(1)] s(3,4) ran(2) c(2)] show thesis .
  next
    case (Inr u)
    with ran(7) have l: "land tmp dest mode w3 = (x, w')" by simp
    show thesis
    proof (cases x)
      case (Inl e)
      note c = land_Inl [OF l [unfolded Inl] tmp, unfolded env]
      from that(2) [OF Inl ran(3) touches_trans [OF s(1) c(1)] s(3,4) ran(2) c(2)] show thesis .
    next
      case x: (Inr v)
      from Inr have v: "outcome = Inr ()" "flushed = Inr ()" "got = len" "sha h = sha256"
        using body_verdict_Inr_iff [of sha len sha256 outcome flushed h got] by simp_all
      with ran(6) flush_and_sync_Inr have st: "st = None" by blast
      note p = create_part_file_Inr(3) [OF ran(4)]
      from body_loop_complete [OF ran(5) [unfolded v(1) st] p] assms(2) v(3)
      have *: "h = arriving r" "nodes w2 tmp = Some (File h (and 384 (not (umask w0))))"
        "length h = unat len" "arriving r' = []" "broken r = None" by auto
      have "touches {} w2 w3" using io_respectsD [OF flush_and_sync_touches ran(6)] .
      then have "nodes w3 tmp = nodes w2 tmp" by (rule touches_nodes) simp
      with * l x v(4) s ran(1-3) that(3) show thesis by simp
    qed
  qed
qed (use that in blast)

section \<open>Transfers that succeed\<close>

lemma body_dir_parent:
  assumes "file_name dest \<noteq> None" and "is_dir m (body_dir dest)"
  shows "parent_is_dir m dest" and "\<And>p. p \<in> part_names dest \<Longrightarrow> parent_is_dir m p"
proof -
  obtain d s where dest: "dest = d @ [Normal s]" using assms by (auto simp: file_name_Some_iff)
  have dir: "body_dir (d @ [Normal s]) = (if d = [] then [CurDir] else d)"
    by (simp add: body_dir_def parent_path_def)
  from assms(2) show "parent_is_dir m dest"
    unfolding dest dir by (auto simp: parent_is_dir_def parent_path_def split: if_splits)
  show "parent_is_dir m p" if "p \<in> part_names dest" for p
    using that assms(2) unfolding dest dir
    by (auto simp: parent_is_dir_def parent_path_def part_names_def part_name_def with_file_name_def
        split: if_splits option.splits)
qed

lemma create_part_file_calm:
  assumes "calm w" and "file_name dest \<noteq> None" and "is_dir (nodes w) (body_dir dest)"
    and "\<forall>p \<in> part_names dest. nodes w p = None"
  shows "\<exists>tmp w'. create_part_file dest w = (Inr tmp, w') \<and> calm w'"
proof -
  obtain base where base: "file_name dest = Some base" using assms(2) by blast
  define nonce where "nonce = map (entropy w (tick w)) [0..<8]"
  define tmp where "tmp = part_name dest base nonce"
  have "length nonce = 8" by (simp add: nonce_def)
  then have tmp: "tmp \<in> part_names dest" using base by (auto simp: part_names_def tmp_def)
  have "getrandom 8 w = (Inr nonce, next_tick w)" using assms(1) by (simp add: getrandom_def nonce_def)
  moreover have "\<exists>w'. create_new tmp 384 (next_tick w) = (Inr (), w') \<and> calm w'"
    using assms tmp body_dir_parent(2) [OF assms(2,3) tmp] by (simp add: create_new_def fs_call_calm)
  ultimately show ?thesis
    using base try_part.simps(2) [of 7 dest base]
    by (auto simp: create_part_file_def io_bind_def io_catch_def Let_def tmp_def)
qed

lemma land_calm:
  assumes "calm w" and "nodes w tmp = Some (File c k)" and "tmp \<noteq> dest"
    and "parent_is_dir ((nodes w)(tmp \<mapsto> File c (and mode 4095))) dest" and "\<And>m. nodes w dest \<noteq> Some (Dir m)"
  shows "\<exists>w'. land tmp dest mode w = (Inr (), w')"
proof -
  obtain w1 where 1: "set_permissions tmp mode w = (Inr (), w1)" "calm w1"
    using assms(1,2) follow_self [of "nodes w" tmp] by (auto simp: set_permissions_def fs_call_calm)
  note n1 = set_permissions_Inr [OF 1(1) assms(2)]
  have "\<exists>w2. rename tmp dest w1 = (Inr (), w2)"
    using 1(2) assms(3-5)
    by (auto simp: rename_def fs_call_calm n1(1) split: option.splits node.splits)
  with 1(1) show ?thesis
    by (auto simp: land_def io_catch_def io_bind_def set_mode_def io_context_def)
qed

lemma recv_file_body_lands:
  assumes "calm w" and "file_name dest \<noteq> None" and "\<And>m. nodes w dest \<noteq> Some (Dir m)"
    and "\<forall>a \<in> dir_names dest. is_dir (nodes w) a \<or> nodes w a = None"
    and "\<forall>p \<in> part_names dest. nodes w p = None"
    and "\<And>t. case vfs w t (body_dir dest) of (b, f, z) \<Rightarrow> b = 0 \<or> len \<le> saturating_mul f z"
    and "len \<le> lim" and "unat len + CHUNK < 18446744073709551616"
    and "broken r = None" and "length (arriving r) = unat len" and "sha (arriving r) = sha256"
  shows "\<exists>r' w'. recv_file_body sha dest len sha256 mode lim (r, w) = (Inr (), (r', w'))"
proof -
  have ne: "body_dir dest \<noteq> []" by (simp add: body_dir_def split: option.split)
  obtain w1 where 1: "create_dir_all (body_dir dest) w = (Inr (), w1)" "calm w1" "is_dir (nodes w1) (body_dir dest)"
    using create_dir_all_calm [OF assms(1) ne assms(4)] by blast
  have t1: "touches (dir_names dest) w w1" using io_respectsD [OF create_dir_all_touches 1(1)] by simp
  have 2: "ensure_free_space (body_dir dest) len w1 = (Inr (), next_tick w1)"
    using assms(6) [of "tick (next_tick w1)"] 1(2) touches_env(6) [OF t1]
    by (auto simp: ensure_free_space_def io_bind_def io_context_def fs_call_calm Let_def split: prod.splits)
  have free: "\<forall>p \<in> part_names dest. nodes (next_tick w1) p = None"
    using assms(5) touches_nodes [OF t1] dir_names_disjoint(2) [OF assms(2)] by simp
  obtain tmp w2 where 3: "create_part_file dest (next_tick w1) = (Inr tmp, w2)" "calm w2"
    using create_part_file_calm [OF _ assms(2) _ free] 1(2,3) by auto
  note c = create_part_file_Inr [OF 3(1)]
  obtain got r' w3 where 4: "body_loop tmp len [] 0 None r w2 = ((Inr (), arriving r, got, None), r', w3)"
    using body_loop_calm [OF 3(2) c(3) assms(9), of 0 len] assms(8,10) by auto
  note l = body_loop_frame [OF 4 c(3)]
  from body_loop_complete [OF 4 c(3)] assms(8) have got: "unat got = length (arriving r)"
    and tmp3: "nodes w3 tmp = Some (File (arriving r) (and 384 (not (umask (next_tick w1)))))" by auto
  have calm3: "calm w3" using l touches_calm 3(2) by blast
  define w4 where "w4 = next_tick (next_tick w3)"
  have 5: "flush_and_sync None w3 = (Inr (), w4)"
    using calm3 by (simp add: flush_and_sync_def tokio_flush_def io_bind_def handle_call_calm w4_def)
  have t: "touches {tmp} w1 w3" using touches_trans [OF touches_next_tick touches_trans [OF c(4)]] l by blast
  have neq: "tmp \<noteq> dest" using c(1) dest_notin_part_names [of dest] by blast
  have d: "nodes w4 dest = nodes w dest"
    using touches_nodes [OF t, of dest] neq touches_nodes [OF t1] dir_names_disjoint(1) [OF assms(2)]
    by (simp add: w4_def)
  have "(nodes w4)(tmp \<mapsto> x) = (nodes w1)(tmp \<mapsto> x)" for x
    using touches_nodes [OF t] by (auto simp: w4_def)
  moreover have "nodes w1 tmp = None" using c(2) by simp
  ultimately have "parent_is_dir ((nodes w4)(tmp \<mapsto> x)) dest" for x
    using body_dir_parent(1) [OF assms(2) is_dir_upd [OF 1(3)]] by simp
  then obtain w5 where 6: "land tmp dest mode w4 = (Inr (), w5)"
    using land_calm [of w4 tmp "arriving r" _ dest mode] calm3 tmp3 neq d assms(3) by (auto simp: w4_def)
  have "body_verdict sha len sha256 (Inr ()) (Inr ()) (arriving r) got = Inr ()"
    using got assms(10,11) by (simp add: body_verdict_def word_unat_eq_iff)
  with 1 2 3 4 5 6 assms(2,7) show ?thesis
    by (auto simp: recv_file_body_def Let_def io_bind_def on_snd_def io_context_def)
qed

section \<open>Properties of a transfer\<close>

lemma recv_file_body_Inr:
  assumes "recv_file_body sha dest len sha256 mode lim (r, w) = (Inr (), (r', w'))"
    and "unat len + CHUNK < 18446744073709551616"
  shows "nodes w' dest = Some (File (arriving r) (and mode 4095))
    \<and> length (arriving r) = unat len \<and> sha (arriving r) = sha256
    \<and> arriving r' = [] \<and> broken r = None \<and> len \<le> lim"
  using assms
proof (cases rule: recv_file_body_outcome)
  case (landed tmp w0 w3 k)
  have "tmp \<noteq> dest" using landed(6) dest_notin_part_names by blast
  from land_Inr(1) [OF landed(9,8) this] landed show ?thesis by simp
qed simp_all



text \<open>C13. A transfer that fails, for whatever reason and at whatever point, leaves the
  destination as it was at every moment, and leaves no staging file behind unless the very
  last system call, its removal, was made to fail.\<close>

theorem recv_file_body_failure:
  assumes "recv_file_body sha dest len sha256 mode lim (r, w) = (Inl e, (r', w'))"
    and "unat len + CHUNK < 18446744073709551616" and "file_name dest \<noteq> None"
  shows "nodes w' dest = nodes w dest \<and> (\<forall>m \<in> observed w w'. m dest = nodes w dest)
    \<and> (fault w (tick w' - 1) = None \<longrightarrow> (\<forall>p \<in> part_names dest. nodes w' p = nodes w p))"
proof -
  note d = dir_names_disjoint [OF assms(3)]
  from assms(1,2) show ?thesis
  proof (cases rule: recv_file_body_outcome)
    case (refused e)
    then show ?thesis using d touches_nodes touches_observed by metis
  next
    case (given_up e' tmp w0)
    have neq: "dest \<noteq> tmp" using given_up(4) dest_notin_part_names by blast
    have "nodes w0 dest = nodes w dest" and parts: "\<And>p. p \<in> part_names dest \<Longrightarrow> nodes w0 p = nodes w p"
      using d touches_nodes [OF given_up(2)] by auto
    moreover have "nodes w' p = nodes w0 p" if "p \<noteq> tmp" for p
      using that touches_nodes [OF given_up(3)] by simp
    moreover have "\<forall>m \<in> observed w w'. m dest = nodes w dest"
      using observed_trans [OF given_up(2,3)] touches_observed [OF given_up(2)]
        touches_observed [OF given_up(3)] d(1) neq \<open>nodes w0 dest = nodes w dest\<close> by auto
    ultimately show ?thesis using given_up(5,7) neq by metis
  qed simp
qed

theorem recv_file_body_failure_witness:
  "\<exists>e r' w'. recv_file_body id [Normal ''f''] 3 [7, 9] 420 10 (reader_of [7, 9], blank_world) = (Inl e, (r', w'))
     \<and> nodes w' [Normal ''f''] = None"
proof -
  obtain x r' w' where run:
    "recv_file_body id [Normal ''f''] 3 [7, 9] 420 10 (reader_of [7, 9], blank_world) = (x, (r', w'))"
    by (metis prod.exhaust)
  then obtain e where "x = Inl e"
    by (cases rule: recv_file_body_outcome) (auto simp: CHUNK_def)
  with run recv_file_body_failure [of id "[Normal ''f'']" 3 "[7, 9]" 420 10 "reader_of [7, 9]" blank_world e r' w']
  show ?thesis by (auto simp: CHUNK_def file_name_def)
qed

lemma recv_file_body_frame:
  assumes "recv_file_body sha dest len sha256 mode lim (r, w) = (x, (r', w'))"
    and "unat len + CHUNK < 18446744073709551616" and "file_name dest \<noteq> None"
  shows "(\<forall>m \<in> observed w w'. m dest = nodes w dest
        \<or> (m dest = Some (File (arriving r) (and mode 4095)) \<and> sha (arriving r) = sha256))
    \<and> touches (dir_names dest \<union> {p \<in> part_names dest. nodes w p = None} \<union> {dest}) w w'"
proof -
  note d = dir_names_disjoint [OF assms(3)]
  let ?S = "dir_names dest \<union> {p \<in> part_names dest. nodes w p = None} \<union> {dest}"
  have sub: "dir_names dest \<subseteq> ?S" by (intro le_supI1 subset_refl)
  have fresh: "{tmp} \<subseteq> ?S" if "touches (dir_names dest) w w0" "tmp \<in> part_names dest" "nodes w0 tmp = None" for w0 tmp
    using that d(2) touches_nodes [OF that(1)] by auto
  from assms(1,2) show ?thesis
  proof (cases rule: recv_file_body_outcome)
    case (refused e)
    then show ?thesis using d(1) touches_observed touches_mono [of "dir_names dest" w w' ?S] by blast
  next
    case (given_up e tmp w0)
    have neq: "dest \<noteq> tmp" using given_up(4) dest_notin_part_names by blast
    have "nodes w0 dest = nodes w dest" using d touches_nodes [OF given_up(2)] by auto
    then have "\<forall>m \<in> observed w w'. m dest = nodes w dest"
      using observed_trans [OF given_up(2,3)] touches_observed [OF given_up(2)]
        touches_observed [OF given_up(3)] d(1) neq by auto
    moreover have "touches ?S w w'"
      by (rule touches_trans [OF touches_mono [OF given_up(2) sub]
            touches_mono [OF given_up(3) fresh [OF given_up(2,4,5)]]])
    ultimately show ?thesis by blast
  next
    case (landed tmp w0 w3 k)
    have neq: "tmp \<noteq> dest" using landed(6) dest_notin_part_names by blast
    note l = land_Inr [OF landed(9,8) neq]
    have t3: "touches ?S w w3"
      by (rule touches_trans [OF touches_mono [OF landed(4) sub]
            touches_mono [OF landed(5) fresh [OF landed(4,6,7)]]])
    have "touches ?S w3 w'"
      by (rule touches_mono [OF l(3)]) (use fresh [OF landed(4,6,7)] in simp)
    with t3 have "touches ?S w w'" by (rule touches_trans)
    moreover have d0: "nodes w0 dest = nodes w dest" "nodes w3 dest = nodes w dest"
      using d touches_nodes [OF landed(4)] touches_nodes [OF landed(5)] neq by auto
    moreover have "\<forall>m \<in> observed w w3. m dest = nodes w dest"
      using observed_trans [OF landed(4,5)] touches_observed [OF landed(4)]
        touches_observed [OF landed(5)] d(1) neq d0 by auto
    ultimately show ?thesis
      using observed_trans [OF t3 l(3)] l(4) landed(11) by auto
  qed
qed

text \<open>C2. However a transfer ends, no other process and no crash ever sees a partial file at
  the destination: every observable state has there either what was there before or the
  complete verified content.  Nothing outside the destination, its parent directories and the
  staging names changes, and a staging name that was already taken keeps what it held.\<close>

theorem recv_file_body_atomic:
  assumes "recv_file_body sha dest len sha256 mode lim (r, w) = (x, (r', w'))"
    and "unat len + CHUNK < 18446744073709551616" and "file_name dest \<noteq> None"
  shows "(\<forall>m \<in> observed w w'. m dest = nodes w dest
        \<or> (m dest = Some (File (arriving r) (and mode 4095)) \<and> sha (arriving r) = sha256))
    \<and> touches (dir_names dest \<union> {p \<in> part_names dest. nodes w p = None} \<union> {dest}) w w'"
  by (rule recv_file_body_frame [OF assms])

theorem recv_file_body_atomic_witness:
  "\<exists>x r' w'. recv_file_body id [Normal ''f''] 3 [7, 9] 420 10 (reader_of [7, 9], blank_world) = (x, (r', w'))
     \<and> (\<forall>m \<in> observed blank_world w'. m [Normal ''f''] = None \<or> m [Normal ''f''] = Some (File [7, 9] 420))"
proof -
  obtain x r' w' where run:
    "recv_file_body id [Normal ''f''] 3 [7, 9] 420 10 (reader_of [7, 9], blank_world) = (x, (r', w'))"
    by (metis prod.exhaust)
  from recv_file_body_atomic [OF run] run show ?thesis by (auto simp: CHUNK_def file_name_def)
qed

lemma unat_saturating_mul: "unat (saturating_mul a b) = min (unat a * unat b) (2 ^ 64 - 1)"
proof (cases "unat a * unat b < 2 ^ 64")
  case True
  then have "unat (a * b) = unat a * unat b" by (simp add: unat_word_ariths)
  with True show ?thesis by (simp add: saturating_mul_def min_def)
next
  case False
  have "unat (- 1 :: u64) = 2 ^ 64 - 1" by (simp add: unsigned_minus_1_eq_mask mask_eq_exp_minus_1)
  with False show ?thesis by (simp add: saturating_mul_def min_def)
qed

lemma ensure_free_space_full:
  assumes "\<And>t. case vfs w t dir of (b, f, z) \<Rightarrow> b \<noteq> 0 \<and> unat f * unat z < unat len"
  shows "\<exists>e w'. ensure_free_space dir len w = (Inl e, w')"
proof (cases "fault w (tick w)")
  case None
  obtain b f z where v: "vfs w (Suc (tick w)) dir = (b, f, z)" by (metis prod.exhaust)
  with assms [of "Suc (tick w)"] have *: "b \<noteq> 0" "unat f * unat z < unat len" by auto
  have "\<not> len \<le> saturating_mul f z"
    using *(2) by (simp add: word_le_nat_alt unat_saturating_mul min_def)
  with None v *(1) show ?thesis
    by (simp add: ensure_free_space_def fs_call_def io_bind_def io_context_def Let_def)
qed (auto simp: ensure_free_space_def fs_call_def io_bind_def io_context_def)

text \<open>C14. A body announced larger than the caller's ceiling, or larger than what the file
  system holding the destination has free, is refused before a single byte of it is read:
  the stream is untouched, and nothing but the destination's parent directories (and, over
  the ceiling, not even those) has been created.\<close>

theorem recv_file_body_refuses:
  assumes "lim < len \<or>
    (\<forall>t. case vfs w t (body_dir dest) of (b, f, z) \<Rightarrow> b \<noteq> 0 \<and> unat f * unat z < unat len)"
  shows "\<exists>e w'. recv_file_body sha dest len sha256 mode lim (r, w) = (Inl e, (r, w'))
    \<and> touches (dir_names dest) w w' \<and> (lim < len \<longrightarrow> w' = w)"
proof (cases "len \<le> lim \<and> file_name dest \<noteq> None")
  case False
  then show ?thesis by (auto simp: recv_file_body_def ensure_def not_le)
next
  case True
  let ?dir = "body_dir dest"
  obtain y w1 where 1: "create_dir_all ?dir w = (y, w1)" by (metis prod.exhaust)
  have t1: "touches (dir_names dest) w w1" using io_respectsD [OF create_dir_all_touches 1] by simp
  obtain e w2 where 2: "ensure_free_space ?dir len w1 = (Inl e, w2)"
    using ensure_free_space_full [where w = w1 and dir = ?dir and len = len] touches_env(6) [OF t1] assms True by (auto simp: not_le)
  have t2: "touches (dir_names dest) w1 w2" using io_respectsD [OF ensure_free_space_touches 2] .
  show ?thesis
    using 1 2 t1 touches_trans [OF t1 t2] True
    by (cases y) (auto simp: recv_file_body_def Let_def io_bind_def io_context_def on_snd_def)
qed

theorem recv_file_body_refuses_witness:
  "\<exists>e w'. recv_file_body id [Normal ''f''] 5 [] 420 10
     (reader_of [7], blank_world\<lparr>vfs := (\<lambda>_ _. (9, 1, 4))\<rparr>) = (Inl e, (reader_of [7], w'))"
  using recv_file_body_refuses [of 10 5 "blank_world\<lparr>vfs := (\<lambda>_ _. (9, 1, 4))\<rparr>" "[Normal ''f'']"
      id "[]" 420 "reader_of [7]"]
  by auto

section \<open>Hexadecimal\<close>

lemma nibble_char_inject:
  assumes "a < 16" and "b < 16"
  shows "nibble_char a = nibble_char b \<longleftrightarrow> a = b"
proof
  have code: "(of_char (nibble_char d) :: nat) = (if d < 10 then 48 + d else 87 + d)" if "d < 16" for d
    using that by (simp add: nibble_char_def)
  assume "nibble_char a = nibble_char b"
  then have "(of_char (nibble_char a) :: nat) = of_char (nibble_char b)" by simp
  with assms show "a = b" by (auto simp: code split: if_splits)
qed simp

lemma hex_byte_inject: "hex_byte a = hex_byte b \<longleftrightarrow> a = b"
proof
  assume *: "hex_byte a = hex_byte b"
  have lt: "unat x div 16 < 16" "unat x mod 16 < 16" for x :: u8
    using unat_u8_less [of x] div_less_iff_less_mult [of 16 "unat x" 16] by auto
  from * have "unat a div 16 = unat b div 16" "unat a mod 16 = unat b mod 16"
    using lt by (simp_all add: hex_byte_def nibble_char_inject)
  then have "unat a = unat b" by (metis div_mult_mod_eq)
  then show "a = b" by (simp add: word_unat_eq_iff)
qed simp

lemma length_hex: "length (hex bs) = 2 * length bs"
  by (induction bs) (simp_all add: hex_def)

lemma hex_inject: "hex a = hex b \<longleftrightarrow> a = b"
proof (induction a arbitrary: b)
  case Nil
  show ?case by (cases b) (auto simp: hex_def hex_byte_def)
next
  case (Cons x xs)
  show ?case
  proof (cases b)
    case Nil
    then show ?thesis by (simp add: hex_def hex_byte_def)
  next
    case (Cons y ys)
    then show ?thesis
      using Cons.IH [of ys] hex_byte_inject [of x y] by (simp add: hex_def append_eq_append_conv)
  qed
qed

definition lower_hex :: "char set" where
  "lower_hex = set ''0123456789abcdef''"

lemma nibble_char_lower_hex: "d < 16 \<Longrightarrow> nibble_char d \<in> lower_hex"
proof -
  assume "d < 16"
  then have "d \<in> set [0..<16]" by simp
  moreover have "\<forall>d \<in> set [0..<16]. nibble_char d \<in> lower_hex" by code_simp
  ultimately show ?thesis by blast
qed

lemma set_hex: "set (hex bs) \<subseteq> lower_hex"
proof -
  have "set (hex_byte b) \<subseteq> lower_hex" for b
    using unat_u8_less [of b] by (auto simp: hex_byte_def div_less_iff_less_mult intro!: nibble_char_lower_hex)
  then show ?thesis by (auto simp: hex_def)
qed

end
