(* ===== verification/Duplex.thy ===== *)
theory Duplex
  imports File_Transfer
begin

text \<open>
  One request stream seen from one of its ends: the bytes still to arrive, the sink to the
  other end, the disk of the machine at this end, and the socket of a \<open>forward\<close> once it is
  connected.  The agent's handlers and the controller's commands run on this state.
\<close>

record duplex =
  dx_recv :: reader
  dx_send :: sink
  dx_world :: world
  dx_tcp :: "(reader \<times> sink) option"

definition via_recv :: "(reader, 'a) io \<Rightarrow> (duplex, 'a) io" where
  "via_recv m s = (case m (dx_recv s) of (x, r) \<Rightarrow> (x, s\<lparr>dx_recv := r\<rparr>))"

definition via_send :: "(sink, 'a) io \<Rightarrow> (duplex, 'a) io" where
  "via_send m s = (case m (dx_send s) of (x, t) \<Rightarrow> (x, s\<lparr>dx_send := t\<rparr>))"

definition via_world :: "(world, 'a) io \<Rightarrow> (duplex, 'a) io" where
  "via_world m s = (case m (dx_world s) of (x, w) \<Rightarrow> (x, s\<lparr>dx_world := w\<rparr>))"

definition via_recv_world :: "(reader \<times> world, 'a) io \<Rightarrow> (duplex, 'a) io" where
  "via_recv_world m s =
     (case m (dx_recv s, dx_world s) of (x, (r, w)) \<Rightarrow> (x, s\<lparr>dx_recv := r, dx_world := w\<rparr>))"

definition via_send_world :: "(sink \<times> world, 'a) io \<Rightarrow> (duplex, 'a) io" where
  "via_send_world m s =
     (case m (dx_send s, dx_world s) of (x, (t, w)) \<Rightarrow> (x, s\<lparr>dx_send := t, dx_world := w\<rparr>))"

end
