(* ===== verification/Exec_Output.thy ===== *)
theory Exec_Output
  imports Proto
begin

text \<open>
  \<open>src/proto.rs\<close>, \<open>recv_exec_output\<close>: the one receiver of a command's frames.  The two
  output streams and the logged truncation warning are the record \<open>exec_sinks\<close>; \<open>max\<close> of
  the source is \<open>lim\<close>.  An exit status is an \<open>i32\<close>, kept as the 32-bit word.
\<close>

record exec_sinks =
  out :: sink
  err :: sink
  warned :: bool

text \<open>The loop's variables: \<open>code\<close>, \<open>truncated\<close> and \<open>got\<close>.\<close>

type_synonym exec_acc = "u32 option \<times> bool \<times> u64"

fun output_len :: "ExecFrame \<Rightarrow> nat" where
  "output_len (Stdout b) = length b"
| "output_len (Stderr b) = length b"
| "output_len _ = 0"

definition charge :: "u64 \<Rightarrow> ExecFrame \<Rightarrow> u64 \<Rightarrow> u64 result" where
  "charge lim frame got =
     (case frame of
        Stdout b \<Rightarrow>
          (let got' = got + word_of_nat (length b) in
           map_sum id (\<lambda>_. got') (ensure (got' \<le> lim)
             (fmt [''target sent more than the '', dec (unat lim), ''-byte exec output ceiling''])))
      | Stderr b \<Rightarrow>
          (let got' = got + word_of_nat (length b) in
           map_sum id (\<lambda>_. got') (ensure (got' \<le> lim)
             (fmt [''target sent more than the '', dec (unat lim), ''-byte exec output ceiling''])))
      | _ \<Rightarrow> Inr got)"

definition write_out :: "bytes \<Rightarrow> (exec_sinks, unit) io" where
  "write_out b s = (case send_all b (out s) of (x, o') \<Rightarrow> (x, s\<lparr>out := o'\<rparr>))"

definition write_err :: "bytes \<Rightarrow> (exec_sinks, unit) io" where
  "write_err b s = (case send_all b (err s) of (x, e') \<Rightarrow> (x, s\<lparr>err := e'\<rparr>))"

fun exec_frame :: "ExecFrame \<Rightarrow> u32 option \<times> bool \<Rightarrow> (exec_sinks, u32 option \<times> bool) io" where
  "exec_frame (Stdout b) acc = io_bind (write_out b) (\<lambda>_. io_ok acc)"
| "exec_frame (Stderr b) acc = io_bind (write_err b) (\<lambda>_. io_ok acc)"
| "exec_frame (Exit c) (code, truncated) = io_ok (Some c, truncated)"
| "exec_frame (Failed e) acc = io_lift (Inl (Msg (fmt [''exec failed on the target: '', e])))"
| "exec_frame Truncated (code, truncated) = io_ok (code, True)"

text \<open>One turn of the loop on a frame that was read.\<close>

definition exec_turn :: "u64 \<Rightarrow> ExecFrame \<Rightarrow> exec_acc \<Rightarrow> (exec_sinks, exec_acc) io" where
  "exec_turn lim frame acc =
     (case acc of (code, truncated, got) \<Rightarrow>
        io_bind (io_lift (charge lim frame got)) (\<lambda>got'.
        io_bind (exec_frame frame (code, truncated)) (\<lambda>(code', truncated').
        io_ok (code', truncated', got'))))"

function exec_loop ::
  "ExecFrame decoder \<Rightarrow> u64 \<Rightarrow> exec_acc \<Rightarrow> reader \<Rightarrow> exec_sinks \<Rightarrow> exec_acc result \<times> reader \<times> exec_sinks" where
  "exec_loop unpack lim acc r s =
     (case read_msg_opt unpack r of
        (Inl e, r') \<Rightarrow> (Inl e, r', s)
      | (Inr None, r') \<Rightarrow> (Inr acc, r', s)
      | (Inr (Some frame), r') \<Rightarrow>
          (case exec_turn lim frame acc s of
             (Inl e, s') \<Rightarrow> (Inl e, r', s')
           | (Inr acc', s') \<Rightarrow> exec_loop unpack lim acc' r' s'))"
  by pat_completeness auto
termination
  by (relation "measure (\<lambda>(unpack, lim, acc, r, s). length (arriving r))")
    (auto dest!: read_msg_opt_shrinks [OF sym])

declare exec_loop.simps [simp del]

text \<open>\<open>out.flush()\<close>, \<open>err.flush()\<close>, the warning, and the exit status.\<close>

definition exec_close :: "exec_acc \<Rightarrow> (exec_sinks, u32) io" where
  "exec_close acc =
     (case acc of (code, truncated, got) \<Rightarrow>
        io_bind (write_out []) (\<lambda>_.
        io_bind (write_err []) (\<lambda>_ s.
        io_lift (ok_or code ''agent closed the stream without reporting an exit status'')
          (if truncated then s\<lparr>warned := True\<rparr> else s))))"

definition recv_exec_output :: "ExecFrame decoder \<Rightarrow> u64 \<Rightarrow> (reader \<times> exec_sinks, u32) io" where
  "recv_exec_output unpack lim =
     io_bind (\<lambda>(r, s). exec_loop unpack lim (None, False, 0) r s) (\<lambda>acc. on_snd (exec_close acc))"

section \<open>One turn\<close>

lemma write_out_Inr: "write_out b s = (Inr (), s') \<Longrightarrow>
    sent (out s') = sent (out s) @ b \<and> sfault (out s') = sfault (out s) \<and> err s' = err s \<and> warned s' = warned s"
  by (auto simp: write_out_def split: prod.splits dest: send_all_Inr)

lemma write_err_Inr: "write_err b s = (Inr (), s') \<Longrightarrow>
    sent (err s') = sent (err s) @ b \<and> sfault (err s') = sfault (err s) \<and> out s' = out s \<and> warned s' = warned s"
  by (auto simp: write_err_def split: prod.splits dest: send_all_Inr)

lemma write_out_prefix: "write_out b s = (x, s') \<Longrightarrow> \<exists>n. sent (out s') = sent (out s) @ take n b \<and> err s' = err s"
  by (auto simp: write_out_def split: prod.splits dest: send_all_prefix)

lemma write_err_prefix: "write_err b s = (x, s') \<Longrightarrow> \<exists>n. sent (err s') = sent (err s) @ take n b \<and> out s' = out s"
  by (auto simp: write_err_def split: prod.splits dest: send_all_prefix)

lemma charge_Inr:
  "charge lim frame got = Inr got' \<longleftrightarrow>
     got' = got + word_of_nat (output_len frame) \<and> (output_len frame = 0 \<and> (\<forall>b. frame \<noteq> Stdout b \<and> frame \<noteq> Stderr b) \<or> got' \<le> lim)"
  by (cases frame) (auto simp: charge_def Let_def ensure_def)

text \<open>Whatever a turn does, it adds no more to the two sinks than the frame carries.\<close>

lemma exec_frame_adds:
  assumes "exec_frame frame acc s = (x, s')"
  shows "\<exists>a b. sent (out s') = sent (out s) @ a \<and> sent (err s') = sent (err s) @ b
    \<and> length a + length b \<le> output_len frame"
proof (cases frame)
  case (Stdout b)
  with assms obtain y where "write_out b s = (y, s')" by (auto elim!: io_bind_cases)
  from write_out_prefix [OF this] Stdout show ?thesis by (auto intro: exI [of _ "[]"])
next
  case (Stderr b)
  with assms obtain y where "write_err b s = (y, s')" by (auto elim!: io_bind_cases)
  from write_err_prefix [OF this] Stderr show ?thesis by (auto intro: exI [of _ "[]"])
qed (use assms in \<open>cases acc; auto\<close>)+

lemma exec_turn_bound:
  assumes "exec_turn lim frame (code, truncated, got) s = (x, s')" and "got \<le> lim"
    and "output_len frame \<le> MAX_MSG" and "unat lim + MAX_MSG < 18446744073709551616"
  shows "\<exists>a b. sent (out s') = sent (out s) @ a \<and> sent (err s') = sent (err s) @ b
    \<and> unat got + length a + length b \<le> unat lim
    \<and> (\<forall>c t got'. x = Inr (c, t, got') \<longrightarrow> got' \<le> lim \<and> unat got + length a + length b \<le> unat got')"
proof (cases "charge lim frame got")
  case (Inl e)
  with assms(1,2) show ?thesis
    by (auto simp: exec_turn_def word_le_nat_alt intro!: exI [of _ "[]"])
next
  case (Inr got')
  have le: "unat got \<le> unat lim" using assms(2) by (simp add: word_le_nat_alt)
  with Inr assms(3,4) have got': "unat got' = unat got + output_len frame"
    by (simp add: charge_Inr unat_u64_add)
  have lim: "got' \<le> lim" using Inr got' le by (auto simp: charge_Inr word_le_nat_alt)
  from assms(1) Inr obtain y where
    y: "exec_frame frame (code, truncated) s = (y, s')" "x = map_sum id (\<lambda>(c, t). (c, t, got')) y"
    by (auto simp: exec_turn_def elim!: io_bind_cases)
  from exec_frame_adds [OF y(1)] obtain a b where
    "sent (out s') = sent (out s) @ a" "sent (err s') = sent (err s) @ b"
    "length a + length b \<le> output_len frame" by blast
  moreover have "unat got' \<le> unat lim" using lim by (simp add: word_le_nat_alt)
  moreover have "\<forall>c t g. x = Inr (c, t, g) \<longrightarrow> g = got'" using y(2) by (cases y) auto
  ultimately show ?thesis using got' lim by (intro exI [of _ a] exI [of _ b]) auto
qed

section \<open>The loop\<close>

lemma exec_loop_cases:
  assumes "exec_loop unpack lim acc r s = (x, r', s')"
  obtains (broken) e where "x = Inl e" "s' = s"
    | (eof) "x = Inr acc" "s' = s" "read_msg_opt unpack r = (Inr None, r')"
    | (stops) frame e where "read_msg_opt unpack r = (Inr (Some frame), r')" "x = Inl e"
        "exec_turn lim frame acc s = (Inl e, s')"
    | (more) frame acc1 r1 s1 where "read_msg_opt unpack r = (Inr (Some frame), r1)"
        "exec_turn lim frame acc s = (Inr acc1, s1)" "exec_loop unpack lim acc1 r1 s1 = (x, r', s')"
  using assms
  by (subst (asm) exec_loop.simps) (auto split: prod.splits sum.splits option.splits)

lemma exec_loop_bound:
  assumes "exec_loop unpack lim (code, truncated, got) r s = (x, r', s')" and "got \<le> lim"
    and "\<And>b f. unpack b = Inr f \<Longrightarrow> output_len f \<le> length b"
    and "unat lim + MAX_MSG < 18446744073709551616"
  shows "\<exists>a b. sent (out s') = sent (out s) @ a \<and> sent (err s') = sent (err s) @ b
    \<and> unat got + length a + length b \<le> unat lim"
  using assms(1,2)
proof (induction "length (arriving r)" arbitrary: code truncated got r s rule: less_induct)
  case less
  have small: "output_len frame \<le> MAX_MSG" if "read_msg_opt unpack r = (Inr (Some frame), r1)" for frame r1
    using that assms(3) by (elim read_msg_opt_SomeE) (metis le_trans)
  from less.prems(1) show ?case
  proof (cases rule: exec_loop_cases)
    case (stops frame e)
    from exec_turn_bound [OF stops(3) less.prems(2) small [OF stops(1)] assms(4)] show ?thesis by blast
  next
    case (more frame acc1 r1 s1)
    obtain c t g where acc1: "acc1 = (c, t, g)" by (cases acc1)
    from exec_turn_bound [OF more(2) less.prems(2) small [OF more(1)] assms(4)] acc1
    obtain a b where ab: "sent (out s1) = sent (out s) @ a" "sent (err s1) = sent (err s) @ b"
      "g \<le> lim" "unat got + length a + length b \<le> unat g" by auto
    from less.hyps [OF read_msg_opt_shrinks [OF more(1)] more(3) [unfolded acc1] ab(3)]
    obtain a' b' where "sent (out s') = sent (out s1) @ a'" "sent (err s') = sent (err s1) @ b'"
      "unat g + length a' + length b' \<le> unat lim" by blast
    with ab show ?thesis by (intro exI [of _ "a @ a'"] exI [of _ "b @ b'"]) auto
  qed (use less.prems(2) in \<open>auto simp: word_le_nat_alt intro!: exI [of _ "[]"]\<close>)
qed

section \<open>What a run of frames means\<close>

fun stdout_of :: "ExecFrame list \<Rightarrow> bytes" where
  "stdout_of [] = []"
| "stdout_of (f # fs) = (case f of Stdout b \<Rightarrow> b | _ \<Rightarrow> []) @ stdout_of fs"

fun stderr_of :: "ExecFrame list \<Rightarrow> bytes" where
  "stderr_of [] = []"
| "stderr_of (f # fs) = (case f of Stderr b \<Rightarrow> b | _ \<Rightarrow> []) @ stderr_of fs"

text \<open>The last exit status reported, starting from \<open>c\<close>.\<close>

fun exit_of :: "u32 option \<Rightarrow> ExecFrame list \<Rightarrow> u32 option" where
  "exit_of c [] = c"
| "exit_of c (f # fs) = exit_of (case f of Exit d \<Rightarrow> Some d | _ \<Rightarrow> c) fs"

fun output_total :: "ExecFrame list \<Rightarrow> nat" where
  "output_total [] = 0"
| "output_total (f # fs) = output_len f + output_total fs"

definition frames_wire :: "(ExecFrame \<Rightarrow> bytes) \<Rightarrow> ExecFrame list \<Rightarrow> bytes" where
  "frames_wire enc fs = concat (map (\<lambda>f. msg_header (enc f) @ enc f) fs)"

definition sinks_healthy :: "exec_sinks \<Rightarrow> bool" where
  "sinks_healthy s \<longleftrightarrow> healthy (out s) \<and> healthy (err s)"

lemma write_out_healthy:
  assumes "sinks_healthy s"
  shows "\<exists>s'. write_out b s = (Inr (), s') \<and> sinks_healthy s'"
  using assms by (auto simp: sinks_healthy_def write_out_def elim!: send_all_healthy [of "out s" b])

lemma write_err_healthy:
  assumes "sinks_healthy s"
  shows "\<exists>s'. write_err b s = (Inr (), s') \<and> sinks_healthy s'"
  using assms by (auto simp: sinks_healthy_def write_err_def elim!: send_all_healthy [of "err s" b])

lemma exec_turn_ok:
  assumes "sinks_healthy s" and "\<And>e. f \<noteq> Failed e" and "unat got + output_len f \<le> unat lim"
  shows "\<exists>s' got'. exec_turn lim f (c, t, got) s
       = (Inr (exit_of c [f], t \<or> f = Truncated, got'), s') \<and> unat got' = unat got + output_len f
     \<and> sinks_healthy s' \<and> warned s' = warned s
     \<and> sent (out s') = sent (out s) @ stdout_of [f] \<and> sent (err s') = sent (err s) @ stderr_of [f]"
proof -
  have "unat lim < 18446744073709551616" using unsigned_less [of lim, where ?'a = nat] by simp
  then have nowrap: "unat (got + word_of_nat (output_len f)) = unat got + output_len f"
    using assms(3) by (intro unat_u64_add) simp
  then have ok: "charge lim f got = Inr (got + word_of_nat (output_len f))"
    using assms(3) by (simp add: charge_Inr word_le_nat_alt)
  show ?thesis
  proof (cases f)
    case (Stdout b)
    obtain s' where "write_out b s = (Inr (), s')" "sinks_healthy s'" using write_out_healthy [OF assms(1)] by blast
    with Stdout ok nowrap write_out_Inr [of b s s'] show ?thesis by (simp add: exec_turn_def io_bind_def)
  next
    case (Stderr b)
    obtain s' where "write_err b s = (Inr (), s')" "sinks_healthy s'" using write_err_healthy [OF assms(1)] by blast
    with Stderr ok nowrap write_err_Inr [of b s s'] show ?thesis by (simp add: exec_turn_def io_bind_def)
  qed (use ok nowrap assms in \<open>auto simp: exec_turn_def io_bind_def\<close>)
qed

lemma read_msg_opt_eof:
  assumes "length (arriving r) < 4" and "broken r = None"
  shows "read_msg_opt unpack r = (Inr None, r\<lparr>chunks := []\<rparr>)"
  using assms by (simp add: read_msg_opt_def io_catch_def read_exact_short)

lemma exec_loop_frames:
  assumes "arriving r = frames_wire enc fs" and "broken r = None"
    and "\<And>f. f \<in> set fs \<Longrightarrow> unpack (enc f) = Inr f \<and> length (enc f) \<le> MAX_MSG \<and> (\<forall>e. f \<noteq> Failed e)"
    and "unat got + output_total fs \<le> unat lim" and "sinks_healthy s"
  shows "\<exists>got' r' s'. exec_loop unpack lim (c, t, got) r s
       = (Inr (exit_of c fs, t \<or> Truncated \<in> set fs, got'), r', s')
     \<and> sinks_healthy s' \<and> warned s' = warned s
     \<and> sent (out s') = sent (out s) @ stdout_of fs \<and> sent (err s') = sent (err s) @ stderr_of fs"
  using assms
proof (induction fs arbitrary: r c t got s)
  case Nil
  then show ?case
    by (subst exec_loop.simps) (simp add: frames_wire_def read_msg_opt_eof)
next
  case (Cons f fs)
  have f: "unpack (enc f) = Inr f" "length (enc f) \<le> MAX_MSG" "\<And>e. f \<noteq> Failed e"
    using Cons.prems(3) [of f] by auto
  obtain r1 where "read_msg unpack r = (Inr f, r1)" and r1: "arriving r1 = frames_wire enc fs" "broken r1 = None"
    using read_msg_accepts [where unpack = unpack and b = "enc f" and r = r and rest = "frames_wire enc fs"]
      f(1,2) Cons.prems(1,2) by (auto simp: frames_wire_def)
  then have read: "read_msg_opt unpack r = (Inr (Some f), r1)" by (simp add: read_msg_iff)
  obtain s1 g where
    turn: "exec_turn lim f (c, t, got) s = (Inr (exit_of c [f], t \<or> f = Truncated, g), s1)"
    and g: "unat g = unat got + output_len f" and s1: "sinks_healthy s1" "warned s1 = warned s"
      "sent (out s1) = sent (out s) @ stdout_of [f]" "sent (err s1) = sent (err s) @ stderr_of [f]"
    using exec_turn_ok [OF Cons.prems(5) f(3), of got lim c t] Cons.prems(4) by auto
  have "unat g + output_total fs \<le> unat lim" using g Cons.prems(4) by simp
  from Cons.IH [OF r1 Cons.prems(3) this s1(1), of "exit_of c [f]" "t \<or> f = Truncated"]
  obtain got' r' s' where
    "exec_loop unpack lim (exit_of c [f], t \<or> f = Truncated, g) r1 s1
       = (Inr (exit_of (exit_of c [f]) fs, (t \<or> f = Truncated) \<or> Truncated \<in> set fs, got'), r', s')"
    "sinks_healthy s'" "warned s' = warned s1"
    "sent (out s') = sent (out s1) @ stdout_of fs" "sent (err s') = sent (err s1) @ stderr_of fs"
    by auto
  with read turn s1 show ?case
    by (subst exec_loop.simps) (auto split: ExecFrame.splits)
qed

lemma recv_exec_output_frames:
  assumes "arriving r = frames_wire enc fs" and "broken r = None"
    and "\<And>f. f \<in> set fs \<Longrightarrow> unpack (enc f) = Inr f \<and> length (enc f) \<le> MAX_MSG \<and> (\<forall>e. f \<noteq> Failed e)"
    and "output_total fs \<le> unat lim" and "sinks_healthy s"
  shows "\<exists>x r' s'. recv_exec_output unpack lim (r, s) = (x, (r', s'))
     \<and> (case exit_of None fs of Some c \<Rightarrow> x = Inr c | None \<Rightarrow> \<exists>e. x = Inl e)
     \<and> sent (out s') = sent (out s) @ stdout_of fs \<and> sent (err s') = sent (err s) @ stderr_of fs
     \<and> warned s' = (warned s \<or> Truncated \<in> set fs)"
proof -
  obtain got' r' s1 where run: "exec_loop unpack lim (None, False, 0) r s
       = (Inr (exit_of None fs, Truncated \<in> set fs, got'), r', s1)"
    and s1: "sinks_healthy s1" "warned s1 = warned s"
      "sent (out s1) = sent (out s) @ stdout_of fs" "sent (err s1) = sent (err s) @ stderr_of fs"
    using exec_loop_frames [OF assms(1-3), of 0 lim s None False] assms(4,5) by auto
  obtain s2 where 2: "write_out [] s1 = (Inr (), s2)" "sinks_healthy s2" using write_out_healthy [OF s1(1)] by blast
  obtain s3 where 3: "write_err [] s2 = (Inr (), s3)" using write_err_healthy [OF 2(2)] by blast
  from run s1 2 3 write_out_Inr [OF 2(1)] write_err_Inr [OF 3] show ?thesis
    by (cases "exit_of None fs")
      (auto simp: recv_exec_output_def exec_close_def io_bind_def on_snd_def)
qed

section \<open>Properties of command output\<close>

text \<open>Frames the target sent arrive whole and in order: the two output streams are the
  concatenations of the \<open>Stdout\<close> and of the \<open>Stderr\<close> bodies, the result is the last exit
  status reported (an error if there was none), and the operator is warned exactly when the
  target said it stopped reading early.\<close>

theorem recv_exec_output_faithful:
  assumes "arriving r = frames_wire enc fs" and "broken r = None"
    and "\<And>f. f \<in> set fs \<Longrightarrow> unpack (enc f) = Inr f \<and> length (enc f) \<le> MAX_MSG \<and> (\<forall>e. f \<noteq> Failed e)"
    and "output_total fs \<le> unat lim" and "sinks_healthy s"
  shows "\<exists>x r' s'. recv_exec_output unpack lim (r, s) = (x, (r', s'))
     \<and> (case exit_of None fs of Some c \<Rightarrow> x = Inr c | None \<Rightarrow> \<exists>e. x = Inl e)
     \<and> sent (out s') = sent (out s) @ stdout_of fs \<and> sent (err s') = sent (err s) @ stderr_of fs
     \<and> warned s' = (warned s \<or> Truncated \<in> set fs)"
  by (rule recv_exec_output_frames [OF assms])

theorem recv_exec_output_faithful_witness:
  "\<exists>r' s'. recv_exec_output (\<lambda>b. Inr (if b = [7] then Exit 3 else Stdout b)) 10
       (\<lparr>chunks = [[1, 0], [0, 0, 9, 1, 0, 0, 0], [7]], broken = None\<rparr>,
        \<lparr>out = fresh_sink, err = fresh_sink, warned = False\<rparr>) = (Inr 3, (r', s'))
     \<and> sent (out s') = [9] \<and> \<not> warned s'"
proof -
  let ?enc = "\<lambda>f. if f = Exit 3 then [7 :: u8] else [9]"
  let ?unpack = "\<lambda>b. Inr (if b = [7] then Exit 3 else Stdout b) :: ExecFrame result"
  let ?r = "\<lparr>chunks = [[1, 0], [0, 0, 9, 1, 0, 0, 0], [7]], broken = None\<rparr> :: reader"
  let ?s = "\<lparr>out = fresh_sink, err = fresh_sink, warned = False\<rparr> :: exec_sinks"
  have "?unpack (?enc f) = Inr f \<and> length (?enc f) \<le> MAX_MSG \<and> (\<forall>e. f \<noteq> Failed e)"
    if "f \<in> set [Stdout [9], Exit 3]" for f
    using that by (auto simp: MAX_MSG_def)
  from recv_exec_output_faithful [of ?r ?enc "[Stdout [9], Exit 3]" ?unpack 10 ?s, OF _ _ this]
  show ?thesis
    by (auto simp: arriving_def frames_wire_def msg_header_def u32_to_le_def sinks_healthy_def)
qed

text \<open>C33. Whatever the target sends, and however the run ends, the two output streams
  together never receive more than \<open>max\<close> bytes.  What is used of postcard is that a decoded
  frame carries no more bytes than it was decoded from.\<close>

theorem recv_exec_output_bounded:
  assumes postcard: "\<And>b f. unpack b = Inr f \<Longrightarrow> output_len f \<le> length b"
    and "unat lim + MAX_MSG < 18446744073709551616"
    and run: "recv_exec_output unpack lim (r, s) = (x, (r', s'))"
  shows "\<exists>a b. sent (out s') = sent (out s) @ a \<and> sent (err s') = sent (err s) @ b
    \<and> length a + length b \<le> unat lim"
proof -
  obtain y r1 s1 where loop: "exec_loop unpack lim (None, False, 0) r s = (y, r1, s1)" by (metis prod.exhaust)
  from exec_loop_bound [OF loop _ postcard assms(2)] obtain a b where
    ab: "sent (out s1) = sent (out s) @ a" "sent (err s1) = sent (err s) @ b" "length a + length b \<le> unat lim"
    by auto
  have "sent (out s') = sent (out s1) \<and> sent (err s') = sent (err s1)"
    using run loop
    by (cases y)
      (auto simp: recv_exec_output_def exec_close_def on_snd_def io_bind_def[of "case_prod _"]
        split: prod.splits if_splits elim!: io_bind_cases dest!: write_out_prefix write_err_prefix)
  with ab show ?thesis by auto
qed

theorem recv_exec_output_bounded_witness:
  "\<exists>x r' s' a b. recv_exec_output (\<lambda>b. Inr (Stdout b)) 1 (reader_of [2, 0, 0, 0, 8, 9],
       \<lparr>out = fresh_sink, err = fresh_sink, warned = False\<rparr>) = (x, (r', s'))
     \<and> sent (out s') = a \<and> sent (err s') = b \<and> length a + length b \<le> 1"
proof -
  obtain x r' s' where run: "recv_exec_output (\<lambda>b. Inr (Stdout b)) 1 (reader_of [2, 0, 0, 0, 8, 9],
       \<lparr>out = fresh_sink, err = fresh_sink, warned = False\<rparr>) = (x, (r', s'))"
    by (metis prod.exhaust)
  from recv_exec_output_bounded [OF _ _ run] run show ?thesis by (auto simp: MAX_MSG_def)
qed

end
