(* ===== verification/Net.thy ===== *)
theory Net
  imports Proto Rust_Text
begin

unbundle bit_operations_syntax

text \<open>
  \<open>src/net.rs\<close>: relay choice, endpoint construction, path classification, watching a
  session's path, and the reachability probe.

  \<open>iroh\<close> is not part of the source.  Its URL and relay-map parsers are arguments; an
  endpoint is the record of what its builder was told; a connection is the list of its open
  paths, each with whether iroh selected it; what the network answers is an argument of
  \<open>probe\<close>.  Addresses are \<open>std::net\<close>'s, as 32- and 128-bit words.
\<close>

section \<open>Addresses\<close>

datatype IpAddr = V4 u32 | V6 "128 word"

text \<open>A V6 socket address also carries its scope id.\<close>

datatype SocketAddr = SocketV4 u32 u16 | SocketV6 "128 word" u16 u32

datatype TransportAddr = TransportRelay string | TransportIp SocketAddr | TransportOther string

definition octet4 :: "nat \<Rightarrow> u32 \<Rightarrow> nat" where
  "octet4 i v = unat v div 2 ^ (8 * (3 - i)) mod 256"

definition octet6 :: "nat \<Rightarrow> 128 word \<Rightarrow> u8" where
  "octet6 i v = word_of_nat (unat v div 2 ^ (8 * (15 - i)))"

definition segment6 :: "nat \<Rightarrow> 128 word \<Rightarrow> nat" where
  "segment6 i v = unat v div 2 ^ (16 * (7 - i)) mod 65536"

fun sock_ip :: "SocketAddr \<Rightarrow> IpAddr" where
  "sock_ip (SocketV4 a p) = V4 a"
| "sock_ip (SocketV6 a p s) = V6 a"

fun is_loopback :: "IpAddr \<Rightarrow> bool" where
  "is_loopback (V4 v) = (octet4 0 v = 127)"
| "is_loopback (V6 v) = (v = 1)"

definition is_private4 :: "u32 \<Rightarrow> bool" where
  "is_private4 v \<longleftrightarrow> octet4 0 v = 10
     \<or> (octet4 0 v = 172 \<and> 16 \<le> octet4 1 v \<and> octet4 1 v \<le> 31)
     \<or> (octet4 0 v = 192 \<and> octet4 1 v = 168)"

definition is_link_local4 :: "u32 \<Rightarrow> bool" where
  "is_link_local4 v \<longleftrightarrow> octet4 0 v = 169 \<and> octet4 1 v = 254"

text \<open>\<open>Display\<close> of the two address families: dotted decimal, and the form of RFC 5952 with
  the first longest run of two or more zero groups written as a double colon.\<close>

fun hex_digits :: "nat \<Rightarrow> string" where
  "hex_digits n = (if n < 16 then [nibble_char n] else hex_digits (n div 16) @ [nibble_char (n mod 16)])"

declare hex_digits.simps [simp del]

definition show_v4 :: "u32 \<Rightarrow> string" where
  "show_v4 v = dec (octet4 0 v) @ ''.'' @ dec (octet4 1 v) @ ''.'' @ dec (octet4 2 v) @ ''.'' @ dec (octet4 3 v)"

fun show_groups :: "nat list \<Rightarrow> string" where
  "show_groups [] = []"
| "show_groups [g] = hex_digits g"
| "show_groups (g # gs) = hex_digits g @ '':'' @ show_groups gs"

fun zero_run :: "nat list \<Rightarrow> nat" where
  "zero_run (g # gs) = (if g = 0 then Suc (zero_run gs) else 0)"
| "zero_run [] = 0"

text \<open>Start and length of the first longest run of zero groups.\<close>

fun longest_run :: "nat \<Rightarrow> nat list \<Rightarrow> nat \<times> nat" where
  "longest_run i [] = (0, 0)"
| "longest_run i (g # gs) =
     (let here = zero_run (g # gs); (j, n) = longest_run (Suc i) gs
      in if n \<le> here \<and> here \<noteq> 0 then (i, here) else (j, n))"

definition show_v6 :: "128 word \<Rightarrow> string" where
  "show_v6 v =
     (let gs = map (\<lambda>i. segment6 i v) [0..<8]
      in if take 6 gs = [0, 0, 0, 0, 0, 65535] then ''::ffff:'' @ show_v4 (ucast v)
         else (case longest_run 0 gs of (i, n) \<Rightarrow>
                 if 1 < n then show_groups (take i gs) @ ''::'' @ show_groups (drop (i + n) gs)
                 else show_groups gs))"

fun show_SocketAddr :: "SocketAddr \<Rightarrow> string" where
  "show_SocketAddr (SocketV4 a p) = show_v4 a @ '':'' @ dec (unat p)"
| "show_SocketAddr (SocketV6 a p s) =
     ''['' @ show_v6 a @ (if s = 0 then [] else CHR 0x25 # dec (unat s)) @ '']:'' @ dec (unat p)"

section \<open>Relays and endpoints\<close>

datatype RelayChoice = N0 | Disabled | Urls "string list"

datatype RelayMode = RelayDefault | RelayDisabled | RelayCustom "string list"

definition from_flags :: "bool \<Rightarrow> string list \<Rightarrow> RelayChoice" where
  "from_flags no_relay urls =
     (case (no_relay, urls = []) of
        (True, _) \<Rightarrow> Disabled
      | (False, True) \<Rightarrow> N0
      | (False, False) \<Rightarrow> Urls urls)"

text \<open>\<open>RelayMap::try_from_iter\<close> parses every URL or fails; \<open>parse_url\<close> is iroh's.\<close>

fun relay_map :: "(string \<Rightarrow> string + string) \<Rightarrow> string list \<Rightarrow> string list result" where
  "relay_map parse_url [] = Inr []"
| "relay_map parse_url (u # us) =
     (case parse_url u of
        Inl e \<Rightarrow> Inl (Msg e)
      | Inr v \<Rightarrow> map_sum id ((#) v) (relay_map parse_url us))"

fun relay_mode :: "(string \<Rightarrow> string + string) \<Rightarrow> RelayChoice \<Rightarrow> RelayMode result" where
  "relay_mode parse_url N0 = Inr RelayDefault"
| "relay_mode parse_url Disabled = Inr RelayDisabled"
| "relay_mode parse_url (Urls urls) =
     map_sum id RelayCustom (with_context ''parsing --relay url'' (relay_map parse_url urls))"

definition relay_enabled :: "RelayChoice \<Rightarrow> bool" where
  "relay_enabled c \<longleftrightarrow> c \<noteq> Disabled"

fun first_url :: "(string \<Rightarrow> string + string) \<Rightarrow> RelayChoice \<Rightarrow> string option result" where
  "first_url parse_url (Urls (u # us)) =
     (case parse_url u of
        Inr v \<Rightarrow> Inr (Some v)
      | Inl e \<Rightarrow> Inl (Msg (fmt [''parsing relay url '', u, '': '', e])))"
| "first_url parse_url _ = Inr None"

datatype Lookup = LookupNone | LookupResolve | LookupBoth

text \<open>What an endpoint's builder was told; the secret key is \<open>None\<close> for a throwaway one.\<close>

record 'sk endpoint =
  ep_relay :: RelayMode
  ep_bind :: "SocketAddr option"
  ep_secret :: "'sk option"
  ep_publishes :: bool
  ep_resolves :: bool
  ep_waits_online :: bool

text \<open>\<open>os_bind\<close> is iroh taking the socket (and rejecting a bind address).\<close>

definition bind ::
  "(string \<Rightarrow> string + string) \<Rightarrow> ('sk endpoint \<Rightarrow> unit result) \<Rightarrow>
    'sk option \<Rightarrow> RelayChoice \<Rightarrow> Lookup \<Rightarrow> SocketAddr option \<Rightarrow> 'sk endpoint result" where
  "bind parse_url os_bind secret relay lookup bind_addr =
     (case relay_mode parse_url relay of
        Inl e \<Rightarrow> Inl e
      | Inr mode \<Rightarrow>
          (let b = \<lparr>ep_relay = mode, ep_bind = bind_addr, ep_secret = secret,
                    ep_publishes = (lookup = LookupBoth), ep_resolves = (lookup \<noteq> LookupNone),
                    ep_waits_online = False\<rparr>
           in case with_context ''binding iroh endpoint'' (os_bind b) of
                Inl e \<Rightarrow> Inl e
              | Inr _ \<Rightarrow> Inr (b\<lparr>ep_waits_online := relay_enabled relay\<rparr>)))"

record 'k endpoint_addr =
  ea_id :: 'k
  ea_addrs :: "TransportAddr list"

text \<open>\<open>EndpointAddr\<close> holds a set of addresses; it is kept as a list without repetition.\<close>

definition with_addr :: "TransportAddr \<Rightarrow> 'k endpoint_addr \<Rightarrow> 'k endpoint_addr" where
  "with_addr a ea = (if a \<in> set (ea_addrs ea) then ea else ea\<lparr>ea_addrs := ea_addrs ea @ [a]\<rparr>)"

definition new_addr :: "'k \<Rightarrow> 'k endpoint_addr" where
  "new_addr k = \<lparr>ea_id = k, ea_addrs = []\<rparr>"

definition endpoint_addr :: "'k \<Rightarrow> SocketAddr list \<Rightarrow> string option \<Rightarrow> 'k endpoint_addr" where
  "endpoint_addr k direct relay =
     (let addr = fold (\<lambda>a. with_addr (TransportIp a)) direct (new_addr k)
      in case relay of Some url \<Rightarrow> with_addr (TransportRelay url) addr | None \<Rightarrow> addr)"

section \<open>Classifying a path\<close>

definition classify_ip :: "IpAddr \<Rightarrow> PathKind" where
  "classify_ip ip =
     (if is_loopback ip then DirectLocal
      else
        (let private =
           (case ip of
              V4 v4 \<Rightarrow> is_private4 v4 \<or> is_link_local4 v4 \<or> v4 = 0
            | V6 v6 \<Rightarrow>
                (octet6 0 v6 AND 0xfe) = 0xfc
                \<or> (octet6 0 v6 = 0xfe \<and> (octet6 1 v6 AND 0xc0) = 0x80) \<or> v6 = 0)
         in if private then DirectLan else DirectWan))"

fun classify :: "TransportAddr \<Rightarrow> PathKind" where
  "classify (TransportRelay u) = Relayed"
| "classify (TransportIp sa) = classify_ip (sock_ip sa)"
| "classify (TransportOther t) = Unknown"

fun describe :: "TransportAddr \<Rightarrow> string" where
  "describe (TransportIp sa) = show_SocketAddr sa"
| "describe (TransportRelay u) = u"
| "describe (TransportOther t) = t"

text \<open>A connection's open paths: whether iroh selected it, and its remote address.\<close>

type_synonym conn_paths = "(bool \<times> TransportAddr) list"

definition session_path :: "conn_paths \<Rightarrow> (PathKind \<times> string) option" where
  "session_path ps =
     map_option (\<lambda>(_, addr). (classify addr, describe addr)) (find fst ps)"

definition session_path_report :: "conn_paths \<Rightarrow> PathKind \<times> string" where
  "session_path_report ps =
     (case session_path ps of Some x \<Rightarrow> x | None \<Rightarrow> (Unknown, ''no open path''))"

text \<open>
  The watcher: \<open>ps\<close> is what the connection's paths are at each event, until the connection
  ends.  \<open>cap\<close> is how many changes the receiver takes before it is dropped (\<open>None\<close>: it is
  never dropped).  The result is the changes delivered.
\<close>

type_synonym path_change = "PathKind \<times> PathKind \<times> string"

fun watch :: "nat option \<Rightarrow> PathKind \<Rightarrow> conn_paths list \<Rightarrow> path_change list" where
  "watch cap last_kind [] = []"
| "watch cap last_kind (ps # events) =
     (case session_path_report ps of (now, remote) \<Rightarrow>
        if now \<noteq> last_kind
        then (if cap = Some 0 then []
              else (last_kind, now, remote) # watch (map_option (\<lambda>n. n - 1) cap) now events)
        else watch cap last_kind events)"

definition path_changes :: "nat option \<Rightarrow> conn_paths \<Rightarrow> conn_paths list \<Rightarrow> path_change list" where
  "path_changes cap start events = watch cap (fst (session_path_report start)) events"

section \<open>The probe\<close>

datatype ProbeMode = Discovery | Direct

definition PROBE_ALPN :: string where "PROBE_ALPN = ''egdod-probe/0''"
definition PROBE_PING :: string where "PROBE_PING = ''egdod-ping''"
definition PROBE_PONG :: string where "PROBE_PONG = ''egdod-alive''"

text \<open>
  What the network does to one probe: the outcome of dialling, the paths of the connection,
  the bytes of the answering stream, and whether the deadline passed first.
\<close>

record ('sk, 'k) probe_net =
  pn_bind :: "'sk endpoint \<Rightarrow> unit result"
  pn_connect :: "'sk endpoint \<Rightarrow> 'k endpoint_addr \<Rightarrow> string \<Rightarrow> conn_paths result"
  pn_open :: "sink result"
  pn_answer :: "bytes \<Rightarrow> reader"
  pn_late :: bool

definition probe_exchange ::
  "('sk, 'k) probe_net \<Rightarrow> 'sk endpoint \<Rightarrow> 'k endpoint_addr \<Rightarrow> PathKind result" where
  "probe_exchange net ep addr =
     (case with_context ''dialling self'' (pn_connect net ep addr PROBE_ALPN) of
        Inl e \<Rightarrow> Inl e
      | Inr ps \<Rightarrow>
          (case pn_open net of
             Inl e \<Rightarrow> Inl e
           | Inr s \<Rightarrow>
               (case send_all (as_bytes PROBE_PING) s of
                  (Inl e, s') \<Rightarrow> Inl e
                | (Inr _, s') \<Rightarrow>
                    (case send_ctl s' of
                       (Inl e, _) \<Rightarrow> Inl e
                     | (Inr _, s'') \<Rightarrow>
                         (case read_to_end (length PROBE_PONG) (pn_answer net (sent s'')) of
                            (Inl e, _) \<Rightarrow> Inl e
                          | (Inr pong, _) \<Rightarrow>
                              map_sum id (\<lambda>_. fst (session_path_report ps))
                                (ensure (pong = as_bytes PROBE_PONG) ''unexpected probe response''))))))"

definition probe ::
  "(string \<Rightarrow> string + string) \<Rightarrow> ('sk, 'k) probe_net \<Rightarrow>
    'k \<Rightarrow> ProbeMode \<Rightarrow> SocketAddr list \<Rightarrow> RelayChoice \<Rightarrow> string \<Rightarrow> PathKind result" where
  "probe parse_url net target mode direct relay timeout =
     (let lookup = (case mode of Discovery \<Rightarrow> LookupResolve | Direct \<Rightarrow> LookupNone)
      in case bind parse_url (pn_bind net) None relay lookup None of
           Inl e \<Rightarrow> Inl e
         | Inr ep \<Rightarrow>
             (let addr = (case mode of Discovery \<Rightarrow> new_addr target
                                     | Direct \<Rightarrow> endpoint_addr target direct None)
              in if pn_late net then Inl (Msg (fmt [''probe timed out after '', timeout]))
                 else probe_exchange net ep addr))"

section \<open>Classification is by address block\<close>

text \<open>Membership of an address in the block \<open>base/n\<close>.\<close>

definition in_block4 :: "nat \<Rightarrow> nat \<Rightarrow> u32 \<Rightarrow> bool" where
  "in_block4 base n v \<longleftrightarrow> unat v div 2 ^ (32 - n) = base div 2 ^ (32 - n)"

definition in_block6 :: "nat \<Rightarrow> nat \<Rightarrow> 128 word \<Rightarrow> bool" where
  "in_block6 base n v \<longleftrightarrow> unat v div 2 ^ (128 - n) = base div 2 ^ (128 - n)"

lemma high16_split:
  fixes h :: nat
  shows "h div 256 = 172 \<and> 16 \<le> h mod 256 \<and> h mod 256 \<le> 31 \<longleftrightarrow> h div 16 = 2753"
    and "h div 256 = 192 \<and> h mod 256 = 168 \<longleftrightarrow> h = 49320"
    and "h div 256 = 169 \<and> h mod 256 = 254 \<longleftrightarrow> h = 43518"
proof -
  have eq: "h = h div 256 * 256 + h mod 256" by simp
  have lt: "h mod 256 < 256" by simp
  have "h div 256 = 192 \<Longrightarrow> h mod 256 = 168 \<Longrightarrow> h = 49320"
    and "h div 256 = 169 \<Longrightarrow> h mod 256 = 254 \<Longrightarrow> h = 43518"
    using eq by linarith+
  then show "h div 256 = 192 \<and> h mod 256 = 168 \<longleftrightarrow> h = 49320"
    "h div 256 = 169 \<and> h mod 256 = 254 \<longleftrightarrow> h = 43518" by auto
  have "h div 16 = 2753 \<longleftrightarrow> 44048 \<le> h \<and> h < 44064"
    by linarith
  moreover have "h div 256 = 172 \<longleftrightarrow> 44032 \<le> h \<and> h < 44288" by linarith
  ultimately show "h div 256 = 172 \<and> 16 \<le> h mod 256 \<and> h mod 256 \<le> 31 \<longleftrightarrow> h div 16 = 2753"
    using eq lt by linarith
qed

lemma octet4_high:
  "octet4 0 v = unat v div 65536 div 256" "octet4 1 v = unat v div 65536 mod 256"
proof -
  have "unat v < 4294967296" using unsigned_less [of v, where ?'a = nat] by simp
  then have "unat v div 65536 div 256 < 256" by (simp flip: div_mult2_eq)
  then show "octet4 0 v = unat v div 65536 div 256"
    by (simp add: octet4_def flip: div_mult2_eq)
qed (simp add: octet4_def)

lemma is_private4_blocks:
  "is_private4 v \<longleftrightarrow> in_block4 0x0a000000 8 v \<or> in_block4 0xac100000 12 v \<or> in_block4 0xc0a80000 16 v"
  unfolding is_private4_def octet4_high high16_split(1,2) in_block4_def
  by (simp flip: div_mult2_eq)

lemma is_link_local4_block: "is_link_local4 v \<longleftrightarrow> in_block4 0xa9fe0000 16 v"
  unfolding is_link_local4_def octet4_high high16_split(3) in_block4_def by simp

lemma all8: "(\<forall>n<8. P n) \<longleftrightarrow> P 0 \<and> P 1 \<and> P 2 \<and> P 3 \<and> P 4 \<and> P 5 \<and> P 6 \<and> P (7::nat)"
  by (simp add: numeral_eq_Suc less_Suc_eq) blast

lemma u8_eq: "a = b \<longleftrightarrow> (\<forall>n<8. bit a n = bit (b :: u8) n)"
  by (auto simp: bit_eq_iff bit_simps)

lemma u8_high: "8 \<le> n \<Longrightarrow> \<not> bit (a :: u8) n"
  using bit_imp_le_length [of a n] by auto

lemma and_0xfe: "(a AND 0xfe :: u8) = 0xfc \<longleftrightarrow> drop_bit 1 a = 126"
  unfolding u8_eq all8 by (simp add: bit_simps u8_high) (simp add: numeral_eq_Suc)

lemma and_0xc0: "(a AND 0xc0 :: u8) = 0x80 \<longleftrightarrow> drop_bit 6 a = 2"
  unfolding u8_eq all8 by (simp add: bit_simps u8_high)

lemma byte_masks:
  "(a AND 0xfe :: u8) = 0xfc \<longleftrightarrow> unat a div 2 = 126"
  "(b AND 0xc0 :: u8) = 0x80 \<longleftrightarrow> unat b div 64 = 2"
  unfolding and_0xfe and_0xc0 by (simp_all add: word_unat_eq_iff unat_div drop_bit_eq_div)

lemma octet6_high:
  "unat (octet6 0 v) div 2 = unat v div 2 ^ 121"
  "octet6 0 v = 0xfe \<and> unat (octet6 1 v) div 64 = 2 \<longleftrightarrow> unat v div 2 ^ 118 = 1018"
proof -
  have "unat v < 2 ^ 112 * 65536" using unsigned_less [of v, where ?'a = nat] by simp
  then have lt: "unat v div 2 ^ 112 < 65536" by (simp add: div_less_iff_less_mult)
  define h where "h = unat v div 2 ^ 112"
  have h: "h < 65536" using lt by (simp add: h_def)
  have pow: "unat v div 2 ^ 120 = h div 256" "unat v div 2 ^ 121 = h div 512" "unat v div 2 ^ 118 = h div 64"
    by (simp_all add: h_def flip: div_mult2_eq)
  have o0: "unat (octet6 0 v) = h div 256"
    using h pow(1) by (simp add: octet6_def unat_u8_of_nat)
  have o1: "unat (octet6 1 v) = h mod 256"
    by (simp add: octet6_def unat_u8_of_nat h_def)
  show "unat (octet6 0 v) div 2 = unat v div 2 ^ 121"
    unfolding o0 pow(2) by (simp flip: div_mult2_eq)
  have "octet6 0 v = 0xfe \<longleftrightarrow> h div 256 = 254"
    using o0 by (simp add: word_unat_eq_iff)
  moreover have "h div 256 = 254 \<and> h mod 256 div 64 = 2 \<longleftrightarrow> h div 64 = 1018"
  proof -
    have "h = h div 256 * 256 + h mod 256" "h mod 256 < 256" by simp_all
    moreover have "h mod 256 div 64 = 2 \<longleftrightarrow> 128 \<le> h mod 256 \<and> h mod 256 < 192" by linarith
    moreover have "h div 256 = 254 \<longleftrightarrow> 65024 \<le> h \<and> h < 65280" by linarith
    moreover have "h div 64 = 1018 \<longleftrightarrow> 65152 \<le> h \<and> h < 65216" by linarith
    ultimately show ?thesis by linarith
  qed
  ultimately show "octet6 0 v = 0xfe \<and> unat (octet6 1 v) div 64 = 2 \<longleftrightarrow> unat v div 2 ^ 118 = 1018"
    unfolding o1 pow(3) by blast
qed

text \<open>A direct path is labelled by the published address blocks and nothing else:
  loopback (127.0.0.0/8, ::1) is local; 10.0.0.0/8, 172.16.0.0/12, 192.168.0.0/16,
  169.254.0.0/16, fc00::/7, fe80::/10 and the unspecified address are LAN; every other
  address is WAN.\<close>

theorem classify_ip_blocks:
  "classify_ip (V4 v) =
     (if in_block4 0x7f000000 8 v then DirectLocal
      else if in_block4 0x0a000000 8 v \<or> in_block4 0xac100000 12 v \<or> in_block4 0xc0a80000 16 v
              \<or> in_block4 0xa9fe0000 16 v \<or> v = 0 then DirectLan else DirectWan)
   \<and> classify_ip (V6 u) =
     (if u = 1 then DirectLocal
      else if in_block6 (0xfc * 2 ^ 120) 7 u \<or> in_block6 (0xfe80 * 2 ^ 112) 10 u \<or> u = 0
           then DirectLan else DirectWan)"
proof
  have "octet4 0 v = 127 \<longleftrightarrow> in_block4 0x7f000000 8 v"
    by (simp add: octet4_high in_block4_def flip: div_mult2_eq)
  then show "classify_ip (V4 v) =
     (if in_block4 0x7f000000 8 v then DirectLocal
      else if in_block4 0x0a000000 8 v \<or> in_block4 0xac100000 12 v \<or> in_block4 0xc0a80000 16 v
              \<or> in_block4 0xa9fe0000 16 v \<or> v = 0 then DirectLan else DirectWan)"
    by (simp add: classify_ip_def is_private4_blocks is_link_local4_block)
  have "in_block6 (0xfc * 2 ^ 120) 7 u \<longleftrightarrow> unat u div 2 ^ 121 = 126"
    and "in_block6 (0xfe80 * 2 ^ 112) 10 u \<longleftrightarrow> unat u div 2 ^ 118 = 1018"
    by (simp_all add: in_block6_def)
  then show "classify_ip (V6 u) =
     (if u = 1 then DirectLocal
      else if in_block6 (0xfc * 2 ^ 120) 7 u \<or> in_block6 (0xfe80 * 2 ^ 112) 10 u \<or> u = 0
           then DirectLan else DirectWan)"
    unfolding classify_ip_def is_loopback.simps IpAddr.case byte_masks octet6_high Let_def
    by (simp only:)
qed

section \<open>A relayed session never reports as direct\<close>

text \<open>C32. A session is reported as direct only when the path that carries its data is a UDP
  path to that address; a relayed or unidentified selected path, or none, is never rounded up,
  whatever other paths are open.\<close>

theorem session_path_honest:
  assumes "session_path_report ps = (kind, remote)" and "kind \<noteq> Relayed" and "kind \<noteq> Unknown"
  shows "\<exists>before sa after. ps = before @ (True, TransportIp sa) # after \<and> (\<forall>p \<in> set before. \<not> fst p)
    \<and> kind = classify_ip (sock_ip sa) \<and> remote = show_SocketAddr sa"
proof -
  from assms obtain p where p: "find fst ps = Some p" and k: "kind = classify (snd p)" "remote = describe (snd p)"
    by (auto simp: session_path_report_def session_path_def split: option.splits)
  from p obtain i where i: "i < length ps" "fst (ps ! i)" "p = ps ! i" "\<forall>j < i. \<not> fst (ps ! j)"
    by (auto simp: find_Some_iff)
  from assms(2,3) k obtain sa where "snd p = TransportIp sa" by (cases "snd p") auto
  with i k have "ps = take i ps @ (True, TransportIp sa) # drop (Suc i) ps"
    by (metis id_take_nth_drop prod.collapse)
  moreover have "\<forall>p \<in> set (take i ps). \<not> fst p"
    using i(1,4) by (metis in_set_conv_nth length_take min_less_iff_conj nth_take)
  ultimately show ?thesis
    using k \<open>snd p = TransportIp sa\<close> by auto
qed

theorem session_path_honest_witness:
  "\<exists>before sa after. [(False, TransportIp (SocketV4 1 2)), (True, TransportIp (SocketV4 0x7f000001 9))]
     = before @ (True, TransportIp sa) # after"
  using session_path_honest
    [of "[(False, TransportIp (SocketV4 1 2)), (True, TransportIp (SocketV4 0x7f000001 9))]" DirectLocal
      "show_SocketAddr (SocketV4 0x7f000001 9)"]
  by (auto simp: session_path_report_def session_path_def classify_ip_def octet4_def)

section \<open>Watching a path\<close>

text \<open>Each change starts where the previous one ended and is a change.\<close>

fun chained :: "PathKind \<Rightarrow> path_change list \<Rightarrow> bool" where
  "chained k [] = True"
| "chained k ((was, now, remote) # cs) = (was = k \<and> now \<noteq> k \<and> chained now cs)"

fun ends_at :: "PathKind \<Rightarrow> path_change list \<Rightarrow> PathKind" where
  "ends_at k [] = k"
| "ends_at k ((was, now, remote) # cs) = ends_at now cs"

lemma watch_chained: "chained k (watch cap k events)"
  by (induction cap k events rule: watch.induct) (auto split: prod.splits)

lemma watch_ends_at:
  "ends_at k (watch None k events) = (if events = [] then k else fst (session_path_report (last events)))"
proof (induction events arbitrary: k)
  case (Cons ps events)
  then show ?case by (cases "session_path_report ps") auto
qed simp

lemma watch_reports:
  "(was, now, remote) \<in> set (watch cap k events) \<Longrightarrow> \<exists>ps \<in> set events. session_path_report ps = (now, remote)"
  by (induction cap k events rule: watch.induct) (auto split: prod.splits if_splits)

text \<open>The watcher's changes tell the whole story: each one starts from the label the
  previous one ended with and really is a change, each is what the connection's selected path
  was at some event, and following them from the first label leads to the label of the path in
  use at the last event, so a session never keeps a stale label.\<close>

theorem path_changes_track:
  "chained (fst (session_path_report start)) (path_changes cap start events)
   \<and> set (map snd (path_changes cap start events)) \<subseteq> set (map session_path_report events)
   \<and> ends_at (fst (session_path_report start)) (path_changes None start events)
       = fst (session_path_report (last (start # events)))"
  using watch_reports [of _ _ _ cap "fst (session_path_report start)" events]
  by (auto simp: path_changes_def watch_chained watch_ends_at) (metis image_eqI)

section \<open>The probe\<close>

lemma ea_id_with_addr [simp]: "ea_id (with_addr a ea) = ea_id ea"
  by (simp add: with_addr_def)

lemma ea_id_fold [simp]: "ea_id (fold (\<lambda>a. with_addr (TransportIp a)) as ea) = ea_id ea"
  by (induction as arbitrary: ea) auto

lemma ea_id_endpoint_addr [simp]: "ea_id (endpoint_addr k direct relay) = k"
  by (simp add: endpoint_addr_def new_addr_def Let_def split: option.split)

lemma read_to_end_Inr: "read_to_end n r = (Inr b, r') \<Longrightarrow> b = arriving r \<and> broken r = None \<and> length b \<le> n"
  by (auto simp: read_to_end_def split: if_splits option.splits)

text \<open>The probe vouches for the controller only as a stranger would find it: it succeeds
  only if an endpoint with no key of its own and publishing nothing, dialling by node id (and
  in discovery mode by nothing else, with lookup on), got the complete pong and nothing more
  before the deadline.\<close>

theorem probe_honest:
  assumes "probe parse_url net target mode direct relay timeout = Inr kind"
  shows "\<exists>ep addr ps s. pn_connect net ep addr PROBE_ALPN = Inr ps \<and> pn_open net = Inr s
    \<and> ep_secret ep = None \<and> \<not> ep_publishes ep \<and> ep_resolves ep = (mode = Discovery)
    \<and> ea_id addr = target \<and> (mode = Discovery \<longrightarrow> ea_addrs addr = [])
    \<and> arriving (pn_answer net (sent s @ as_bytes PROBE_PING)) = as_bytes PROBE_PONG
    \<and> broken (pn_answer net (sent s @ as_bytes PROBE_PING)) = None
    \<and> kind = fst (session_path_report ps) \<and> \<not> pn_late net"
proof -
  from assms obtain ep where ep: "bind parse_url (pn_bind net) None relay
      (case mode of Discovery \<Rightarrow> LookupResolve | Direct \<Rightarrow> LookupNone) None = Inr ep" and
    late: "\<not> pn_late net" and
    ex: "probe_exchange net ep (case mode of Discovery \<Rightarrow> new_addr target
      | Direct \<Rightarrow> endpoint_addr target direct None) = Inr kind"
    by (auto simp: probe_def Let_def split: sum.splits if_splits)
  from ep have e: "ep_secret ep = None" "\<not> ep_publishes ep" "ep_resolves ep = (mode = Discovery)"
    by (cases mode; auto simp: bind_def Let_def split: sum.splits)+
  let ?addr = "case mode of Discovery \<Rightarrow> new_addr target | Direct \<Rightarrow> endpoint_addr target direct None"
  have a: "ea_id ?addr = target" "mode = Discovery \<Longrightarrow> ea_addrs ?addr = []"
    by (cases mode; simp add: new_addr_def)+
  from ex obtain ps s s1 s2 b r' where c: "pn_connect net ep ?addr PROBE_ALPN = Inr ps" "pn_open net = Inr s"
    and s: "send_all (as_bytes PROBE_PING) s = (Inr (), s1)" "send_ctl s1 = (Inr (), s2)"
    and r: "read_to_end (length PROBE_PONG) (pn_answer net (sent s2)) = (Inr b, r')" "b = as_bytes PROBE_PONG"
    and k: "kind = fst (session_path_report ps)"
    by (auto simp: probe_exchange_def ensure_def split: sum.splits prod.splits if_splits)
  have "sent s2 = sent s @ as_bytes PROBE_PING" using send_all_Inr [OF s(1)] send_ctl_Inr [OF s(2)] by simp
  with c r(2) k e a late read_to_end_Inr [OF r(1)] show ?thesis
    by (intro exI [of _ ep] exI [of _ ?addr] exI [of _ ps] exI [of _ s]) simp
qed

theorem probe_honest_witness:
  "\<exists>ep addr. ep_secret (ep :: unit endpoint) = None \<and> ep_resolves ep
     \<and> ea_id (addr :: nat endpoint_addr) = 7 \<and> ea_addrs addr = []"
proof -
  let ?net = "\<lparr>pn_bind = (\<lambda>_. Inr ()), pn_connect = (\<lambda>_ _ _. Inr []), pn_open = Inr fresh_sink,
    pn_answer = (\<lambda>_. reader_of (as_bytes PROBE_PONG)), pn_late = False\<rparr> :: (unit, nat) probe_net"
  have "probe Inr ?net 7 Discovery [] Disabled ''20s'' = Inr Unknown"
    by (simp add: probe_def probe_exchange_def bind_def send_all_def send_ctl_def fresh_sink_def read_to_end_def
        session_path_report_def session_path_def)
  from probe_honest [OF this] show ?thesis by auto
qed

text \<open>An IPv4 address written as an IPv4-mapped IPv6 one is not recognised: the private
  address 10.0.0.1 in mapped form is labelled as globally routable.\<close>

theorem mapped_private_is_wan:
  "classify_ip (V6 0xffff0a000001) = DirectWan \<and> classify_ip (V4 0x0a000001) = DirectLan"
  by (simp add: classify_ip_def octet6_def octet4_def is_private4_def)

end
