(* ===== verification/Atomic_File.thy ===== *)
theory Atomic_File
  imports Fs
begin

text \<open>
  Replacing a file by writing a staging file and renaming it over the original, as
  \<open>src/state.rs\<close> does for its state (\<open>write_atomic\<close>) and for keys (\<open>write_private\<close>).

  The locale \<open>atomic_replace\<close> is the contract every user of such a routine relies on: the
  file has, at every moment, either its old node or the complete new content.  The two
  routines here and \<open>ble.rs\<close>'s \<open>install\<close> are interpretations of it.
\<close>

section \<open>The contract\<close>

definition contents :: "nodemap \<Rightarrow> path \<Rightarrow> bytes option" where
  "contents m p = (case m p of Some (File c _) \<Rightarrow> Some c | _ \<Rightarrow> None)"

locale atomic_replace =
  fixes replace :: "path \<Rightarrow> bytes \<Rightarrow> (world, unit) io"
    and stage :: "world \<Rightarrow> path \<Rightarrow> path"
    and ready :: "world \<Rightarrow> path \<Rightarrow> bool"
  assumes stage_apart: "ready w p \<Longrightarrow> stage w p \<noteq> p"
    and replace_frame: "ready w p \<Longrightarrow> replace p b w = (x, w') \<Longrightarrow> touches {stage w p, p} w w'"
    and replace_ready: "ready w p \<Longrightarrow> replace p b w = (x, w') \<Longrightarrow> ready w' p"
    and replace_success: "ready w p \<Longrightarrow> replace p b w = (Inr (), w') \<Longrightarrow> contents (nodes w') p = Some b"
    and replace_failure: "ready w p \<Longrightarrow> replace p b w = (Inl e, w') \<Longrightarrow> nodes w' p = nodes w p"
    and replace_atomic: "ready w p \<Longrightarrow> replace p b w = (x, w') \<Longrightarrow> m \<in> observed w w' \<Longrightarrow>
      m p = nodes w p \<or> contents m p = Some b"
begin

text \<open>A run of replacements by one process, carrying on after failures; the result is the
  content of the last one that succeeded.\<close>

fun replaces :: "path \<Rightarrow> bytes list \<Rightarrow> world \<Rightarrow> bytes option \<times> world" where
  "replaces p [] w = (None, w)"
| "replaces p (b # bs) w =
     (case replace p b w of (x, w1) \<Rightarrow>
      case replaces p bs w1 of (later, w2) \<Rightarrow>
        (case later of Some c \<Rightarrow> Some c | None \<Rightarrow> (case x of Inr _ \<Rightarrow> Some b | Inl _ \<Rightarrow> None), w2))"

lemma replaces_touches:
  "ready w p \<Longrightarrow> replaces p bs w = (l, w') \<Longrightarrow> touches UNIV w w'"
proof (induction bs arbitrary: w l)
  case (Cons b bs)
  obtain x w1 l2 where r: "replace p b w = (x, w1)" "replaces p bs w1 = (l2, w')"
    using Cons.prems(2) by (auto split: prod.splits)
  have "touches UNIV w w1" using touches_mono [OF replace_frame [OF Cons.prems(1) r(1)]] by simp
  with Cons.IH [OF replace_ready [OF Cons.prems(1) r(1)] r(2)] show ?case by (rule touches_trans [rotated])
qed simp

theorem replaces_observed:
  assumes "ready w p" and "replaces p bs w = (l, w')" and "m \<in> observed w w'"
  shows "m p = nodes w p \<or> (\<exists>b \<in> set bs. contents m p = Some b)"
  using assms
proof (induction bs arbitrary: w l)
  case (Cons b bs)
  obtain x w1 l2 where r: "replace p b w = (x, w1)" "replaces p bs w1 = (l2, w')"
    using Cons.prems(2) by (auto split: prod.splits)
  note ready1 = replace_ready [OF Cons.prems(1) r(1)]
  have w1: "nodes w1 p = nodes w p \<or> contents (nodes w1) p = Some b"
    using replace_success [OF Cons.prems(1), of b w1] replace_failure [OF Cons.prems(1), of b _ w1] r(1)
    by (cases x) auto
  from Cons.prems(3) observed_trans [OF replace_frame [OF Cons.prems(1) r(1)] replaces_touches [OF ready1 r(2)]]
  consider "m \<in> observed w w1" | "m \<in> observed w1 w'" by blast
  then show ?case
  proof cases
    case 1
    then show ?thesis using replace_atomic [OF Cons.prems(1) r(1)] by auto
  next
    case 2
    with Cons.IH [OF ready1 r(2)] w1 show ?thesis by (auto simp: contents_def)
  qed
qed simp

theorem replaces_last:
  assumes "ready w p" and "replaces p bs w = (l, w')"
  shows "case l of Some c \<Rightarrow> contents (nodes w') p = Some c | None \<Rightarrow> nodes w' p = nodes w p"
  using assms
proof (induction bs arbitrary: w l)
  case (Cons b bs)
  obtain x w1 l2 where r: "replace p b w = (x, w1)" "replaces p bs w1 = (l2, w')"
    and l: "l = (case l2 of Some c \<Rightarrow> Some c | None \<Rightarrow> (case x of Inr _ \<Rightarrow> Some b | Inl _ \<Rightarrow> None))"
    using Cons.prems(2) by (auto split: prod.splits)
  from Cons.IH [OF replace_ready [OF Cons.prems(1) r(1)] r(2)]
    replace_success [OF Cons.prems(1), of b w1] replace_failure [OF Cons.prems(1), of b _ w1] r(1) l
  show ?case by (cases l2; cases x) (auto simp: contents_def)
qed simp

text \<open>What was written is what the next reader that succeeds reads.\<close>

theorem read_back:
  assumes "ready w p" and "replace p b w = (Inr (), w')" and "read_bytes p w' = (Inr c, w'')"
  shows "c = b"
proof -
  obtain k where "nodes w' p = Some (File b k)"
    using replace_success [OF assms(1,2)] by (auto simp: contents_def split: option.splits node.splits)
  with assms(3) follow_self [of "nodes w'" p] show ?thesis
    by (auto simp: read_bytes_def fs_call_def split: option.splits)
qed

end

section \<open>Staging and renaming\<close>

lemma stage_rename:
  assumes "touches {tmp} w w1" and "nodes w1 tmp = Some (File b k)" and "tmp \<noteq> p"
    and "rename tmp p w1 = (x, w')"
  shows "touches {tmp, p} w w'"
    and "x = Inr () \<Longrightarrow> contents (nodes w') p = Some b \<and> nodes w' tmp = None"
    and "x = Inl e \<Longrightarrow> nodes w' p = nodes w p \<and> nodes w' tmp = nodes w1 tmp"
    and "m \<in> observed w w' \<Longrightarrow> m p = nodes w p \<or> contents m p = Some b"
proof -
  have t: "touches {tmp, p} w1 w'" using io_respectsD [OF rename_touches assms(4)] by simp
  have t1: "touches {tmp, p} w w1" using touches_mono [OF assms(1)] by blast
  from t1 t show "touches {tmp, p} w w'" by (rule touches_trans)
  have p1: "nodes w1 p = nodes w p" using touches_nodes [OF assms(1)] assms(3) by simp
  show "x = Inr () \<Longrightarrow> contents (nodes w') p = Some b \<and> nodes w' tmp = None"
    using assms(2-4) by (auto simp: contents_def elim!: rename_Inr)
  show "x = Inl e \<Longrightarrow> nodes w' p = nodes w p \<and> nodes w' tmp = nodes w1 tmp"
    using assms(4) p1 by (auto dest!: rename_Inl)
  assume "m \<in> observed w w'"
  with observed_trans [OF t1 t] consider "m \<in> observed w w1" | "m \<in> observed w1 w'" by blast
  then show "m p = nodes w p \<or> contents m p = Some b"
  proof cases
    case 1
    then show ?thesis using touches_observed [OF assms(1)] assms(3) by simp
  next
    case 2
    then show ?thesis
      using assms(2-4) by (cases x) (auto simp: contents_def observed_def dest!: rename_Inl elim!: rename_Inr)
  qed
qed

section \<open>The routines\<close>

definition unique_tmp :: "u32 \<Rightarrow> path \<Rightarrow> path" where
  "unique_tmp my_pid p =
     with_file_name p
       ((case file_name p of Some n \<Rightarrow> n | None \<Rightarrow> []) @ ''.tmp.'' @ dec (unat my_pid))"

definition write_atomic :: "path \<Rightarrow> bytes \<Rightarrow> (world, unit) io" where
  "write_atomic p body w =
     (let tmp = unique_tmp (pid w) p in
      io_bind (io_context (fmt [''writing '', show_path tmp]) (fs_write tmp body)) (\<lambda>_.
      io_context (fmt [''renaming into '', show_path p]) (rename tmp p)) w)"

definition write_private :: "path \<Rightarrow> bytes \<Rightarrow> (world, unit) io" where
  "write_private p b w =
     (let tmp = unique_tmp (pid w) p in
      io_bind (io_context (fmt [''creating '', show_path tmp]) (create_new tmp 384)) (\<lambda>_.
      io_bind (io_context ''writing key'' (write_all tmp b)) (\<lambda>_.
      io_bind (io_context ''flushing key'' (handle_call ())) (\<lambda>_.
      io_context (fmt [''renaming into '', show_path p]) (rename tmp p)))) w)"

lemma unique_tmp_apart: "file_name p \<noteq> None \<Longrightarrow> unique_tmp n p \<noteq> p"
  by (auto simp: unique_tmp_def file_name_Some_iff with_file_name_eq)

text \<open>The staging name of a process is ready when it is not a symbolic link planted there.\<close>

definition stage_clear :: "world \<Rightarrow> path \<Rightarrow> bool" where
  "stage_clear w p \<longleftrightarrow> file_name p \<noteq> None
     \<and> (case nodes w (unique_tmp (pid w) p) of Some (Symlink _) \<Rightarrow> False | _ \<Rightarrow> True)"

text \<open>One run of such a routine: it stops while still staging, or it stages the whole content
  and renames, and after a failed rename it may still clean up its staging file.\<close>

definition staged_run :: "path \<Rightarrow> path \<Rightarrow> bytes \<Rightarrow> world \<Rightarrow> unit result \<Rightarrow> world \<Rightarrow> bool" where
  "staged_run tmp p b w x w' \<longleftrightarrow>
     (isl x \<and> touches {tmp} w w')
     \<or> (\<exists>w1 k y w2. touches {tmp} w w1 \<and> nodes w1 tmp = Some (File b k) \<and> rename tmp p w1 = (y, w2)
          \<and> (isl x \<longleftrightarrow> isl y) \<and> (if isl y then touches {tmp} w2 w' else w' = w2))"

lemma isl_unit: "\<not> isl x \<longleftrightarrow> x = Inr ()" for x :: "'e + unit"
  by (cases x) auto

lemma staged_run_laws:
  assumes "staged_run tmp p b w x w'" and "tmp \<noteq> p"
  shows "touches {tmp, p} w w'"
    and "x = Inr () \<Longrightarrow> contents (nodes w') p = Some b"
    and "isl x \<Longrightarrow> nodes w' p = nodes w p"
    and "m \<in> observed w w' \<Longrightarrow> m p = nodes w p \<or> contents m p = Some b"
proof -
  have "touches {tmp, p} w w' \<and> (x = Inr () \<longrightarrow> contents (nodes w') p = Some b)
    \<and> (isl x \<longrightarrow> nodes w' p = nodes w p)
    \<and> (\<forall>m \<in> observed w w'. m p = nodes w p \<or> contents m p = Some b)"
    using assms(1) unfolding staged_run_def
  proof (elim disjE conjE exE)
    assume *: "isl x" "touches {tmp} w w'"
    then show ?thesis
      using touches_mono [OF *(2), of "{tmp, p}"] touches_nodes [OF *(2), of p]
        touches_observed [OF *(2), of _ p] assms(2) by auto
  next
    fix w1 k y w2
    assume 1: "touches {tmp} w w1" "nodes w1 tmp = Some (File b k)" and 2: "rename tmp p w1 = (y, w2)"
      and x: "isl x \<longleftrightarrow> isl y" and 3: "if isl y then touches {tmp} w2 w' else w' = w2"
    note r = stage_rename [OF 1 assms(2) 2]
    have t3: "touches {tmp} w2 w'" using 3 by (cases y) auto
    have "touches {tmp, p} w w'" using r(1) touches_mono [OF t3] by (blast intro: touches_trans)
    moreover have "x = Inr () \<Longrightarrow> contents (nodes w') p = Some b"
      using r(2) x 3 by (cases y) auto
    moreover have n2: "isl x \<Longrightarrow> nodes w2 p = nodes w p" using r(3) x by (cases y) auto
    moreover have "isl x \<Longrightarrow> nodes w' p = nodes w p"
      using n2 touches_nodes [OF t3, of p] assms(2) by simp
    moreover have "m p = nodes w p \<or> contents m p = Some b" if m: "m \<in> observed w w'" for m
    proof (cases "m \<in> observed w w2")
      case True
      then show ?thesis by (rule r(4))
    next
      case False
      with m observed_trans [OF r(1) t3] have m2: "m \<in> observed w2 w'" by blast
      show ?thesis
      proof (cases y)
        case (Inl e)
        with x n2 touches_observed [OF t3 m2, of p] assms(2) show ?thesis by simp
      next
        case (Inr u)
        with 3 m2 show ?thesis by simp
      qed
    qed
    ultimately show ?thesis by blast
  qed
  then show "touches {tmp, p} w w'" "x = Inr () \<Longrightarrow> contents (nodes w') p = Some b"
    "isl x \<Longrightarrow> nodes w' p = nodes w p" "m \<in> observed w w' \<Longrightarrow> m p = nodes w p \<or> contents m p = Some b"
    by auto
qed

lemma isl_with_context [simp]: "isl (with_context c r) = isl r"
  by (cases r) auto

lemma write_atomic_staged:
  assumes "write_atomic p b w = (x, w')" and "stage_clear w p"
  shows "staged_run (unique_tmp (pid w) p) p b w x w'"
    and "nodes w' (unique_tmp (pid w) p) \<noteq> Some (Symlink z)"
proof -
  let ?tmp = "unique_tmp (pid w) p"
  have clear: "nodes w ?tmp \<noteq> Some (Symlink z)" for z
    using assms(2) by (auto simp: stage_clear_def)
  have apart: "?tmp \<noteq> p" using assms(2) by (simp add: stage_clear_def unique_tmp_apart)
  obtain y w1 where wr: "fs_write ?tmp b w = (y, w1)" by (metis prod.exhaust)
  note f = fs_write_result [OF wr clear]
  have "staged_run ?tmp p b w x w' \<and> nodes w' ?tmp \<noteq> Some (Symlink z)"
  proof (cases y)
    case (Inl e)
    with assms(1) wr f show ?thesis
      by (auto simp: write_atomic_def io_bind_def io_context_def staged_run_def)
  next
    case (Inr u)
    obtain v w2 where rn: "rename ?tmp p w1 = (v, w2)" by (metis prod.exhaust)
    with assms(1) wr Inr have x: "x = with_context (fmt [''renaming into '', show_path p]) v" "w' = w2"
      by (auto simp: write_atomic_def io_bind_def io_context_def)
    from f(2) Inr obtain k where k: "nodes w1 ?tmp = Some (File b k)" by auto
    with f(1) rn x have "staged_run ?tmp p b w x w'" by (auto simp: staged_run_def)
    moreover have "nodes w' ?tmp \<noteq> Some (Symlink z)"
      using rn x k apart by (cases v) (auto dest!: rename_Inl elim!: rename_Inr)
    ultimately show ?thesis by blast
  qed
  then show "staged_run ?tmp p b w x w'" "nodes w' ?tmp \<noteq> Some (Symlink z)" by blast+
qed

interpretation state_file: atomic_replace write_atomic "\<lambda>w. unique_tmp (pid w)" stage_clear
proof
  fix w p b x w' e m
  show apart: "stage_clear w p \<Longrightarrow> unique_tmp (pid w) p \<noteq> p"
    by (simp add: stage_clear_def unique_tmp_apart)
  show frame: "stage_clear w p \<Longrightarrow> write_atomic p b w = (x, w') \<Longrightarrow> touches {unique_tmp (pid w) p, p} w w'"
    using staged_run_laws(1) [OF write_atomic_staged(1)] apart by blast
  show "stage_clear w p \<Longrightarrow> write_atomic p b w = (x, w') \<Longrightarrow> stage_clear w' p"
    using write_atomic_staged(2) [of p b w x w'] touches_env(4) [OF frame]
    by (fastforce simp: stage_clear_def split: option.splits node.splits)
  show "stage_clear w p \<Longrightarrow> write_atomic p b w = (Inr (), w') \<Longrightarrow> contents (nodes w') p = Some b"
    using staged_run_laws(2) [OF write_atomic_staged(1)] apart by blast
  show "stage_clear w p \<Longrightarrow> write_atomic p b w = (Inl e, w') \<Longrightarrow> nodes w' p = nodes w p"
    using staged_run_laws(3) [OF write_atomic_staged(1)] apart by (metis sum.disc(1))
  show "stage_clear w p \<Longrightarrow> write_atomic p b w = (x, w') \<Longrightarrow> m \<in> observed w w' \<Longrightarrow>
      m p = nodes w p \<or> contents m p = Some b"
    using staged_run_laws(4) [OF write_atomic_staged(1)] apart by blast
qed

text \<open>The middle of the routines that stage a private file: fill it, flush it, rename it.\<close>

definition fill_and_rename :: "string \<Rightarrow> string \<Rightarrow> string \<Rightarrow> path \<Rightarrow> path \<Rightarrow> bytes \<Rightarrow> (world, unit) io" where
  "fill_and_rename writing flushing renaming tmp p b =
     io_bind (io_context writing (write_all tmp b)) (\<lambda>_.
     io_bind (io_context flushing (handle_call ())) (\<lambda>_.
     io_context renaming (rename tmp p)))"

lemma fill_and_rename_staged:
  assumes "create_new tmp 384 w = (Inr (), w1)" and "fill_and_rename u v n tmp p b w1 = (x, w')"
  shows "staged_run tmp p b w x w'"
proof -
  have t1: "touches {tmp} w w1" using io_respectsD [OF create_new_touches assms(1)] by simp
  have n1: "nodes w1 tmp = Some (File [] (and 384 (not (umask w))))" using create_new_Inr(2) [OF assms(1)] by simp
  obtain y w2 where wr: "write_all tmp b w1 = (y, w2)" by (metis prod.exhaust)
  have "touches {tmp} w1 w2" using io_respectsD [OF write_all_touches wr] by simp
  then have t2: "touches {tmp} w w2" using t1 touches_trans by blast
  obtain s w3 where sy: "handle_call () w2 = (s, w3)" by (metis prod.exhaust)
  then have w3: "w3 = next_tick w2" by (rule handle_call_world)
  then have t3: "touches {tmp} w w3" using t2 touches_trans [OF _ touches_next_tick] by blast
  obtain z w4 where rn: "rename tmp p w3 = (z, w4)" by (metis prod.exhaust)
  consider "isl y" | "y = Inr ()" "isl s" | "y = Inr ()" "s = Inr ()" using isl_unit by blast
  then show ?thesis
  proof cases
    case 1
    with assms(2) wr t2 show ?thesis by (cases y) (auto simp: fill_and_rename_def io_bind_def io_context_def staged_run_def)
  next
    case 2
    with assms(2) wr sy t3 show ?thesis
      by (cases s) (auto simp: fill_and_rename_def io_bind_def io_context_def staged_run_def)
  next
    case 3
    from wr 3 n1 have "nodes w3 tmp = Some (File b (and 384 (not (umask w))))" by (auto simp: w3 elim!: write_all_Inr)
    moreover have "x = with_context n z" "w' = w4"
      using assms(2) wr sy rn 3 by (auto simp: fill_and_rename_def io_bind_def io_context_def)
    ultimately show ?thesis using t3 rn by (auto simp: staged_run_def)
  qed
qed

lemma fill_and_rename_private:
  assumes "create_new tmp 384 w = (Inr (), w1)" and "fill_and_rename u v n tmp p b w1 = (Inr (), w')"
  shows "nodes w' p = Some (File b (and 384 (not (umask w))))" and "tmp \<noteq> p \<Longrightarrow> nodes w' tmp = None"
  using assms
  by (auto simp: fill_and_rename_def elim!: io_bind_InrE rename_Inr write_all_Inr
        dest!: handle_call_Inr create_new_Inr(2))

lemma staged_run_cleanup:
  assumes "staged_run tmp p b w x w1" and "isl x" and "touches {tmp} w1 w'"
  shows "staged_run tmp p b w x w'"
  using assms unfolding staged_run_def by (metis touches_trans)

lemma write_private_eq:
  "write_private p b w =
     (let tmp = unique_tmp (pid w) p in
      io_bind (io_context (fmt [''creating '', show_path tmp]) (create_new tmp 384)) (\<lambda>_.
      fill_and_rename ''writing key'' ''flushing key'' (fmt [''renaming into '', show_path p]) tmp p b) w)"
  by (simp add: write_private_def fill_and_rename_def)

lemma write_private_staged:
  assumes "write_private p b w = (x, w')"
  shows "staged_run (unique_tmp (pid w) p) p b w x w'"
  using assms unfolding write_private_eq Let_def
proof (cases rule: io_bind_cases)
  case (fails e)
  then have "touches {unique_tmp (pid w) p} w w'"
    using io_respectsD [OF create_new_touches [of "unique_tmp (pid w) p" "{unique_tmp (pid w) p}" 384]] by (auto elim!: io_context_cases)
  with fails(2) show ?thesis by (simp add: staged_run_def)
next
  case (continues u w1)
  then show ?thesis using fill_and_rename_staged by (auto elim!: io_context_cases)
qed

interpretation key_file: atomic_replace write_private "\<lambda>w. unique_tmp (pid w)" "\<lambda>_ p. file_name p \<noteq> None"
proof
  fix w w' :: world and p b x e m
  assume p: "file_name p \<noteq> None"
  then show apart: "unique_tmp (pid w) p \<noteq> p" by (rule unique_tmp_apart)
  note laws = staged_run_laws [OF write_private_staged]
  show "write_private p b w = (x, w') \<Longrightarrow> touches {unique_tmp (pid w) p, p} w w'"
    using laws(1) apart by blast
  show "write_private p b w = (Inr (), w') \<Longrightarrow> contents (nodes w') p = Some b"
    using laws(2) apart by blast
  show "write_private p b w = (Inl e, w') \<Longrightarrow> nodes w' p = nodes w p"
    using laws(3) apart by (metis sum.disc(1))
  show "write_private p b w = (x, w') \<Longrightarrow> m \<in> observed w w' \<Longrightarrow> m p = nodes w p \<or> contents m p = Some b"
    using laws(4) apart by blast
qed

text \<open>A staging file that is already there makes every attempt fail: the name depends on the
  process id only, and nothing removes it.\<close>

lemma write_private_blocked:
  assumes "nodes w (unique_tmp (pid w) p) \<noteq> None"
  shows "\<exists>e. write_private p b w = (Inl e, next_tick w)"
  using assms
  by (cases "fault w (tick w)")
    (auto simp: write_private_def create_new_def fs_call_def io_bind_def io_context_def)

lemma write_atomic_fresh:
  assumes "\<And>n. n < 3 \<Longrightarrow> fault w (tick w + n) = None" and "p = d @ [Normal s]"
    and "nodes w (unique_tmp (pid w) p) = None" and "parent_is_dir (nodes w) p" and "\<And>k. nodes w p \<noteq> Some (Dir k)"
  shows "\<exists>w'. write_atomic p b w = (Inr (), w')
    \<and> nodes w' = (nodes w)(p \<mapsto> File b (and 438 (not (umask w)))) \<and> tick w' = tick w + 3 \<and> fault w' = fault w"
proof -
  let ?tmp = "unique_tmp (pid w) p"
  have tmp: "?tmp = d @ [Normal (s @ ''.tmp.'' @ dec (unat (pid w)))]" "?tmp \<noteq> p"
    by (simp_all add: assms(2) unique_tmp_def with_file_name_eq)
  have "parent_is_dir (nodes w) ?tmp"
    using assms(4) parent_is_dir_sibling [of "nodes w" d s "s @ ''.tmp.'' @ dec (unat (pid w))"]
    unfolding tmp(1) by (simp add: assms(2))
  then obtain w1 where 1: "fs_write ?tmp b w = (Inr (), w1)" "nodes w1 = (nodes w)(?tmp \<mapsto> File b (and 438 (not (umask w))))"
    "tick w1 = Suc (Suc (tick w))" "fault w1 = fault w"
    using fs_write_fresh [of w ?tmp b] assms(1) [of 0] assms(1) [of 1] assms(3) by auto
  have "parent_is_dir (nodes w1) p" using parent_is_dir_upd [OF assms(4,3)] 1(2) by simp
  then have "\<exists>w2. rename ?tmp p w1 = (Inr (), w2) \<and> nodes w2 = (nodes w1)(?tmp := None, p := nodes w1 ?tmp)
      \<and> tick w2 = Suc (tick w1) \<and> fault w2 = fault w1"
    using assms(1) [of 2] assms(5) tmp(2) 1
    by (auto simp: rename_def fs_call_def split: option.splits node.splits)
  then obtain w2 where "rename ?tmp p w1 = (Inr (), w2)" "nodes w2 = (nodes w1)(?tmp := None, p := nodes w1 ?tmp)"
      "tick w2 = Suc (tick w1)" "fault w2 = fault w1" by blast
  moreover have "(nodes w1)(?tmp := None, p := nodes w1 ?tmp) = (nodes w)(p \<mapsto> File b (and 438 (not (umask w))))"
    using 1(2) assms(3) tmp(2) by auto
  ultimately show ?thesis using 1 by (simp add: write_atomic_def io_bind_def io_context_def)
qed

section \<open>Properties of replacing a file\<close>

text \<open>C23. Over any sequence of rewrites of a state file by one process, with any pattern of
  I/O failures, a concurrent reader or a crash only ever sees the original file or one of the
  complete bodies written, and at the end the file holds the last body whose write succeeded
  (the original if none did).\<close>

theorem state_file_never_torn:
  assumes "stage_clear w p" and "state_file.replaces p bodies w = (l, w')"
  shows "(\<forall>m \<in> observed w w'. m p = nodes w p \<or> (\<exists>b \<in> set bodies. contents m p = Some b))
    \<and> (case l of Some b \<Rightarrow> contents (nodes w') p = Some b | None \<Rightarrow> nodes w' p = nodes w p)"
  using state_file.replaces_observed [OF assms] state_file.replaces_last [OF assms] by blast

theorem state_file_never_torn_witness:
  "\<exists>l w'. state_file.replaces [Normal ''f''] [[1], [2]] blank_world = (l, w')
     \<and> (\<forall>m \<in> observed blank_world w'. m [Normal ''f''] = None \<or> contents m [Normal ''f''] \<in> {Some [1], Some [2]})"
proof -
  obtain l w' where run: "state_file.replaces [Normal ''f''] [[1], [2]] blank_world = (l, w')" by (metis prod.exhaust)
  from state_file_never_torn [OF _ run] run show ?thesis by (auto simp: stage_clear_def file_name_def)
qed

text \<open>A key file is written whole or not at all, readable by its owner only, and is what
  the next reader gets.\<close>

theorem write_private_key:
  assumes "write_private p b w = (x, w')" and "file_name p \<noteq> None"
  shows "(\<forall>m \<in> observed w w'. m p = nodes w p \<or> contents m p = Some b)
    \<and> (x = Inr () \<longrightarrow> nodes w' p = Some (File b (and 384 (not (umask w)))))
    \<and> (isl x \<longrightarrow> nodes w' p = nodes w p)
    \<and> (x = Inr () \<longrightarrow> read_bytes p w' = (Inr c, w'') \<longrightarrow> c = b)"
proof (intro conjI impI ballI)
  show "m p = nodes w p \<or> contents m p = Some b" if "m \<in> observed w w'" for m
    using key_file.replace_atomic assms that by blast
  show "nodes w' p = nodes w p" if "isl x"
    using key_file.replace_failure assms that by (metis isl_def)
  show "c = b" if "x = Inr ()" "read_bytes p w' = (Inr c, w'')"
    using key_file.read_back assms that by blast
  assume "x = Inr ()"
  with assms(1) have "write_private p b w = (Inr (), w')" by simp
  then show "nodes w' p = Some (File b (and 384 (not (umask w))))"
    by (auto simp: write_private_def Let_def elim!: io_bind_InrE rename_Inr write_all_Inr
        dest!: handle_call_Inr create_new_Inr(2))
qed

theorem write_private_key_witness:
  "\<exists>x w'. write_private [Normal ''k''] [5] blank_world = (x, w')
    \<and> (\<forall>m \<in> observed blank_world w'. m [Normal ''k''] = None \<or> contents m [Normal ''k''] = Some [5])"
proof -
  obtain x w' where run: "write_private [Normal ''k''] [5] blank_world = (x, w')" by (metis prod.exhaust)
  from write_private_key [OF run] run show ?thesis by (auto simp: file_name_def)
qed

section \<open>Two threads of one process\<close>

text \<open>\<open>write_atomic\<close> one system call at a time, for a thread of the process \<open>me\<close>.\<close>

datatype writer_pc = WOpen | WWrite path | WRename | WDone "unit result"

fun writer_call :: "u32 \<Rightarrow> path \<Rightarrow> bytes \<Rightarrow> writer_pc \<times> world \<Rightarrow> writer_pc \<times> world" where
  "writer_call me p body (WOpen, w) =
     (case io_context (fmt [''writing '', show_path (unique_tmp me p)]) (open_truncate (unique_tmp me p)) w of
        (Inr q, w') \<Rightarrow> (WWrite q, w') | (Inl e, w') \<Rightarrow> (WDone (Inl e), w'))"
| "writer_call me p body (WWrite q, w) =
     (case io_context (fmt [''writing '', show_path (unique_tmp me p)]) (write_all q body) w of
        (Inr _, w') \<Rightarrow> (WRename, w') | (Inl e, w') \<Rightarrow> (WDone (Inl e), w'))"
| "writer_call me p body (WRename, w) =
     (case io_context (fmt [''renaming into '', show_path p]) (rename (unique_tmp me p) p) w of (x, w') \<Rightarrow> (WDone x, w'))"
| "writer_call me p body (WDone x, w) = (WDone x, w)"

lemma writer_calls:
  "write_atomic p body w = (x, w') \<Longrightarrow>
    writer_call (pid w) p body (writer_call (pid w) p body (writer_call (pid w) p body (WOpen, w))) = (WDone x, w')"
  by (auto simp: write_atomic_def fs_write_def io_bind_def io_context_def Let_def split: prod.splits sum.splits)

text \<open>Two threads writing the same file, one call each time the schedule names them.\<close>

fun two_writers :: "u32 \<Rightarrow> path \<Rightarrow> bytes \<Rightarrow> bytes \<Rightarrow> bool list \<Rightarrow> writer_pc \<times> writer_pc \<times> world
    \<Rightarrow> writer_pc \<times> writer_pc \<times> world" where
  "two_writers me p a b [] s = s"
| "two_writers me p a b (True # sched) (x, y, w) =
     (case writer_call me p a (x, w) of (x', w') \<Rightarrow> two_writers me p a b sched (x', y, w'))"
| "two_writers me p a b (False # sched) (x, y, w) =
     (case writer_call me p b (y, w) of (y', w') \<Rightarrow> two_writers me p a b sched (x, y', w'))"


end
