(* ===== verification/State_Dir.thy ===== *)
theory State_Dir
  imports Net Atomic_File
begin

text \<open>
  \<open>src/state.rs\<close>: everything the controller remembers, under one directory: its key, the
  approved agents, the pending ones, and the published status.

  Key parsing and printing (\<open>iroh\<close>) and JSON (\<open>serde_json\<close>) are not part of the source; they
  are the fields of the record \<open>codec\<close>, an argument of the operations.  What is used of them is
  named \<open>key_text_laws\<close>: a printed key parses back, and is a non-empty run of printable
  characters without a hash sign.
\<close>

section \<open>Data\<close>

record StateDir =
  root :: path

record PendingAgent =
  pubkey :: string
  first_seen_unix :: u64
  last_seen_unix :: u64
  attempts :: u64

record SessionInfo =
  si_agent :: string
  si_path :: PathKind
  si_remote :: string
  si_since_unix :: u64

record Status =
  node_id :: string
  st_pid :: u32
  updated_unix :: u64
  direct_addrs :: "string list"
  dialable :: "bool option"
  probe_mode :: ProbeMode
  last_probe_ok_unix :: "u64 option"
  last_probe_path :: "PathKind option"
  last_probe_error :: "string option"
  consecutive_probe_failures :: u32
  endpoint_restarts :: u32
  sessions :: "SessionInfo list"

record 'k codec =
  parse_key :: "string \<Rightarrow> string + 'k"
  show_key :: "'k \<Rightarrow> string"
  pending_to_json :: "PendingAgent list \<Rightarrow> bytes result"
  pending_from_json :: "bytes \<Rightarrow> PendingAgent list result"
  status_to_json :: "Status \<Rightarrow> bytes result"
  status_from_json :: "bytes \<Rightarrow> Status result"

definition PENDING_LIMIT :: nat where "PENDING_LIMIT = 256"

definition writer_alive :: "Status \<Rightarrow> (world, bool) io" where
  "writer_alive s = path_exists [RootDir, Normal ''proc'', Normal (dec (unat (st_pid s)))]"

text \<open>The process environment is an argument.\<close>

definition default_path :: "(string \<Rightarrow> string option) \<Rightarrow> path" where
  "default_path env =
     (case env ''XDG_STATE_HOME'' of
        Some x \<Rightarrow> path_of x @ [Normal ''egdod'']
      | None \<Rightarrow>
          (case env ''HOME'' of Some h \<Rightarrow> path_of h | None \<Rightarrow> [])
            @ [Normal ''.local'', Normal ''state'', Normal ''egdod''])"

definition key_path :: "StateDir \<Rightarrow> path" where "key_path st = join (root st) ''controller.key''"
definition sock_path :: "StateDir \<Rightarrow> path" where "sock_path st = join (root st) ''control.sock''"
definition approved_path :: "StateDir \<Rightarrow> path" where "approved_path st = join (root st) ''approved''"
definition pending_path :: "StateDir \<Rightarrow> path" where "pending_path st = join (root st) ''pending.json''"
definition status_path :: "StateDir \<Rightarrow> path" where "status_path st = join (root st) ''status.json''"
definition ssh_dir :: "StateDir \<Rightarrow> path" where "ssh_dir st = join (root st) ''ssh''"
definition ssh_key_path :: "StateDir \<Rightarrow> path" where "ssh_key_path st = join (ssh_dir st) ''id_ed25519''"
definition ssh_pub_path :: "StateDir \<Rightarrow> path" where "ssh_pub_path st = join (ssh_dir st) ''id_ed25519.pub''"
definition known_hosts_path :: "StateDir \<Rightarrow> path" where
  "known_hosts_path st = join (ssh_dir st) ''known_hosts''"

section \<open>Keys\<close>

definition restrict_dir :: "path \<Rightarrow> (world, unit) io" where
  "restrict_dir d = io_context (fmt [''restricting '', show_path d]) (set_permissions d 448)"

definition ensure_state :: "StateDir \<Rightarrow> (world, unit) io" where
  "ensure_state st =
     io_bind (io_context (fmt [''creating state dir '', show_path (root st)]) (create_dir_all (root st))) (\<lambda>_.
     restrict_dir (root st))"

text \<open>The warning is only logged; what is left of it is the \<open>metadata\<close> call.\<close>

definition warn_if_readable :: "path \<Rightarrow> (world, unit) io" where
  "warn_if_readable p = io_catch (metadata p) (\<lambda>_. io_ok ())"

text \<open>\<open>from_bytes\<close> is \<open>SecretKey::from_bytes\<close>, total on 32 bytes.\<close>

definition read_key :: "(bytes \<Rightarrow> 'sk) \<Rightarrow> path \<Rightarrow> (world, 'sk option) io" where
  "read_key from_bytes p =
     io_catch (read_bytes p) (\<lambda>res.
       case res of
         Inr bytes \<Rightarrow>
           io_bind (io_lift (ensure (length bytes = 32) (fmt [''key file '', show_path p, '' is not 32 bytes'']))) (\<lambda>_.
           io_bind (warn_if_readable p) (\<lambda>_.
           io_ok (Some (from_bytes bytes))))
       | Inl e \<Rightarrow>
           (if downcast_io e = Some NotFound then io_ok None
            else io_lift (Inl (Context (fmt [''reading '', show_path p]) e))))"

datatype OnUnusable = Replace | Refuse

definition make_parent :: "path \<Rightarrow> (world, unit) io" where
  "make_parent p =
     (case parent_path p of
        None \<Rightarrow> io_ok ()
      | Some parent \<Rightarrow>
          (if parent = [] then io_ok ()
           else
             io_bind (path_exists parent) (\<lambda>there.
             if there then io_ok ()
             else
               io_bind (io_context (fmt [''creating '', show_path parent]) (create_dir_all parent)) (\<lambda>_.
               restrict_dir parent))))"

definition create_key :: "(bytes \<Rightarrow> 'sk) \<Rightarrow> path \<Rightarrow> (world, 'sk) io" where
  "create_key from_bytes p =
     io_bind (getrandom 32) (\<lambda>bytes.
     io_bind (make_parent p) (\<lambda>_.
     io_bind (write_private p bytes) (\<lambda>_.
     io_ok (from_bytes bytes))))"

definition load_or_create_key :: "(bytes \<Rightarrow> 'sk) \<Rightarrow> path \<Rightarrow> OnUnusable \<Rightarrow> (world, 'sk) io" where
  "load_or_create_key from_bytes p unusable =
     io_catch (read_key from_bytes p) (\<lambda>res.
       case res of
         Inr (Some k) \<Rightarrow> io_ok k
       | Inr None \<Rightarrow> create_key from_bytes p
       | Inl e \<Rightarrow> (if unusable = Replace then create_key from_bytes p else io_lift (Inl e)))"

definition init_key :: "(bytes \<Rightarrow> 'sk) \<Rightarrow> StateDir \<Rightarrow> (world, 'sk) io" where
  "init_key from_bytes st =
     io_bind (ensure_state st) (\<lambda>_. load_or_create_key from_bytes (key_path st) Refuse)"

definition load_key :: "(bytes \<Rightarrow> 'sk) \<Rightarrow> StateDir \<Rightarrow> (world, 'sk) io" where
  "load_key from_bytes st =
     io_bind (read_key from_bytes (key_path st)) (\<lambda>k.
     io_lift (ok_or k (fmt [''no controller key at '', show_path (key_path st),
       '' '', em_dash, '' run `egdod controller init` first''])))"

section \<open>Approved agents\<close>

text \<open>The key on one line of the approved list, if there is one.\<close>

definition approved_line :: "'k codec \<Rightarrow> string \<Rightarrow> 'k option" where
  "approved_line c text =
     (let line = trim (before_hash text) in
      if line = [] then None
      else (case parse_key c (hd (split_whitespace line)) of Inr k \<Rightarrow> Some k | Inl _ \<Rightarrow> None))"

definition approved_in :: "'k codec \<Rightarrow> string \<Rightarrow> 'k set" where
  "approved_in c body = set (List.map_filter (approved_line c) (lines body))"

definition approved :: "'k codec \<Rightarrow> StateDir \<Rightarrow> (world, 'k set) io" where
  "approved c st =
     io_catch (read_to_string (approved_path st)) (\<lambda>res.
       case res of
         Inr body \<Rightarrow> io_ok (approved_in c body)
       | Inl e \<Rightarrow>
           (if downcast_io e = Some NotFound then io_ok {}
            else io_lift (Inl (Context ''reading approved list'' e))))"

section \<open>Pending agents\<close>

definition pending :: "'k codec \<Rightarrow> StateDir \<Rightarrow> (world, PendingAgent list) io" where
  "pending c st =
     io_catch (read_bytes (pending_path st)) (\<lambda>res.
       case res of
         Inr b \<Rightarrow> io_lift (with_context ''parsing pending.json'' (pending_from_json c b))
       | Inl e \<Rightarrow>
           (if downcast_io e = Some NotFound then io_ok []
            else io_lift (Inl (Context ''reading pending.json'' e))))"

definition write_pending :: "'k codec \<Rightarrow> StateDir \<Rightarrow> PendingAgent list \<Rightarrow> (world, unit) io" where
  "write_pending c st l =
     io_bind (io_lift (pending_to_json c l)) (\<lambda>body. write_atomic (pending_path st) body)"

definition forget_pending :: "'k codec \<Rightarrow> StateDir \<Rightarrow> 'k \<Rightarrow> (world, unit) io" where
  "forget_pending c st key =
     io_bind (pending c st) (\<lambda>l.
     let kept = filter (\<lambda>p. pubkey p \<noteq> show_key c key) l in
     if length kept \<noteq> length l then write_pending c st kept else io_ok ())"

text \<open>The dialling key's entry is refreshed in place, or appended.\<close>

fun note_pending :: "string \<Rightarrow> u64 \<Rightarrow> PendingAgent list \<Rightarrow> PendingAgent list" where
  "note_pending text now [] =
     [\<lparr>pubkey = text, first_seen_unix = now, last_seen_unix = now, attempts = 1\<rparr>]"
| "note_pending text now (p # ps) =
     (if pubkey p = text then p\<lparr>last_seen_unix := now, attempts := attempts p + 1\<rparr> # ps
      else p # note_pending text now ps)"

text \<open>\<open>sort_by_key\<close> is a stable sort.\<close>

definition keep_recent :: "PendingAgent list \<Rightarrow> PendingAgent list" where
  "keep_recent l =
     (if PENDING_LIMIT < length l
      then drop (length l - PENDING_LIMIT) (sort_key last_seen_unix l) else l)"

definition record_pending :: "'k codec \<Rightarrow> StateDir \<Rightarrow> 'k \<Rightarrow> (world, unit) io" where
  "record_pending c st key =
     io_bind (ensure_state st) (\<lambda>_.
     io_bind now_unix (\<lambda>now.
     io_bind (pending c st) (\<lambda>l.
     write_pending c st (keep_recent (note_pending (show_key c key) now l)))))"

definition terminated :: "string \<Rightarrow> string" where
  "terminated body = (if body \<noteq> [] \<and> \<not> ends_with_newline body then body @ nl else body)"

text \<open>The second read of the list is \<open>unwrap_or_default\<close>: any error counts as an empty list.\<close>

definition approve :: "'k codec \<Rightarrow> StateDir \<Rightarrow> 'k \<Rightarrow> (world, bool) io" where
  "approve c st key =
     io_bind (ensure_state st) (\<lambda>_.
     io_bind (approved c st) (\<lambda>known.
     if key \<in> known then io_ok False
     else
       io_catch (read_to_string (approved_path st)) (\<lambda>res.
       let body = (case res of Inr b \<Rightarrow> b | Inl _ \<Rightarrow> []) in
       io_bind (write_atomic (approved_path st) (as_bytes (terminated body @ show_key c key @ nl))) (\<lambda>_.
       io_bind (forget_pending c st key) (\<lambda>_.
       io_ok True)))))"

section \<open>Status\<close>

definition write_status :: "'k codec \<Rightarrow> StateDir \<Rightarrow> Status \<Rightarrow> (world, unit) io" where
  "write_status c st s =
     io_bind (io_lift (status_to_json c s)) (\<lambda>body. write_atomic (status_path st) body)"

definition read_status :: "'k codec \<Rightarrow> StateDir \<Rightarrow> (world, Status) io" where
  "read_status c st =
     io_bind (io_context (fmt [''reading '', show_path (status_path st),
         '' '', em_dash, '' is `egdod controller serve` running?'']) (read_bytes (status_path st))) (\<lambda>body.
     io_lift (with_context ''parsing status.json'' (status_from_json c body)))"

section \<open>The approved list as text\<close>

definition key_text_laws :: "'k codec \<Rightarrow> bool" where
  "key_text_laws c \<longleftrightarrow> (\<forall>k. parse_key c (show_key c k) = Inr k \<and> show_key c k \<noteq> []
     \<and> graphic (show_key c k) \<and> CHR ''#'' \<notin> set (show_key c k))"

lemma map_filter_append: "List.map_filter f (xs @ ys) = List.map_filter f xs @ List.map_filter f ys"
  by (simp add: List.map_filter_def)

lemma before_hash_strip_cr:
  "split_whitespace (before_hash (strip_cr l)) = split_whitespace (before_hash l)"
proof (cases "l \<noteq> [] \<and> last l = carriage_return")
  case True
  then obtain m where l: "l = m @ [carriage_return]" by (metis append_butlast_last_id)
  have cr: "carriage_return \<noteq> CHR ''#''" by (simp add: carriage_return_def char_of_eq_iff)
  show ?thesis
  proof (cases "CHR ''#'' \<in> set m")
    case True
    then have "before_hash l = before_hash m" by (simp add: l before_hash_def takeWhile_append1)
    then show ?thesis by (simp add: l strip_cr_def)
  next
    case False
    then have "before_hash m = m" "before_hash l = m @ [carriage_return]"
      using cr by (auto simp: l before_hash_def takeWhile_append takeWhile_eq_all_conv)
    then show ?thesis by (simp add: l strip_cr_def split_whitespace_append_cr)
  qed
qed (auto simp: strip_cr_def)

lemma approved_line_fields:
  "approved_line c t = (case split_whitespace (before_hash t) of
     [] \<Rightarrow> None | f # fs \<Rightarrow> (case parse_key c f of Inr k \<Rightarrow> Some k | Inl _ \<Rightarrow> None))"
  by (auto simp: approved_line_def Let_def trim_Nil_iff split: list.splits)

lemma approved_line_strip_cr: "approved_line c (strip_cr l) = approved_line c l"
  by (simp add: approved_line_fields before_hash_strip_cr)

lemma approved_in_append:
  "s = [] \<or> ends_with_newline s \<Longrightarrow> approved_in c (s @ t) = approved_in c s \<union> approved_in c t"
  by (simp add: approved_in_def lines_append_terminated map_filter_append)

lemma approved_in_terminated: "approved_in c (terminated s) = approved_in c s"
proof (cases "s \<noteq> [] \<and> \<not> ends_with_newline s")
  case True
  then obtain ls l where "lines s = ls @ [l]" "lines (s @ nl) = ls @ [strip_cr l]"
    using lines_from_terminate [of s "[]"] by (auto simp: lines_def)
  with True show ?thesis
    by (simp add: terminated_def approved_in_def map_filter_append List.map_filter_simps approved_line_strip_cr)
qed (auto simp: terminated_def)

lemma terminated_ends: "terminated s = [] \<or> ends_with_newline (terminated s)"
  by (auto simp: terminated_def ends_with_newline_def)

lemma approved_in_key:
  assumes "key_text_laws c"
  shows "approved_in c (show_key c k @ nl) = {k}"
proof -
  have k: "parse_key c (show_key c k) = Inr k" "show_key c k \<noteq> []" "graphic (show_key c k)"
    "CHR ''#'' \<notin> set (show_key c k)"
    using assms by (auto simp: key_text_laws_def)
  have "newline \<notin> set (show_key c k)" using graphic_not_mem [OF k(3)] by simp
  moreover have "carriage_return \<notin> set (show_key c k)"
    using graphic_not_mem [OF k(3)] by (simp add: carriage_return_def)
  then have "strip_cr (show_key c k) = show_key c k"
    using k(2) by (metis last_in_set strip_cr_def)
  moreover have "before_hash (show_key c k) = show_key c k"
    using k(4) by (auto simp: before_hash_def takeWhile_eq_all_conv)
  ultimately show ?thesis
    using k by (simp add: approved_in_def lines_one List.map_filter_simps approved_line_fields split_whitespace_word)
qed

text \<open>The text \<open>approve\<close> writes holds the keys of the old text and the new one.\<close>

lemma approved_in_appended:
  "key_text_laws c \<Longrightarrow> approved_in c (terminated s @ show_key c k @ nl) = insert k (approved_in c s)"
  by (simp add: approved_in_append [OF terminated_ends] approved_in_key approved_in_terminated)

lemma utf8_appended:
  assumes "key_text_laws c" and "utf8_ok (as_bytes s)"
  shows "utf8_ok (as_bytes (terminated s @ show_key c k @ nl))"
proof -
  have "ascii (show_key c k @ nl)" using assms(1) graphic_ascii by (auto simp: key_text_laws_def)
  then have "utf8_ok (as_bytes (show_key c k @ nl))" by (rule utf8_ok_ascii)
  moreover have "utf8_ok (as_bytes nl)" by (rule utf8_ok_ascii) simp
  then have "utf8_ok (as_bytes (terminated s))"
    using assms(2) utf8_ok_append [of "as_bytes s" "as_bytes nl"] by (simp add: terminated_def)
  ultimately show ?thesis using utf8_ok_append [of "as_bytes (terminated s)"] by simp
qed

section \<open>Reading the state directory\<close>

text \<open>The layout of a state directory nobody has planted symbolic links in.\<close>

definition state_ready :: "StateDir \<Rightarrow> world \<Rightarrow> bool" where
  "state_ready st w \<longleftrightarrow> root st \<noteq> []
     \<and> (\<forall>p \<in> {root st, approved_path st, pending_path st, status_path st}. \<forall>z. nodes w p \<noteq> Some (Symlink z))
     \<and> stage_clear w (approved_path st) \<and> stage_clear w (pending_path st) \<and> stage_clear w (status_path st)"

definition approved_now :: "'k codec \<Rightarrow> StateDir \<Rightarrow> nodemap \<Rightarrow> 'k set option" where
  "approved_now c st m =
     (case m (approved_path st) of
        None \<Rightarrow> Some {}
      | Some (File b _) \<Rightarrow> map_option (approved_in c) (from_utf8 b)
      | _ \<Rightarrow> None)"

lemma read_to_string_calm:
  assumes "calm w" and "\<And>z. nodes w p \<noteq> Some (Symlink z)"
  shows "read_to_string p w =
    (case nodes w p of
       None \<Rightarrow> Inl enoent
     | Some (File b _) \<Rightarrow> (case from_utf8 b of None \<Rightarrow> Inl (IoError InvalidData ''stream did not contain valid UTF-8'') | Some s \<Rightarrow> Inr s)
     | Some (Dir _) \<Rightarrow> Inl eisdir | Some _ \<Rightarrow> Inl enxio, next_tick w)"
  using assms follow_self [of "nodes w" p]
  by (auto simp: read_to_string_def read_bytes_def fs_call_calm io_bind_def split: option.splits node.splits)

lemma approved_calm:
  assumes "calm w" and "\<And>z. nodes w (approved_path st) \<noteq> Some (Symlink z)"
  shows "\<exists>x. approved c st w = (x, next_tick w)
    \<and> (case approved_now c st (nodes w) of Some S \<Rightarrow> x = Inr S | None \<Rightarrow> isl x)"
  using assms
  by (auto simp: approved_def io_catch_def read_to_string_calm approved_now_def enoent_def eisdir_def enxio_def
      split: option.splits node.splits)

lemma leaf_paths:
  "approved_path st = root st @ [Normal ''approved'']"
  "pending_path st = root st @ [Normal ''pending.json'']"
  "status_path st = root st @ [Normal ''status.json'']"
  "key_path st = root st @ [Normal ''controller.key'']"
  by (simp_all add: approved_path_def pending_path_def status_path_def key_path_def join_def)

lemma unique_tmp_leaf: "unique_tmp n (d @ [Normal s]) = d @ [Normal (s @ ''.tmp.'' @ dec (unat n))]"
  by (simp add: unique_tmp_def with_file_name_eq)

lemma leaf_not_ancestor: "d @ [x] \<notin> set (ancestors d)"
  using ancestors_length by fastforce

lemma stage_clear_touches:
  "touches S w w' \<Longrightarrow> unique_tmp (pid w) p \<notin> S \<Longrightarrow> stage_clear w' p = stage_clear w p"
  by (simp add: stage_clear_def touches_env touches_nodes)

lemma ensure_state_frame:
  assumes "ensure_state st w = (x, w')" and "\<And>z. nodes w (root st) \<noteq> Some (Symlink z)" and "root st \<noteq> []"
  shows "touches (set (ancestors (root st))) w w'" and "nodes w' (root st) \<noteq> Some (Symlink z)"
proof -
  obtain y w1 where 1: "create_dir_all (root st) w = (y, w1)" by (metis prod.exhaust)
  have t1: "touches (set (ancestors (root st))) w w1" using io_respectsD [OF create_dir_all_touches 1] by simp
  have n1: "nodes w1 (root st) \<noteq> Some (Symlink z)" for z
    using create_dir_all_nodes [OF 1, of "root st"] assms(2) by auto
  have "touches (set (ancestors (root st))) w w' \<and> nodes w' (root st) \<noteq> Some (Symlink z)"
  proof (cases y)
    case (Inl e)
    with assms(1) 1 t1 n1 show ?thesis by (auto simp: ensure_state_def io_bind_def io_context_def)
  next
    case (Inr u)
    with assms(1) 1 obtain v where 2: "set_permissions (root st) 448 w1 = (v, w')"
      by (auto simp: ensure_state_def restrict_dir_def io_bind_def io_context_def split: prod.splits)
    have "touches {root st} w1 w'" by (rule set_permissions_touches [OF 2 n1])
    then have "touches (set (ancestors (root st))) w1 w'"
      by (rule touches_mono) (use ancestors_self [OF assms(3)] in simp)
    moreover have "nodes w' (root st) \<noteq> Some (Symlink z)"
      using 2 n1 follow_self [of "nodes w1" "root st"]
      by (cases "nodes w1 (root st)" rule: option.exhaust)
        (auto simp: set_permissions_def fs_call_def with_mode_Symlink split: option.splits node.splits)
    ultimately show ?thesis using t1 by (auto intro: touches_trans)
  qed
  then show "touches (set (ancestors (root st))) w w'" "nodes w' (root st) \<noteq> Some (Symlink z)" by blast+
qed

lemma ensure_state_ready:
  assumes "ensure_state st w = (x, w')" and "state_ready st w"
  shows "state_ready st w'" and "nodes w' (root st @ [Normal s]) = nodes w (root st @ [Normal s])"
proof -
  have r: "\<And>z. nodes w (root st) \<noteq> Some (Symlink z)" "root st \<noteq> []" using assms(2) by (auto simp: state_ready_def)
  note e = ensure_state_frame [OF assms(1) r]
  show leaf: "nodes w' (root st @ [Normal s]) = nodes w (root st @ [Normal s])" for s
    using touches_nodes [OF e(1)] leaf_not_ancestor by blast
  have "stage_clear w' (root st @ [Normal s]) = stage_clear w (root st @ [Normal s])" for s
    using stage_clear_touches [OF e(1)] by (simp add: unique_tmp_leaf leaf_not_ancestor)
  with e(2) leaf assms(2) show "state_ready st w'" by (simp add: state_ready_def leaf_paths)
qed

lemma pending_touches: "io_respects (touches S) (pending c st)"
  unfolding pending_def
  by (intro io_respects_catch read_bytes_touches transp_touches)
    (auto split: sum.splits intro!: io_respects_lift io_respects_ok)

lemma write_pending_frame:
  assumes "write_pending c st l w = (x, w')" and "stage_clear w (pending_path st)"
  shows "touches {unique_tmp (pid w) (pending_path st), pending_path st} w w'"
  using assms state_file.replace_frame [OF assms(2)]
  by (auto simp: write_pending_def split: sum.splits)

lemma forget_pending_frame:
  assumes "forget_pending c st key w = (x, w')" and "stage_clear w (pending_path st)"
  shows "touches {unique_tmp (pid w) (pending_path st), pending_path st} w w'"
  using assms(1) unfolding forget_pending_def
proof (cases rule: io_bind_cases)
  case (fails e)
  then show ?thesis using io_respectsD [OF pending_touches] by blast
next
  case (continues l w1)
  have t: "touches {} w w1" using io_respectsD [OF pending_touches continues(1)] .
  then have c1: "stage_clear w1 (pending_path st)" and p1: "pid w1 = pid w"
    using stage_clear_touches assms(2) by (auto simp: touches_env)
  have "touches {unique_tmp (pid w) (pending_path st), pending_path st} w1 w'"
    using continues(2) write_pending_frame [OF _ c1] p1 by (auto simp: Let_def split: if_splits)
  with touches_mono [OF t] show ?thesis by (meson empty_subsetI touches_trans)
qed

lemma leaf_apart:
  "s \<noteq> t \<Longrightarrow> s \<noteq> t @ ''.tmp.'' @ dec n \<Longrightarrow>
    d @ [Normal s] \<notin> {d @ [Normal (t @ ''.tmp.'' @ dec n)], d @ [Normal t]}"
  by simp

section \<open>Approving\<close>

lemma approve_run:
  assumes "approve c st key w = (Inr fresh, w')" and "calm w" and "state_ready st w"
  obtains S w1 where "ensure_state st w = (Inr (), w1)" "approved_now c st (nodes w) = Some S"
    "fresh = (key \<notin> S)" "calm w1" "state_ready st w1"
    "\<And>s. nodes w1 (root st @ [Normal s]) = nodes w (root st @ [Normal s])"
    "key \<in> S \<Longrightarrow> w' = next_tick w1"
    "key \<notin> S \<Longrightarrow> \<exists>w2. write_atomic (approved_path st)
        (as_bytes (terminated (case read_to_string (approved_path st) (next_tick w1) of (Inr b, _) \<Rightarrow> b | _ \<Rightarrow> [])
          @ show_key c key @ nl)) (next_tick (next_tick w1)) = (Inr (), w2)
      \<and> forget_pending c st key w2 = (Inr (), w')"
proof -
  from assms(1) obtain w1 known w1' where
    1: "ensure_state st w = (Inr (), w1)" and 2: "approved c st w1 = (Inr known, w1')" and
    rest: "(if key \<in> known then io_ok False else
       io_catch (read_to_string (approved_path st)) (\<lambda>res.
       let body = (case res of Inr b \<Rightarrow> b | Inl _ \<Rightarrow> []) in
       io_bind (write_atomic (approved_path st) (as_bytes (terminated body @ show_key c key @ nl))) (\<lambda>_.
       io_bind (forget_pending c st key) (\<lambda>_.
       io_ok True)))) w1' = (Inr fresh, w')"
    unfolding approve_def by (auto elim!: io_bind_InrE)
  note e = ensure_state_ready [OF 1 assms(3)]
  have r: "\<And>z. nodes w (root st) \<noteq> Some (Symlink z)" "root st \<noteq> []"
    using assms(3) by (auto simp: state_ready_def)
  have c1: "calm w1" using touches_calm [OF ensure_state_frame(1) [OF 1 r]] assms(2) by simp
  have ns: "\<And>z. nodes w1 (approved_path st) \<noteq> Some (Symlink z)" using e(1) by (auto simp: state_ready_def)
  have now: "approved_now c st (nodes w1) = approved_now c st (nodes w)"
    using e(2) by (simp add: approved_now_def leaf_paths)
  obtain S where S: "approved_now c st (nodes w) = Some S" "known = S" and w1': "w1' = next_tick w1"
    using approved_calm [OF c1 ns, of c] 2 now by (auto split: option.splits)
  obtain x where rd: "read_to_string (approved_path st) (next_tick w1) = (x, next_tick (next_tick w1))"
    using read_to_string_calm [of "next_tick w1" "approved_path st"] c1 ns by auto
  show thesis
  proof (rule that [OF 1 S(1) _ c1 e(1) e(2)])
    show "fresh = (key \<notin> S)"
      using rest S by (auto simp: io_catch_def Let_def split: if_splits prod.splits elim!: io_bind_InrE)
    show "key \<in> S \<Longrightarrow> w' = next_tick w1" using rest S w1' by simp
    assume "key \<notin> S"
    with rest S w1' rd show "\<exists>w2. write_atomic (approved_path st)
        (as_bytes (terminated (case read_to_string (approved_path st) (next_tick w1) of (Inr b, _) \<Rightarrow> b | _ \<Rightarrow> [])
          @ show_key c key @ nl)) (next_tick (next_tick w1)) = (Inr (), w2)
      \<and> forget_pending c st key w2 = (Inr (), w')"
      by (cases x) (auto simp: io_catch_def Let_def elim!: io_bind_InrE)
  qed
qed

lemma approve_adds_key:
  assumes "key_text_laws c" and "calm w" and "state_ready st w"
    and "approve c st key w = (Inr fresh, w')"
  shows "\<exists>S. approved_now c st (nodes w) = Some S \<and> fresh = (key \<notin> S)
    \<and> approved_now c st (nodes w') = Some (insert key S)"
proof -
  from approve_run [OF assms(4,2,3)] obtain S w1 where
    S: "approved_now c st (nodes w) = Some S" "fresh = (key \<notin> S)" and
    w1: "calm w1" "state_ready st w1" "\<And>s. nodes w1 (root st @ [Normal s]) = nodes w (root st @ [Normal s])" and
    old: "key \<in> S \<Longrightarrow> w' = next_tick w1" and
    new: "key \<notin> S \<Longrightarrow> \<exists>w2. write_atomic (approved_path st)
        (as_bytes (terminated (case read_to_string (approved_path st) (next_tick w1) of (Inr b, _) \<Rightarrow> b | _ \<Rightarrow> [])
          @ show_key c key @ nl)) (next_tick (next_tick w1)) = (Inr (), w2)
      \<and> forget_pending c st key w2 = (Inr (), w')"
    by metis
  have now1: "approved_now c st (nodes w1) = Some S" using S(1) w1(3) by (simp add: approved_now_def leaf_paths)
  show ?thesis
  proof (cases "key \<in> S")
    case True
    with S old now1 show ?thesis by (auto simp: insert_absorb)
  next
    case False
    define body where "body = (case read_to_string (approved_path st) (next_tick w1) of (Inr b, _) \<Rightarrow> b | _ \<Rightarrow> [])"
    have ns: "\<And>z. nodes (next_tick w1) (approved_path st) \<noteq> Some (Symlink z)" using w1(2) by (auto simp: state_ready_def)
    have body: "approved_in c body = S \<and> utf8_ok (as_bytes body)"
      using now1 w1(1) read_to_string_calm [of "next_tick w1" "approved_path st", OF _ ns]
      by (auto simp: body_def approved_now_def from_utf8_def approved_in_def lines_def List.map_filter_simps
          split: option.splits node.splits if_splits)
    from new [OF False, folded body_def] obtain w2 where
      wr: "write_atomic (approved_path st) (as_bytes (terminated body @ show_key c key @ nl)) (next_tick (next_tick w1)) = (Inr (), w2)" and
      fg: "forget_pending c st key w2 = (Inr (), w')" by blast
    have rdy: "stage_clear (next_tick (next_tick w1)) (approved_path st)"
      using w1(2) stage_clear_touches [OF touches_next_tick [of "{}"]] by (simp add: state_ready_def)
    from state_file.replace_success [OF rdy wr] obtain k where
      a2: "nodes w2 (approved_path st) = Some (File (as_bytes (terminated body @ show_key c key @ nl)) k)"
      by (auto simp: contents_def split: option.splits node.splits)
    have t2: "touches {unique_tmp (pid w1) (approved_path st), approved_path st} w1 w2"
      using touches_trans [OF touches_next_tick touches_trans [OF touches_next_tick]] state_file.replace_frame [OF rdy wr]
      by (metis env_put(8))
    have "stage_clear w2 (pending_path st)"
      using stage_clear_touches [OF t2, of "pending_path st"] w1(2)
      by (simp add: state_ready_def unique_tmp_leaf leaf_paths)
    from touches_nodes [OF forget_pending_frame [OF fg this], of "approved_path st"]
    have "nodes w' (approved_path st) = nodes w2 (approved_path st)"
      by (simp add: leaf_paths unique_tmp_leaf)
    moreover have "from_utf8 (as_bytes (terminated body @ show_key c key @ nl)) = Some (terminated body @ show_key c key @ nl)"
      using utf8_appended [OF assms(1)] body of_bytes_as_bytes unfolding from_utf8_def by (metis)
    ultimately have "approved_now c st (nodes w') = Some (approved_in c (terminated body @ show_key c key @ nl))"
      using a2 by (simp add: approved_now_def)
    with S body show ?thesis using approved_in_appended [OF assms(1), of body key] by simp
  qed
qed

lemmas env_rules = io_respects_bind io_respects_catch io_respects_context io_respects_if io_respects_ok io_respects_lift
  transp_touches reflp_touches

lemma write_atomic_touches_any: "io_respects (touches UNIV) (write_atomic p b)"
proof -
  have "io_respects (touches UNIV)
    (io_bind (io_context (fmt [''writing '', show_path t]) (fs_write t b)) (\<lambda>_.
      io_context (fmt [''renaming into '', show_path p]) (rename t p)))" for t
    by (intro env_rules fs_write_touches_any rename_touches UNIV_I)
  then show ?thesis by (auto simp: write_atomic_def Let_def io_respects_def)
qed

lemma ensure_state_touches_any: "io_respects (touches UNIV) (ensure_state st)"
  unfolding ensure_state_def restrict_dir_def
  by (intro env_rules create_dir_all_touches set_permissions_touches_any subset_UNIV)

lemma approved_touches: "io_respects (touches S) (approved c st)"
  unfolding approved_def
  by (intro env_rules read_to_string_touches) (auto split: sum.splits intro!: env_rules)

lemma write_pending_touches_any: "io_respects (touches UNIV) (write_pending c st l)"
  unfolding write_pending_def by (intro env_rules write_atomic_touches_any)

lemma forget_pending_touches_any: "io_respects (touches UNIV) (forget_pending c st key)"
  unfolding forget_pending_def Let_def by (intro env_rules pending_touches write_pending_touches_any)

lemma approve_touches_any: "io_respects (touches UNIV) (approve c st key)"
  unfolding approve_def Let_def
  by (intro env_rules ensure_state_touches_any approved_touches read_to_string_touches write_atomic_touches_any
      forget_pending_touches_any)

lemma approved_reads:
  assumes "calm w" and "approved_now c st (nodes w) = Some S"
  shows "approved c st w = (Inr S, next_tick w)"
proof -
  have "\<And>z. nodes w (approved_path st) \<noteq> Some (Symlink z)"
    using assms(2) by (auto simp: approved_now_def)
  from approved_calm [OF assms(1) this, of c] assms(2) show ?thesis by auto
qed


text \<open>A codec on two keys, for concrete runs.\<close>

definition two_keys :: "bool codec" where
  "two_keys = \<lparr>parse_key = (\<lambda>s. if s = ''t'' then Inr True else if s = ''f'' then Inr False else Inl ''bad''),
     show_key = (\<lambda>k. if k then ''t'' else ''f''),
     pending_to_json = (\<lambda>l. Inr (if l = [] then [0] else [1])),
     pending_from_json = (\<lambda>b. if b = [0] then Inr [] else Inl (Msg ''bad'')),
     status_to_json = (\<lambda>_. Inl (Msg ''none'')), status_from_json = (\<lambda>_. Inl (Msg ''none''))\<rparr>"

lemma two_keys_laws: "key_text_laws two_keys"
  by (auto simp: key_text_laws_def two_keys_def)

abbreviation demo_dir :: StateDir where "demo_dir \<equiv> \<lparr>root = [Normal ''s'']\<rparr>"

definition demo_world :: "(nat \<Rightarrow> (io_kind \<times> string \<times> nat) option) \<Rightarrow> world" where
  "demo_world faults = blank_world\<lparr>nodes := [[Normal ''s''] \<mapsto> Dir 448,
     [Normal ''s'', Normal ''approved''] \<mapsto> File (as_bytes (''t'' @ nl)) 384], fault := faults\<rparr>"

lemma demo_ready: "state_ready demo_dir (demo_world f)"
  by (auto simp: state_ready_def demo_world_def approved_path_def pending_path_def status_path_def join_def
      stage_clear_def unique_tmp_def with_file_name_def file_name_def split: if_splits)

lemma is_dir_s: "is_dir (nodes (demo_world f)) [Normal ''s'']"
  using follow_self [of "nodes (demo_world f)" "[Normal ''s'']"] by (simp add: is_dir_def demo_world_def)

lemma demo_ensure:
  assumes "f 0 = None" "f 1 = None"
  shows "ensure_state demo_dir (demo_world f) = (Inr (), (put_node [Normal ''s''] (Some (Dir 448)) (demo_world f))\<lparr>tick := 2\<rparr>)"
  using assms follow_self [of "nodes (demo_world f)" "[Normal ''s'']"] is_dir_s [of f]
  by (simp add: ensure_state_def restrict_dir_def create_dir_all_def ancestors_def make_dir_def fs_call_def io_bind_def io_context_def
   set_permissions_def demo_world_def put_node_def put_nodes_def next_tick_def blank_world_def)

lemma demo_approve:
  assumes "\<And>n. n \<noteq> 3 \<Longrightarrow> f n = None"
  shows "\<exists>w'. approve two_keys demo_dir False (demo_world f) = (Inr True, w')
    \<and> contents (nodes w') [Normal ''s'', Normal ''approved'']
        = Some (as_bytes (if f 3 = None then ''t'' @ nl @ ''f'' @ nl else ''f'' @ nl))"
proof -
  let ?a = "[Normal ''s'', Normal ''approved'']"
  let ?t = "''t'' @ nl"
  define w2 where "w2 = (put_node [Normal ''s''] (Some (Dir 448)) (demo_world f))\<lparr>tick := 2\<rparr>"
  have 1: "ensure_state demo_dir (demo_world f) = (Inr (), w2)"
    unfolding w2_def by (rule demo_ensure) (simp_all add: assms)
  have w2: "fault w2 = f" "tick w2 = 2" "pid w2 = 1" "nodes w2 = nodes (demo_world f)"
    by (auto simp: w2_def demo_world_def)
  have a: "approved_path demo_dir = ?a" "pending_path demo_dir = [Normal ''s'', Normal ''pending.json'']"
    by (simp_all add: approved_path_def pending_path_def join_def)
  have is_file: "nodes w2 ?a = Some (File (as_bytes ?t) 384)" by (simp add: w2 demo_world_def)
  have utf: "from_utf8 (as_bytes ?t) = Some ?t"
    using utf8_ok_ascii [of ?t] by (simp add: from_utf8_def)
  have 2: "approved two_keys demo_dir w2 = (Inr {True}, next_tick w2)"
    using read_to_string_file [OF _ is_file utf] w2 assms [of 2]
    approved_in_key [OF two_keys_laws, of True]
    by (simp add: approved_def io_catch_def a) (simp add: two_keys_def)
  define body where "body = (if f 3 = None then ?t else [])"
  have 3: "\<exists>x. read_to_string ?a (next_tick w2) = (x, next_tick (next_tick w2)) \<and> (case x of Inr b \<Rightarrow> b | Inl _ \<Rightarrow> []) = body"
    using read_to_string_file [of "next_tick w2", OF _ _ utf] read_to_string_fault [of "next_tick w2"] w2 is_file
    by (cases "f 3") (auto simp: body_def)
  let ?w4 = "next_tick (next_tick w2)"
  have dir: "parent_is_dir (nodes w2) ?a"
    using is_dir_s [of f] by (simp add: parent_is_dir_def parent_path_def w2)
  have ap: "?a = [Normal ''s''] @ [Normal ''approved'']" by simp
  let ?b = "as_bytes (terminated body @ ''f'' @ nl)"
  have "\<exists>w5. write_atomic ?a ?b ?w4 = (Inr (), w5)
      \<and> nodes w5 = (nodes ?w4)(?a \<mapsto> File ?b (and 438 (not (umask ?w4)))) \<and> tick w5 = tick ?w4 + 3 \<and> fault w5 = fault ?w4"
    by (rule write_atomic_fresh [OF _ ap])
      (use dir is_file assms in \<open>auto simp: w2 unique_tmp_def with_file_name_def file_name_def demo_world_def\<close>)
  then obtain w5 where 5: "write_atomic ?a ?b ?w4 = (Inr (), w5)"
      "nodes w5 = (nodes ?w4)(?a \<mapsto> File ?b (and 438 (not (umask ?w4))))" "tick w5 = 7" "fault w5 = f"
    using w2 by auto
  have np: "nodes w5 (pending_path demo_dir) = None" by (simp add: 5 a w2 demo_world_def)
  have 6: "forget_pending two_keys demo_dir False w5 = (Inr (), next_tick w5)"
    using np 5 assms [of 7] follow_self [of "nodes w5" "pending_path demo_dir"]
    by (simp add: forget_pending_def pending_def read_bytes_def fs_call_def io_bind_def io_catch_def enoent_def)
  have "approve two_keys demo_dir False (demo_world f) = (Inr True, next_tick w5)"
    using 1 2 3 5(1) 6 by (auto simp: approve_def io_bind_def io_catch_def a Let_def two_keys_def)
  moreover have "terminated body @ ''f'' @ nl = (if f 3 = None then ''t'' @ nl @ ''f'' @ nl else ''f'' @ nl)"
    by (simp add: body_def terminated_def ends_with_newline_def)
  ultimately show ?thesis by (simp add: 5 contents_def)
qed

lemma demo_approved_now:
  assumes "contents m [Normal ''s'', Normal ''approved''] = Some (as_bytes (show_key two_keys k @ nl))"
  shows "approved_now two_keys demo_dir m = Some {k}"
proof -
  obtain j where "m (approved_path demo_dir) = Some (File (as_bytes (show_key two_keys k @ nl)) j)"
    using assms by (auto simp: contents_def approved_path_def join_def split: option.splits node.splits)
  moreover have "ascii (show_key two_keys k @ nl)" by (simp add: two_keys_def)
  then have "from_utf8 (as_bytes (show_key two_keys k @ nl)) = Some (show_key two_keys k @ nl)"
    using utf8_ok_ascii of_bytes_as_bytes by (metis from_utf8_def)
  ultimately show ?thesis
    using approved_in_key [OF two_keys_laws] by (simp only: approved_now_def option.case node.case option.map)
qed

lemma demo_initially: "approved_now two_keys demo_dir (nodes (demo_world f)) = Some {True}"
  by (rule demo_approved_now) (simp add: demo_world_def contents_def two_keys_def)



section \<open>The pending table\<close>

lemma insort_key_last: "f a \<le> f x \<Longrightarrow> insort_key f a (ys @ [x]) = insort_key f a ys @ [x]"
  by (induction ys) auto

lemma sort_key_last: "\<forall>y \<in> set l. f y \<le> f x \<Longrightarrow> sort_key f (l @ [x]) = sort_key f l @ [x]"
  by (induction l) (simp_all add: insort_key_last)

lemma length_note_pending: "length (note_pending t now l) \<le> Suc (length l)"
  by (induction t now l rule: note_pending.induct) auto

lemma note_pending_known:
  "t \<in> pubkey ` set l \<Longrightarrow> map pubkey (note_pending t now l) = map pubkey l"
  by (induction t now l rule: note_pending.induct) auto

lemma note_pending_new:
  "t \<notin> pubkey ` set l \<Longrightarrow> note_pending t now l
     = l @ [\<lparr>pubkey = t, first_seen_unix = now, last_seen_unix = now, attempts = 1\<rparr>]"
  by (induction t now l rule: note_pending.induct) auto

lemma note_pending_entry:
  "\<exists>p \<in> set (note_pending t now l). pubkey p = t \<and> last_seen_unix p = now
     \<and> (t \<notin> pubkey ` set l \<longrightarrow> first_seen_unix p = now \<and> attempts p = 1)
     \<and> (t \<in> pubkey ` set l \<longrightarrow> (\<exists>q \<in> set l. pubkey q = t \<and> first_seen_unix p = first_seen_unix q
          \<and> attempts p = attempts q + 1))"
  by (induction t now l rule: note_pending.induct) auto

lemma distinct_note_pending:
  "distinct (map pubkey l) \<Longrightarrow> distinct (map pubkey (note_pending t now l))"
  by (cases "t \<in> pubkey ` set l") (simp_all add: note_pending_known note_pending_new)

lemma length_keep_recent: "length (keep_recent l) \<le> PENDING_LIMIT"
  by (simp add: keep_recent_def)

lemma keep_recent_set: "set (keep_recent l) \<subseteq> set l"
  by (auto simp: keep_recent_def dest: in_set_dropD)

lemma distinct_keep_recent:
  assumes "distinct (map pubkey l)"
  shows "distinct (map pubkey (keep_recent l))"
proof -
  have "distinct (map pubkey (sort_key last_seen_unix l))"
    using assms by (simp add: distinct_map)
  then show ?thesis using assms by (simp add: keep_recent_def flip: drop_map)
qed

lemma keep_recent_evicts:
  assumes "p \<in> set l" and "p \<notin> set (keep_recent l)" and "q \<in> set (keep_recent l)"
  shows "last_seen_unix p \<le> last_seen_unix q"
proof -
  let ?s = "sort_key last_seen_unix l" and ?n = "length l - PENDING_LIMIT"
  have big: "PENDING_LIMIT < length l" using assms(1,2) by (auto simp: keep_recent_def split: if_splits)
  then have "p \<in> set (take ?n ?s)" "q \<in> set (drop ?n ?s)"
    using assms by (auto simp: keep_recent_def) (metis Un_iff append_take_drop_id set_append set_sort)
  moreover have "sorted (map last_seen_unix (take ?n ?s) @ map last_seen_unix (drop ?n ?s))"
    by (metis append_take_drop_id map_append sorted_sort_key)
  ultimately show ?thesis by (auto simp: sorted_append)
qed

lemma keep_recent_newcomer:
  assumes "length l \<le> PENDING_LIMIT" and "\<forall>p \<in> set l. last_seen_unix p \<le> now"
  shows "\<exists>p \<in> set (keep_recent (note_pending t now l)). pubkey p = t \<and> last_seen_unix p = now"
proof (cases "PENDING_LIMIT < length (note_pending t now l)")
  case False
  then show ?thesis using note_pending_entry [of t now l] by (auto simp: keep_recent_def)
next
  case True
  have new: "t \<notin> pubkey ` set l"
    using True assms(1) note_pending_known [of t l now] by (metis length_map not_le)
  let ?p = "\<lparr>pubkey = t, first_seen_unix = now, last_seen_unix = now, attempts = 1\<rparr> :: PendingAgent"
  have "sort_key last_seen_unix (l @ [?p]) = sort_key last_seen_unix l @ [?p]"
    by (rule sort_key_last) (use assms(2) in simp)
  moreover have "Suc 0 - PENDING_LIMIT = 0" by (simp add: PENDING_LIMIT_def)
  ultimately show ?thesis
    using True assms(1) by (auto simp: note_pending_new [OF new] keep_recent_def intro!: bexI [of _ ?p])
qed

lemma note_pending_keeps: "p \<in> set l \<Longrightarrow> pubkey p \<noteq> t \<Longrightarrow> p \<in> set (note_pending t now l)"
  by (induction t now l rule: note_pending.induct) auto

lemma pending_calm:
  assumes "calm w" and "\<And>z. nodes w (pending_path st) \<noteq> Some (Symlink z)"
  shows "pending c st w =
    (case nodes w (pending_path st) of
       None \<Rightarrow> Inr []
     | Some (File b _) \<Rightarrow> with_context ''parsing pending.json'' (pending_from_json c b)
     | Some (Dir _) \<Rightarrow> Inl (Context ''reading pending.json'' eisdir)
     | Some _ \<Rightarrow> Inl (Context ''reading pending.json'' enxio), next_tick w)"
  using assms follow_self [of "nodes w" "pending_path st"]
  by (auto simp: pending_def io_catch_def read_bytes_def fs_call_calm enoent_def eisdir_def enxio_def
      split: option.splits node.splits)

definition unix_of :: "int \<Rightarrow> u64" where
  "unix_of z = (if z < 0 then 0 else word_of_int z)"

lemma record_pending_run:
  assumes "record_pending c st key w = (Inr (), w')" and "calm w" and "state_ready st w"
    and "fst (pending c st w) = Inr l"
  obtains t b where "pending_to_json c (keep_recent (note_pending (show_key c key) (unix_of (clock w t)) l)) = Inr b"
    "contents (nodes w') (pending_path st) = Some b" "calm w'"
proof -
  from assms(1) obtain w1 now w2 l1 w3 where
    1: "ensure_state st w = (Inr (), w1)" and 2: "now_unix w1 = (Inr now, w2)" and
    3: "pending c st w2 = (Inr l1, w3)" and
    4: "write_pending c st (keep_recent (note_pending (show_key c key) now l1)) w3 = (Inr (), w')"
    unfolding record_pending_def by (auto elim!: io_bind_InrE)
  note e = ensure_state_ready [OF 1 assms(3)]
  have t1: "touches UNIV w w1" using io_respectsD [OF ensure_state_touches_any 1] .
  have w2: "w2 = next_tick w1" "now = unix_of (clock w (tick w1))"
    using 2 touches_env(3) [OF t1] by (auto simp: now_unix_def unix_of_def split: if_splits)
  have calm2: "calm w2" using touches_calm [OF t1] assms(2) w2 by simp
  have ns: "\<And>z. nodes v (pending_path st) \<noteq> Some (Symlink z)" if "v = w \<or> v = w2" for v
    using that assms(3) e(1) w2 by (auto simp: state_ready_def)
  have "nodes w2 (pending_path st) = nodes w (pending_path st)" using e(2) w2 by (simp add: leaf_paths)
  then have l1: "l1 = l" and w3: "w3 = next_tick w2"
    using assms(4) 3 pending_calm [OF assms(2) ns, of c] pending_calm [OF calm2 ns, of c] by auto
  have "stage_clear w3 (pending_path st)"
    using e(1) stage_clear_touches [OF touches_trans [OF touches_next_tick touches_next_tick]] w2 w3
    by (auto simp: state_ready_def)
  note rep = state_file.replace_success [OF this]
  from 4 l1 w2 obtain b where
    b: "pending_to_json c (keep_recent (note_pending (show_key c key) (unix_of (clock w (tick w1))) l)) = Inr b"
      "write_atomic (pending_path st) b w3 = (Inr (), w')"
    by (auto simp: write_pending_def split: sum.splits)
  moreover have "calm w'" using touches_calm [OF io_respectsD [OF write_atomic_touches_any b(2)]] calm2 w3 by simp
  ultimately show thesis using that rep by blast
qed

text \<open>However many strangers dial, the pending table holds at most 256 entries, one per
  key; the agent that just dialled is in it as long as the clock has not gone backwards, and
  an entry that was dropped had been seen no later than every entry that was kept.\<close>

theorem record_pending_bounded:
  assumes json: "\<And>l b. pending_to_json c l = Inr b \<Longrightarrow> pending_from_json c b = Inr l"
    and "calm w" and "state_ready st w" and "fst (pending c st w) = Inr l"
    and "record_pending c st key w = (Inr (), w')"
  shows "\<exists>l'. fst (pending c st w') = Inr l' \<and> length l' \<le> 256
    \<and> (distinct (map pubkey l) \<longrightarrow> distinct (map pubkey l'))
    \<and> (length l \<le> 256 \<and> (\<forall>p \<in> set l. \<forall>t. last_seen_unix p \<le> unix_of (clock w t))
         \<longrightarrow> show_key c key \<in> pubkey ` set l')
    \<and> (\<forall>p \<in> set l. \<forall>q \<in> set l'. pubkey p \<noteq> show_key c key \<and> p \<notin> set l'
         \<longrightarrow> last_seen_unix p \<le> last_seen_unix q)"
proof -
  from record_pending_run [OF assms(5,2-4)] obtain t b where
    b: "pending_to_json c (keep_recent (note_pending (show_key c key) (unix_of (clock w t)) l)) = Inr b"
    and w': "contents (nodes w') (pending_path st) = Some b" "calm w'" .
  define l' where "l' = keep_recent (note_pending (show_key c key) (unix_of (clock w t)) l)"
  have "\<exists>k. nodes w' (pending_path st) = Some (File b k)"
    using w'(1) by (auto simp: contents_def split: option.splits node.splits)
  then have "fst (pending c st w') = Inr l'"
    using pending_calm [OF w'(2), of st c] json [OF b] by (auto simp: l'_def)
  moreover have "length l' \<le> 256" using length_keep_recent by (simp add: l'_def PENDING_LIMIT_def)
  moreover have "distinct (map pubkey l) \<longrightarrow> distinct (map pubkey l')"
    by (simp add: l'_def distinct_keep_recent distinct_note_pending)
  moreover have "show_key c key \<in> pubkey ` set l'"
    if "length l \<le> 256" "\<forall>p \<in> set l. \<forall>t. last_seen_unix p \<le> unix_of (clock w t)"
    using keep_recent_newcomer [of l "unix_of (clock w t)" "show_key c key"] that
    by (force simp: l'_def PENDING_LIMIT_def)
  moreover have "last_seen_unix p \<le> last_seen_unix q"
    if "p \<in> set l" "q \<in> set l'" "pubkey p \<noteq> show_key c key" "p \<notin> set l'" for p q
    using keep_recent_evicts [OF note_pending_keeps] that by (simp add: l'_def)
  ultimately show ?thesis by blast
qed

text \<open>A codec that can only write the table of one first dialler.\<close>

definition one_entry :: PendingAgent where
  "one_entry = \<lparr>pubkey = ''t'', first_seen_unix = 0, last_seen_unix = 0, attempts = 1\<rparr>"

definition one_codec :: "bool codec" where
  "one_codec = two_keys\<lparr>pending_to_json := (\<lambda>l. if l = [one_entry] then Inr [1] else Inl (Msg ''bad'')),
     pending_from_json := (\<lambda>b. if b = [1] then Inr [one_entry] else Inl (Msg ''bad''))\<rparr>"

lemma demo_record_pending: "\<exists>w'. record_pending one_codec demo_dir True (demo_world (\<lambda>_. None)) = (Inr (), w')"
proof -
  let ?p = "[Normal ''s'', Normal ''pending.json'']"
  define w2 where "w2 = (put_node [Normal ''s''] (Some (Dir 448)) (demo_world (\<lambda>_. None)))\<lparr>tick := 2\<rparr>"
  have 1: "ensure_state demo_dir (demo_world (\<lambda>_. None)) = (Inr (), w2)"
    unfolding w2_def by (rule demo_ensure) simp_all
  have w2: "fault w2 = (\<lambda>_. None)" "tick w2 = 2" "pid w2 = 1" "nodes w2 = nodes (demo_world (\<lambda>_. None))" "clock w2 = (\<lambda>_. 0)"
    by (auto simp: w2_def demo_world_def)
  let ?w3 = "next_tick w2" and ?w4 = "next_tick (next_tick w2)"
  have p: "pending_path demo_dir = ?p" by (simp add: pending_path_def join_def)
  have np: "nodes ?w3 (pending_path demo_dir) = None" by (simp add: p w2 demo_world_def)
  have 2: "now_unix w2 = (Inr 0, ?w3)" by (simp add: now_unix_def w2)
  have 3: "pending one_codec demo_dir ?w3 = (Inr [], ?w4)"
    using np pending_calm [of ?w3 demo_dir one_codec] by (simp add: calm_def w2)
  have dir: "parent_is_dir (nodes w2) ?p"
    using is_dir_s by (simp add: parent_is_dir_def parent_path_def w2)
  have pp: "?p = [Normal ''s''] @ [Normal ''pending.json'']" by simp
  have "\<exists>w5. write_atomic ?p [1] ?w4 = (Inr (), w5)
      \<and> nodes w5 = (nodes ?w4)(?p \<mapsto> File [1] (and 438 (not (umask ?w4)))) \<and> tick w5 = tick ?w4 + 3 \<and> fault w5 = fault ?w4"
    by (rule write_atomic_fresh [OF _ pp])
      (use dir in \<open>auto simp: w2 unique_tmp_def with_file_name_def file_name_def demo_world_def\<close>)
  then obtain w5 where "write_atomic ?p [1] ?w4 = (Inr (), w5)" by blast
  then have "write_pending one_codec demo_dir [one_entry] ?w4 = (Inr (), w5)"
    by (simp add: write_pending_def one_codec_def p)
  moreover have "keep_recent (note_pending (show_key one_codec True) 0 []) = [one_entry]"
    by (simp add: keep_recent_def PENDING_LIMIT_def one_entry_def one_codec_def two_keys_def)
  ultimately show ?thesis using 1 2 3 by (simp add: record_pending_def io_bind_def)
qed

theorem record_pending_bounded_witness:
  "\<exists>l' w'. record_pending one_codec demo_dir True (demo_world (\<lambda>_. None)) = (Inr (), w')
     \<and> fst (pending one_codec demo_dir w') = Inr l' \<and> length l' \<le> 256 \<and> ''t'' \<in> pubkey ` set l'"
proof -
  let ?w = "demo_world (\<lambda>_. None)"
  obtain w' where run: "record_pending one_codec demo_dir True ?w = (Inr (), w')"
    using demo_record_pending by blast
  have calm: "calm ?w" by (simp add: calm_def demo_world_def)
  have none: "fst (pending one_codec demo_dir ?w) = Inr []"
    using pending_calm [OF calm, of demo_dir one_codec] by (simp add: demo_world_def pending_path_def join_def)
  have json: "pending_from_json one_codec b = Inr l" if "pending_to_json one_codec l = Inr b" for l b
    using that by (auto simp: one_codec_def split: if_splits)
  from record_pending_bounded [OF json calm demo_ready none run] run show ?thesis
    by (auto simp: one_codec_def two_keys_def)
qed

section \<open>Identities\<close>

lemma read_bytes_calm_file:
  "calm w \<Longrightarrow> nodes w p = Some (File b k) \<Longrightarrow> read_bytes p w = (Inr b, next_tick w)"
  using follow_self [of "nodes w" p] by (simp add: read_bytes_def fs_call_calm)

lemma read_key_file:
  assumes "calm w" and "nodes w p = Some (File b k)" and "length b = 32"
  shows "\<exists>w'. read_key from_bytes p w = (Inr (Some (from_bytes b)), w') \<and> touches {} w w'"
proof -
  obtain y w' where m: "metadata p (next_tick w) = (y, w')" by (metis prod.exhaust)
  have "touches {} (next_tick w) w'" by (rule io_respectsD [OF metadata_touches m])
  then have "touches {} w w'" using touches_next_tick touches_trans by blast
  then show ?thesis
    using read_bytes_calm_file [OF assms(1,2)] assms(3) m
    by (simp add: read_key_def io_catch_def io_bind_def warn_if_readable_def)
qed

lemma read_key_touches: "io_respects (touches S) (read_key from_bytes p)"
  unfolding read_key_def warn_if_readable_def
  by (intro env_rules read_bytes_touches) (auto split: sum.splits intro!: env_rules metadata_touches)

lemma read_key_SomeE:
  assumes "read_key from_bytes p w = (Inr (Some k), w')" and "\<And>z. nodes w p \<noteq> Some (Symlink z)"
  obtains b m where "nodes w p = Some (File b m)" "length b = 32" "k = from_bytes b"
  using assms follow_self [of "nodes w" p]
  by (auto simp: read_key_def io_catch_def read_bytes_def fs_call_def enoent_def eisdir_def enxio_def io_bind_def
      split: prod.splits sum.splits option.splits node.splits if_splits)

lemma create_key_Inr:
  assumes "create_key from_bytes p w = (Inr k, w')" and "file_name p \<noteq> None"
  obtains b m where "nodes w' p = Some (File b m)" "length b = 32" "k = from_bytes b"
proof -
  from assms(1) obtain b w1 w2 where b: "getrandom 32 w = (Inr b, w1)" "k = from_bytes b"
    and wp: "write_private p b w2 = (Inr (), w')"
    unfolding create_key_def by (auto elim!: io_bind_InrE)
  from key_file.replace_success [OF assms(2) wp] obtain m where "nodes w' p = Some (File b m)"
    by (auto simp: contents_def split: option.splits node.splits)
  with b getrandom_Inr [OF b(1)] that show thesis by blast
qed

lemma make_parent_touches_any: "io_respects (touches UNIV) (make_parent p)"
  unfolding make_parent_def restrict_dir_def
  by (auto split: option.splits
      intro!: env_rules path_exists_touches create_dir_all_touches set_permissions_touches_any)

lemma write_private_touches_any: "io_respects (touches UNIV) (write_private p b)"
proof -
  have "io_respects (touches UNIV)
     (io_bind (io_context (fmt [''creating '', show_path t]) (create_new t 384)) (\<lambda>_.
      io_bind (io_context ''writing key'' (write_all t b)) (\<lambda>_.
      io_bind (io_context ''flushing key'' (handle_call ())) (\<lambda>_.
      io_context (fmt [''renaming into '', show_path p]) (rename t p)))))" for t
    by (intro env_rules create_new_touches write_all_touches handle_call_touches rename_touches UNIV_I)
  then show ?thesis by (auto simp: write_private_def Let_def io_respects_def)
qed

lemma create_key_touches_any: "io_respects (touches UNIV) (create_key from_bytes p)"
  unfolding create_key_def
  by (intro env_rules getrandom_touches make_parent_touches_any write_private_touches_any)

lemma load_or_create_key_touches_any: "io_respects (touches UNIV) (load_or_create_key from_bytes p u)"
  unfolding load_or_create_key_def
  by (intro env_rules read_key_touches)
    (auto split: sum.splits option.splits intro!: env_rules create_key_touches_any)


text \<open>A controller never mints a second identity over a key file it cannot use: with the
  refusing policy an existing file is left exactly as it was, whatever its length and whatever
  reads fail, and a key is returned only if it is the one in the file.\<close>

theorem refuse_keeps_identity:
  assumes "nodes w p = Some (File b m)" and "\<And>n e. fault w n = Some e \<Longrightarrow> fst e \<noteq> NotFound"
    and "load_or_create_key from_bytes p Refuse w = (x, w')"
  shows "touches {} w w' \<and> (\<forall>k. x = Inr k \<longrightarrow> length b = 32 \<and> k = from_bytes b)"
proof -
  obtain y w1 where r: "read_key from_bytes p w = (y, w1)" by (metis prod.exhaust)
  have t: "touches {} w w1" by (rule io_respectsD [OF read_key_touches r])
  have "y \<noteq> Inr None"
    using r assms(1,2) follow_self [of "nodes w" p]
    by (auto simp: read_key_def io_catch_def read_bytes_def fs_call_def io_bind_def
        split: option.splits prod.splits sum.splits if_splits)
  then have "x = map_sum id the y \<and> w' = w1"
    using assms(3) r by (auto simp: load_or_create_key_def io_catch_def split: sum.splits option.splits)
  moreover have "length b = 32 \<and> k = from_bytes b" if "y = Inr (Some k)" for k
    using read_key_SomeE [OF r [unfolded that]] assms(1) by auto
  ultimately show ?thesis using t \<open>y \<noteq> Inr None\<close> by (cases y) auto
qed

text \<open>Once a staging file of this process is in the way, no attempt to create the key gets
  anywhere, and the staging file stays.\<close>

lemma create_key_blocked:
  assumes "nodes w (unique_tmp (pid w) p) \<noteq> None" and "create_key from_bytes p w = (x, w')"
    and "make_parent p = io_ok ()"
  shows "isl x" and "touches {} w w'"
proof -
  obtain y w1 where g: "getrandom 32 w = (y, w1)" by (metis prod.exhaust)
  then have w1: "w1 = next_tick w" by (rule getrandom_world)
  have "isl x \<and> touches {} w w'"
  proof (cases y)
    case (Inl e)
    with assms(2) g w1 show ?thesis by (auto simp: create_key_def io_bind_def)
  next
    case (Inr b)
    obtain e where "write_private p b w1 = (Inl e, next_tick w1)"
      using write_private_blocked [of w1 p b] assms(1) w1 by auto
    with assms(2,3) g w1 Inr touches_trans [OF touches_next_tick touches_next_tick] show ?thesis
      by (auto simp: create_key_def io_bind_def)
  qed
  then show "isl x" "touches {} w w'" by blast+
qed

lemma blank_load:
  "\<exists>w'. load_or_create_key id [Normal ''k''] u blank_world = (Inr (replicate 32 0), w')"
proof -
  have m: "make_parent [Normal ''k''] = io_ok ()" by (simp add: make_parent_def parent_path_def)
  have r: "read_key id [Normal ''k''] blank_world = (Inr None, next_tick blank_world)"
    using follow_self [of "nodes blank_world" "[Normal ''k'']"]
    by (simp add: read_key_def io_catch_def read_bytes_def fs_call_calm enoent_def)
  let ?w1 = "next_tick (next_tick blank_world)" and ?t = "unique_tmp 1 [Normal ''k'']"
  have t: "?t \<noteq> [Normal ''k'']" "parent_is_dir m ?t" "parent_is_dir m [Normal ''k'']" for m
    by (simp_all add: unique_tmp_def with_file_name_def file_name_def parent_is_dir_def parent_path_def)
  have g: "getrandom 32 (next_tick blank_world) = (Inr (map (\<lambda>_. 0) [0..<32]), ?w1)"
    by (simp add: getrandom_def blank_world_def next_tick_def)
  have "\<exists>w'. write_private [Normal ''k''] b ?w1 = (Inr (), w')" for b
    by (simp add: write_private_def create_new_def write_all_def handle_call_def rename_def fs_call_calm
        io_bind_def io_context_def Let_def t t(1) [symmetric])
  then obtain w' where "write_private [Normal ''k''] (map (\<lambda>_. 0) [0..<32]) ?w1 = (Inr (), w')" by blast
  moreover have "map (\<lambda>_. 0 :: u8) [0..<32] = replicate 32 0" by (simp add: map_replicate_const)
  ultimately show ?thesis
    using r g m by (auto simp: load_or_create_key_def io_catch_def create_key_def io_bind_def)
qed


theorem refuse_keeps_identity_witness:
  "\<exists>x w'. load_or_create_key id [Normal ''k''] Refuse
       (blank_world\<lparr>nodes := [[Normal ''k''] \<mapsto> File [1, 2] 384]\<rparr>) = (x, w')
     \<and> nodes w' [Normal ''k''] = Some (File [1, 2] 384) \<and> isl x"
proof -
  let ?w = "blank_world\<lparr>nodes := [[Normal ''k''] \<mapsto> File [1, 2] 384]\<rparr>"
  obtain x w' where run: "load_or_create_key id [Normal ''k''] Refuse ?w = (x, w')" by (metis prod.exhaust)
  from refuse_keeps_identity [OF _ _ run, of "[1, 2]" 384] have "touches {} ?w w'" "\<forall>k. x \<noteq> Inr k" by auto
  with run touches_nodes [of "{}" ?w w'] show ?thesis by (cases x) auto
qed

text \<open>What \<open>serve\<close> publishes about itself is what \<open>status\<close> reads back.\<close>

theorem status_roundtrip:
  assumes json: "\<And>s b. status_to_json c s = Inr b \<Longrightarrow> status_from_json c b = Inr s"
    and "stage_clear w (status_path st)" and "write_status c st s w = (Inr (), w')"
    and "read_bytes (status_path st) w' = (Inr body, w'')"
  shows "fst (read_status c st w') = Inr s"
proof -
  from assms(3) obtain b where b: "status_to_json c s = Inr b" "write_atomic (status_path st) b w = (Inr (), w')"
    by (auto simp: write_status_def split: sum.splits)
  from state_file.read_back [OF assms(2) b(2) assms(4)] have "body = b" .
  with assms(4) json [OF b(1)] show ?thesis by (simp add: read_status_def io_bind_def io_context_def)
qed

theorem status_roundtrip_witness:
  "\<exists>c s w'. write_status c demo_dir s (demo_world (\<lambda>_. None)) = (Inr (), w')
     \<and> fst (read_status (c :: bool codec) demo_dir w') = Inr s"
proof -
  define s where "s = \<lparr>node_id = ''n'', st_pid = 1, updated_unix = 2, direct_addrs = [], dialable = Some True,
    probe_mode = Discovery, last_probe_ok_unix = None, last_probe_path = None, last_probe_error = None,
    consecutive_probe_failures = 0, endpoint_restarts = 0, sessions = []\<rparr>"
  define c where "c = two_keys\<lparr>status_to_json := (\<lambda>x. if x = s then Inr [1] else Inl (Msg ''bad'')),
    status_from_json := (\<lambda>b. if b = [1] then Inr s else Inl (Msg ''bad''))\<rparr>"
  let ?w = "demo_world (\<lambda>_. None)" and ?p = "[Normal ''s'', Normal ''status.json'']"
  have p: "status_path demo_dir = ?p" "?p = [Normal ''s''] @ [Normal ''status.json'']"
    by (simp_all add: status_path_def join_def)
  have "\<exists>w'. write_atomic ?p [1] ?w = (Inr (), w')
      \<and> nodes w' = (nodes ?w)(?p \<mapsto> File [1] (and 438 (not (umask ?w)))) \<and> tick w' = tick ?w + 3 \<and> fault w' = fault ?w"
    by (rule write_atomic_fresh [OF _ p(2)])
      (use is_dir_s in \<open>auto simp: unique_tmp_def with_file_name_def file_name_def demo_world_def
        parent_is_dir_def parent_path_def\<close>)
  then obtain w' where w': "write_atomic ?p [1] ?w = (Inr (), w')" "nodes w' ?p = Some (File [1] (and 438 (not (umask ?w))))"
      "fault w' = fault ?w" by auto
  have run: "write_status c demo_dir s ?w = (Inr (), w')" using w'(1) by (simp add: write_status_def c_def p(1))
  have "calm w'" using w'(3) by (simp add: calm_def demo_world_def)
  from read_bytes_calm_file [OF this w'(2)] have rd: "read_bytes (status_path demo_dir) w' = (Inr [1], next_tick w')"
    by (simp add: p(1))
  have json: "status_from_json c b = Inr x" if "status_to_json c x = Inr b" for x b
    using that by (auto simp: c_def split: if_splits)
  have "stage_clear ?w (status_path demo_dir)" using demo_ready by (simp add: state_ready_def)
  from status_roundtrip [OF json this run rd] run show ?thesis by blast
qed

end
