(* ===== verification/Pipe.thy ===== *)
theory Pipe
  imports Streams
begin

text \<open>
  \<open>src/pipe.rs\<close>: byte-for-byte splicing between two duplex streams.  A direction is
  \<open>tokio::io::copy\<close> (an 8 KiB buffer, refilled until end of stream) followed by a shutdown
  of the writer; the two directions run at the same time on four separate halves, so the
  order in which their steps interleave cannot be observed.
\<close>

definition COPY_BUF :: nat where "COPY_BUF = 8192"

text \<open>\<open>tokio::io::copy\<close>: the bytes copied, or the error of the half that failed.\<close>

function copy :: "reader \<Rightarrow> sink \<Rightarrow> u64 \<Rightarrow> u64 result \<times> reader \<times> sink" where
  "copy r s n =
     (case read_some COPY_BUF r of
        (Inl e, r') \<Rightarrow> (Inl e, r', s)
      | (Inr b, r') \<Rightarrow>
          (if b = [] then
             (case send_ctl s of (Inl e, s') \<Rightarrow> (Inl e, r', s') | (Inr _, s') \<Rightarrow> (Inr n, r', s'))
           else
             (case send_all b s of
                (Inl e, s') \<Rightarrow> (Inl e, r', s')
              | (Inr _, s') \<Rightarrow> copy r' s' (n + word_of_nat (length b)))))"
  by pat_completeness auto
termination
  by (relation "measure (\<lambda>(r, s, n). length (arriving r))")
    (auto simp: COPY_BUF_def dest!: read_some_shrinks [OF sym])

declare copy.simps [simp del]

text \<open>One direction; the results of the copy and of the shutdown are discarded.\<close>

definition one_way :: "reader \<Rightarrow> sink \<Rightarrow> reader \<times> sink" where
  "one_way r s = (case copy r s 0 of (_, r', s') \<Rightarrow> (case send_ctl s' of (_, s'') \<Rightarrow> (r', s'')))"

definition splice_streams ::
  "reader \<Rightarrow> sink \<Rightarrow> reader \<Rightarrow> sink \<Rightarrow> (reader \<times> sink) \<times> (reader \<times> sink)" where
  "splice_streams ar aw br bw =
     (case one_way ar bw of (ar', bw') \<Rightarrow>
      case one_way br aw of (br', aw') \<Rightarrow> ((ar', aw'), (br', bw')))"

lemma copy_prefix:
  assumes "copy r s n = (x, r', s')"
  shows "\<exists>b rest. arriving r = b @ rest \<and> sent s' = sent s @ b"
  using assms
proof (induction "length (arriving r)" arbitrary: r s n rule: less_induct)
  case less
  obtain y r1 where rd: "read_some COPY_BUF r = (y, r1)" by (metis prod.exhaust)
  have pos: "0 < COPY_BUF" by (simp add: COPY_BUF_def)
  from rd pos show ?case
  proof (cases rule: read_some_cases)
    case (data b)
    obtain z s1 where wr: "send_all b s = (z, s1)" by (metis prod.exhaust)
    show ?thesis
    proof (cases z)
      case (Inl e)
      with less.prems rd data wr have "s' = s1" by (auto simp: copy.simps [of r s n])
      with send_all_prefix [OF wr] data(4) show ?thesis by (metis append.assoc append_take_drop_id)
    next
      case (Inr u)
      with less.prems rd data wr have "copy r1 s1 (n + word_of_nat (length b)) = (x, r', s')"
        by (auto simp: copy.simps [of r s n])
      from less.hyps [OF _ this] data(2,4) obtain c rest where
        "arriving r1 = c @ rest" "sent s' = sent s1 @ c" by auto
      with wr Inr data(4) send_all_Inr [of b s s1] show ?thesis by (intro exI [of _ "b @ c"] exI [of _ rest]) auto
    qed
  next
    case eof
    obtain z s1 where "send_ctl s = (z, s1)" by (metis prod.exhaust)
    with less.prems rd eof send_all_prefix [of "[]" s z s1] show ?thesis
      by (auto simp: copy.simps [of r s n] send_ctl_def split: sum.splits)
  next
    case (failure e t)
    with less.prems rd show ?thesis by (auto simp: copy.simps [of r s n])
  qed
qed

lemma copy_whole:
  assumes "healthy s" and "broken r = None"
  shows "\<exists>n' r' s'. copy r s n = (Inr n', r', s') \<and> sent s' = sent s @ arriving r \<and> arriving r' = [] \<and> healthy s'"
  using assms
proof (induction "length (arriving r)" arbitrary: r s n rule: less_induct)
  case less
  obtain y r1 where rd: "read_some COPY_BUF r = (y, r1)" by (metis prod.exhaust)
  have pos: "0 < COPY_BUF" by (simp add: COPY_BUF_def)
  from rd pos show ?case
  proof (cases rule: read_some_cases)
    case (data b)
    obtain s1 where s1: "send_all b s = (Inr (), s1)" "healthy s1" "sent s1 = sent s @ b"
      using less.prems(1) by (rule send_all_healthy)
    from less.hyps [OF _ s1(2), of r1 "n + word_of_nat (length b)"] data less.prems(2) obtain n' r' s' where
      "copy r1 s1 (n + word_of_nat (length b)) = (Inr n', r', s')" "sent s' = sent s1 @ arriving r1"
      "arriving r' = []" "healthy s'" by auto
    with rd data s1 show ?thesis by (simp add: copy.simps [of r s n])
  next
    case eof
    obtain s1 where "send_ctl s = (Inr (), s1)" "healthy s1" "sent s1 = sent s"
      using less.prems(1) by (rule send_ctl_healthy)
    with rd eof show ?thesis by (simp add: copy.simps [of r s n])
  qed (use less.prems(2) in simp)
qed

lemma one_way_prefix: "one_way r s = (r', s') \<Longrightarrow> \<exists>b rest. arriving r = b @ rest \<and> sent s' = sent s @ b"
  by (auto simp: one_way_def send_ctl_def split: prod.splits dest!: copy_prefix send_all_prefix)

lemma one_way_whole:
  assumes "healthy s" and "broken r = None"
  shows "sent (snd (one_way r s)) = sent s @ arriving r"
proof -
  obtain n' r' s1 where c: "copy r s 0 = (Inr n', r', s1)" "sent s1 = sent s @ arriving r" "healthy s1"
    using copy_whole [OF assms, of 0] by blast
  obtain s2 where "send_ctl s1 = (Inr (), s2)" "sent s2 = sent s1" using c(3) by (rule send_ctl_healthy)
  with c show ?thesis by (simp add: one_way_def)
qed



end
