(* ===== verification/Process.thy ===== *)
theory Process
  imports Fs
begin

text \<open>
  Child processes of this machine.  What a program does is an argument of the definitions that
  run it: from the command line and the disk it makes its exit status, or the error of starting
  it, and the disk it leaves.
\<close>

datatype ExitStatus = Exited u32 | Signaled u32

type_synonym spawn = "string list \<Rightarrow> (world, ExitStatus) io"

definition exit_success :: "ExitStatus \<Rightarrow> bool" where
  "exit_success s \<longleftrightarrow> s = Exited 0"

text \<open>\<open>ExitStatus::code\<close>.\<close>

fun status_code :: "ExitStatus \<Rightarrow> u32 option" where
  "status_code (Exited c) = Some c"
| "status_code (Signaled s) = None"

text \<open>How an exit status is displayed; a core dump is not told apart.\<close>

definition signal_names :: "string list" where
  "signal_names =
     [''SIGHUP'', ''SIGINT'', ''SIGQUIT'', ''SIGILL'', ''SIGTRAP'', ''SIGABRT'', ''SIGBUS'', ''SIGFPE'', ''SIGKILL'',
      ''SIGUSR1'', ''SIGSEGV'', ''SIGUSR2'', ''SIGPIPE'', ''SIGALRM'', ''SIGTERM'', ''SIGSTKFLT'', ''SIGCHLD'', ''SIGCONT'',
      ''SIGSTOP'', ''SIGTSTP'', ''SIGTTIN'', ''SIGTTOU'', ''SIGURG'', ''SIGXCPU'', ''SIGXFSZ'', ''SIGVTALRM'', ''SIGPROF'',
      ''SIGWINCH'', ''SIGIO'', ''SIGPWR'', ''SIGSYS'']"

fun show_ExitStatus :: "ExitStatus \<Rightarrow> string" where
  "show_ExitStatus (Exited c) = fmt [''exit status: '', dec (unat c)]"
| "show_ExitStatus (Signaled s) =
     (if 1 \<le> unat s \<and> unat s \<le> length signal_names
      then fmt [''signal: '', dec (unat s), '' ('', signal_names ! (unat s - 1), '')'']
      else fmt [''signal: '', dec (unat s)])"

end
