(* ===== verification/Agent.thy ===== *)
theory Agent
  imports Duplex Exec_Output State_Dir Pipe Process
begin

text \<open>
  \<open>src/agent.rs\<close>: the agent dials out, waits for admission, and serves requests.

  The machine and the network around it are arguments.  \<open>agent_net\<close> is what dialling does;
  \<open>target\<close> is what spawning a program and connecting a socket do.  A spawned child brings the
  bytes of its two output pipes, the order in which the two pump tasks get their frames into
  the channel, what the drain loop observes, and its exit status.  Durations are seconds.
\<close>

section \<open>Dialling\<close>

definition CONNECT_TIMEOUT :: nat where "CONNECT_TIMEOUT = 45"
definition SHORT_RETRY :: nat where "SHORT_RETRY = 1"
definition PENDING_RETRY :: nat where "PENDING_RETRY = 5"
definition MAX_BACKOFF :: nat where "MAX_BACKOFF = 30"
definition EXEC_CHUNK :: nat where "EXEC_CHUNK = 32768"
definition DRAIN_IDLE :: nat where "DRAIN_IDLE = 2"
definition DRAIN_CAP :: nat where "DRAIN_CAP = 15"

record 'k agent_config =
  cfg_controller :: 'k
  cfg_key_file :: path
  cfg_relay :: RelayChoice
  cfg_direct :: "SocketAddr list"

datatype Outcome = OutPending | Ended string

text \<open>One turn of the dial loop: the delay before the next dial, and the new backoff.\<close>

fun next_delay :: "Outcome result \<Rightarrow> nat \<Rightarrow> nat \<times> nat" where
  "next_delay (Inr OutPending) backoff = (PENDING_RETRY, SHORT_RETRY)"
| "next_delay (Inr (Ended e)) backoff = (SHORT_RETRY, SHORT_RETRY)"
| "next_delay (Inl e) backoff = (backoff, min (backoff * 2) MAX_BACKOFF)"

text \<open>The delays over a sequence of dial outcomes.\<close>

fun dial_delays :: "nat \<Rightarrow> Outcome result list \<Rightarrow> nat list" where
  "dial_delays backoff [] = []"
| "dial_delays backoff (x # xs) =
     (case next_delay x backoff of (delay, backoff') \<Rightarrow> delay # dial_delays backoff' xs)"

text \<open>The loop that gets the agent its key, at most \<open>n\<close> attempts of it (\<open>None\<close>: all failed).\<close>

fun key_attempts :: "nat \<Rightarrow> (bytes \<Rightarrow> 'sk) \<Rightarrow> path \<Rightarrow> world \<Rightarrow> 'sk option \<times> world" where
  "key_attempts 0 from_bytes p w = (None, w)"
| "key_attempts (Suc n) from_bytes p w =
     (case load_or_create_key from_bytes p Replace w of
        (Inr k, w') \<Rightarrow> (Some k, w')
      | (Inl e, w') \<Rightarrow> key_attempts n from_bytes p w')"

text \<open>\<open>join(", ")\<close>.\<close>

fun comma_sep :: "string list \<Rightarrow> string" where
  "comma_sep [] = []"
| "comma_sep [s] = s"
| "comma_sep (s # ss) = s @ '', '' @ comma_sep ss"

definition agent_route :: "'k agent_config \<Rightarrow> string" where
  "agent_route cfg =
     (let relay = (case cfg_relay cfg of
                     N0 \<Rightarrow> ''the public relays'' | Disabled \<Rightarrow> ''no relay'' | Urls urls \<Rightarrow> comma_sep urls)
      in if cfg_direct cfg = [] then fmt [relay, '', address found by DNS'']
         else fmt [comma_sep (map show_SocketAddr (cfg_direct cfg)), '' directly, '', relay])"

text \<open>
  What the network does to one dial: the socket, the outcome of connecting (\<open>None\<close>: the
  timeout passed), the stream the controller opens, and why the session ended.
\<close>

record ('sk, 'k) agent_net =
  an_bind :: "'sk endpoint \<Rightarrow> unit result"
  an_connect :: "'sk endpoint \<Rightarrow> 'k endpoint_addr \<Rightarrow> string \<Rightarrow> conn_paths result option"
  an_accept_uni :: "reader result"
  an_ended :: string

definition read_admission :: "postcard \<Rightarrow> ('sk, 'k) agent_net \<Rightarrow> Admission result" where
  "read_admission pc net =
     (case an_accept_uni net of
        Inl e \<Rightarrow> Inl e
      | Inr r \<Rightarrow> fst (read_msg (dec_admission pc) r))"

text \<open>The outcome, and whether requests were served on the connection.\<close>

definition session ::
  "(string \<Rightarrow> string + string) \<Rightarrow> postcard \<Rightarrow> ('sk, 'k) agent_net \<Rightarrow> 'sk \<Rightarrow> 'k agent_config
    \<Rightarrow> Outcome result \<times> bool" where
  "session parse_url pc net secret cfg =
     (let lookup = (if cfg_direct cfg = [] then LookupResolve else LookupNone)
      in case bind parse_url (an_bind net) (Some secret) (cfg_relay cfg) lookup None of
           Inl e \<Rightarrow> (Inl e, False)
         | Inr ep \<Rightarrow>
             (case first_url parse_url (cfg_relay cfg) of
                Inl e \<Rightarrow> (Inl e, False)
              | Inr url \<Rightarrow>
                  (case an_connect net ep (endpoint_addr (cfg_controller cfg) (cfg_direct cfg) url) ALPN of
                     None \<Rightarrow> (Inl (Msg ''connect timed out after 45s''), False)
                   | Some (Inl e) \<Rightarrow> (Inl (Context ''dialling controller'' e), False)
                   | Some (Inr conn) \<Rightarrow>
                       (case read_admission pc net of
                          Inr Pending \<Rightarrow> (Inr OutPending, False)
                        | Inr Approved \<Rightarrow> (Inr (Ended (an_ended net)), True)
                        | Inl e \<Rightarrow> (Inl (Context ''reading controller admission'' e), False)))))"

section \<open>Running a command\<close>

fun exit_code :: "ExitStatus \<Rightarrow> u32" where
  "exit_code (Exited c) = c"
| "exit_code (Signaled s) = 128 + s"

text \<open>\<open>pump_frames\<close>: one pipe as frames; a read error ends it like end of file does.\<close>

function pump_frames :: "(bytes \<Rightarrow> ExecFrame) \<Rightarrow> reader \<Rightarrow> ExecFrame list" where
  "pump_frames mk r =
     (case read_some EXEC_CHUNK r of
        (Inl e, r') \<Rightarrow> []
      | (Inr b, r') \<Rightarrow> (if b = [] then [] else mk b # pump_frames mk r'))"
  by pat_completeness auto
termination
  by (relation "measure (\<lambda>(mk, r). length (arriving r))")
    (auto simp: EXEC_CHUNK_def dest!: read_some_shrinks [OF sym])

declare pump_frames.simps [simp del]

text \<open>The channel: each element of the schedule says which pump gets its next frame in; a
  pump that has none left is skipped.  Frames never scheduled were cut off.\<close>

fun merge :: "bool list \<Rightarrow> 'a list \<Rightarrow> 'a list \<Rightarrow> 'a list" where
  "merge [] xs ys = []"
| "merge (True # s) [] ys = merge s [] ys"
| "merge (True # s) (x # xs) ys = x # merge s xs ys"
| "merge (False # s) xs [] = merge s xs []"
| "merge (False # s) xs (y # ys) = y # merge s xs ys"

text \<open>The writer task: \<open>None\<close> when the stream broke.\<close>

fun write_frames :: "ExecFrame encoder \<Rightarrow> ExecFrame list \<Rightarrow> sink \<Rightarrow> unit option \<times> sink" where
  "write_frames enc [] s = (Some (), s)"
| "write_frames enc (f # fs) s =
     (case write_msg enc f s of
        (Inl e, s') \<Rightarrow> (None, s')
      | (Inr _, s') \<Rightarrow> write_frames enc fs s')"

text \<open>
  What \<open>drain_output\<close> sees after each wait of \<open>DRAIN_IDLE\<close>: whether both pumps had finished,
  the writer's frame count, whether it was in the middle of a write, and the time.
\<close>

record drain_sample =
  ds_joined :: bool
  ds_frames :: u64
  ds_sending :: bool
  ds_now :: nat

text \<open>The loop on the successive samples; \<open>None\<close> when they run out first.\<close>

fun drain_loop :: "nat \<Rightarrow> u64 \<Rightarrow> drain_sample list \<Rightarrow> bool option" where
  "drain_loop give_up before [] = None"
| "drain_loop give_up before (d # ds) =
     (if ds_joined d then Some False
      else if (ds_frames d = before \<and> \<not> ds_sending d) \<or> give_up \<le> ds_now d then Some True
      else drain_loop give_up (ds_frames d) ds)"

definition drain_output :: "nat \<Rightarrow> u64 \<Rightarrow> drain_sample list \<Rightarrow> bool option" where
  "drain_output start frames samples = drain_loop (start + DRAIN_CAP) frames samples"

record child =
  ch_stdout :: reader
  ch_stderr :: reader
  ch_schedule :: "bool list"
  ch_wait :: "ExitStatus result"
  ch_drain :: "nat \<times> u64 \<times> drain_sample list"
  ch_writer_in_time :: bool

record target =
  tg_spawn :: "string \<Rightarrow> string list \<Rightarrow> string + child"
  tg_connect :: "string \<Rightarrow> string + (reader \<times> sink)"

text \<open>\<open>let cut = drain_output(..)\<close>; \<open>drain_output_returns\<close> below shows that enough samples
  always give an answer.\<close>

definition child_cut :: "child \<Rightarrow> bool" where
  "child_cut ch =
     (case ch_drain ch of (start, frames, samples) \<Rightarrow>
      case drain_output start frames samples of Some b \<Rightarrow> b | None \<Rightarrow> True)"

definition exec_frames :: "child \<Rightarrow> ExecFrame list" where
  "exec_frames ch =
     merge (ch_schedule ch) (pump_frames Stdout (ch_stdout ch)) (pump_frames Stderr (ch_stderr ch))"

text \<open>What follows the command's exit: the truncation notice and the exit status.\<close>

definition exec_report :: "postcard \<Rightarrow> child \<Rightarrow> ExitStatus \<Rightarrow> unit option \<Rightarrow> (sink, unit) io" where
  "exec_report pc ch status written =
     (if ch_writer_in_time ch \<and> written = Some () then
        io_bind (if child_cut ch then write_msg (enc_frame pc) Truncated else io_ok ()) (\<lambda>_.
        io_bind (write_msg (enc_frame pc) (Exit (exit_code status))) (\<lambda>_.
        send_ctl))
      else io_ok ())"

definition exec_failed :: "postcard \<Rightarrow> string \<Rightarrow> (sink, unit) io" where
  "exec_failed pc why =
     io_bind (write_msg (enc_frame pc) (Failed why)) (\<lambda>_. send_ctl)"

fun agent_exec :: "postcard \<Rightarrow> target \<Rightarrow> string list \<Rightarrow> (sink, unit) io" where
  "agent_exec pc tg [] = exec_failed pc ''empty argv''"
| "agent_exec pc tg (program # args) =
     (case tg_spawn tg program args of
        Inl e \<Rightarrow> exec_failed pc (fmt [''spawning '', program, '': '', e])
      | Inr ch \<Rightarrow>
          (\<lambda>s. case write_frames (enc_frame pc) (exec_frames ch) s of
             (written, s') \<Rightarrow>
               io_bind (io_lift (with_context ''waiting for child'' (ch_wait ch)))
                 (\<lambda>status. exec_report pc ch status written) s'))"

section \<open>Serving a request\<close>

definition reply_ack :: "postcard \<Rightarrow> Ack \<Rightarrow> (duplex, unit) io" where
  "reply_ack pc a = via_send (io_bind (write_msg (enc_ack pc) a) (\<lambda>_. send_ctl))"

definition handle_push ::
  "postcard \<Rightarrow> (bytes \<Rightarrow> bytes) \<Rightarrow> string \<Rightarrow> u32 \<Rightarrow> u64 \<Rightarrow> bytes \<Rightarrow> (duplex, unit) io" where
  "handle_push pc sha p mode len sha256 =
     io_catch (via_recv_world (recv_file_body sha (path_of p) len sha256 mode (- 1))) (\<lambda>result.
     io_bind (reply_ack pc (case result of Inr _ \<Rightarrow> AckOk | Inl e \<Rightarrow> AckErr (render e))) (\<lambda>_.
     io_lift result))"

definition handle_pull :: "postcard \<Rightarrow> (bytes \<Rightarrow> bytes) \<Rightarrow> string \<Rightarrow> (duplex, unit) io" where
  "handle_pull pc sha p =
     io_catch (via_world (stat_and_hash sha (path_of p))) (\<lambda>res.
       case res of
         Inl e \<Rightarrow>
           via_send (io_bind (write_msg (enc_pull pc)
             (if downcast_io e = Some NotFound then PullMissing else PullErr (render e))) (\<lambda>_. send_ctl))
       | Inr (mode, len, sha256) \<Rightarrow>
           io_bind (via_send (write_msg (enc_pull pc) (PullOk mode len sha256))) (\<lambda>_.
           io_bind (via_send_world (send_file_body (path_of p))) (\<lambda>_.
           via_send send_ctl)))"

definition handle_forward :: "postcard \<Rightarrow> target \<Rightarrow> string \<Rightarrow> (duplex, unit) io" where
  "handle_forward pc tg addr =
     (case tg_connect tg addr of
        Inl e \<Rightarrow> reply_ack pc (AckErr (fmt [''connecting to '', addr, '': '', e]))
      | Inr (tcp_r, tcp_w) \<Rightarrow>
          io_bind (via_send (write_msg (enc_ack pc) AckOk)) (\<lambda>_ s.
          case splice_streams tcp_r tcp_w (dx_recv s) (dx_send s) of
            ((tcp_r', tcp_w'), (recv', send')) \<Rightarrow>
              (Inr (), s\<lparr>dx_recv := recv', dx_send := send', dx_tcp := Some (tcp_r', tcp_w')\<rparr>)))"

definition handle :: "postcard \<Rightarrow> (bytes \<Rightarrow> bytes) \<Rightarrow> target \<Rightarrow> (duplex, unit) io" where
  "handle pc sha tg =
     io_bind (io_context ''reading request'' (via_recv (read_msg (dec_request pc)))) (\<lambda>req.
     case req of
       Exec argv \<Rightarrow> via_send (agent_exec pc tg argv)
     | Push p mode len sha256 \<Rightarrow> handle_push pc sha p mode len sha256
     | Pull p \<Rightarrow> handle_pull pc sha p
     | Forward addr \<Rightarrow> handle_forward pc tg addr)"

section \<open>Backoff\<close>

lemma next_delay_bounds:
  assumes "SHORT_RETRY \<le> backoff" and "backoff \<le> MAX_BACKOFF" and "next_delay x backoff = (delay, backoff')"
  shows "SHORT_RETRY \<le> delay \<and> delay \<le> MAX_BACKOFF \<and> SHORT_RETRY \<le> backoff' \<and> backoff' \<le> MAX_BACKOFF"
  using assms by (cases "(x, backoff)" rule: next_delay.cases)
    (auto simp: SHORT_RETRY_def MAX_BACKOFF_def PENDING_RETRY_def)

lemma dial_delays_bounds:
  "SHORT_RETRY \<le> backoff \<Longrightarrow> backoff \<le> MAX_BACKOFF \<Longrightarrow> d \<in> set (dial_delays backoff xs) \<Longrightarrow>
     SHORT_RETRY \<le> d \<and> d \<le> MAX_BACKOFF"
proof (induction xs arbitrary: backoff)
  case (Cons x xs)
  obtain delay b where n: "next_delay x backoff = (delay, b)" by (metis prod.exhaust)
  from next_delay_bounds [OF Cons.prems(1,2) n] Cons.IH [of b] Cons.prems(3) n show ?case by auto
qed simp

lemma dial_delays_append:
  "dial_delays b (xs @ ys) = dial_delays b xs @ dial_delays (fold (\<lambda>x b. snd (next_delay x b)) xs b) ys"
  by (induction xs arbitrary: b) (simp_all split: prod.split)

lemma dial_delays_failing:
  "b \<le> MAX_BACKOFF \<Longrightarrow>
     dial_delays b (map Inl es) = map (\<lambda>i. min (b * 2 ^ i) MAX_BACKOFF) [0..<length es]"
proof (induction es arbitrary: b)
  case (Cons e es)
  have "min (min (b * 2) MAX_BACKOFF * 2 ^ i) MAX_BACKOFF = min (b * 2 ^ Suc i) MAX_BACKOFF" for i
  proof (cases "b * 2 \<le> MAX_BACKOFF")
    case True
    then show ?thesis by (simp add: min_absorb1 mult.assoc)
  next
    case False
    have "1 \<le> (2 :: nat) ^ i" by simp
    then have "MAX_BACKOFF \<le> MAX_BACKOFF * 2 ^ i" "MAX_BACKOFF \<le> b * 2 * 2 ^ i"
      using False by (auto simp: le_trans [of MAX_BACKOFF "b * 2"])
    with False show ?thesis by (simp add: min_absorb2 mult.assoc)
  qed
  with Cons.IH [of "min (b * 2) MAX_BACKOFF"] Cons.prems show ?case
    by (simp add: upt_conv_Cons min_absorb1 map_Suc_upt [symmetric] comp_def del: upt_Suc)
qed simp

text \<open>The agent always dials again, never sooner than a second and never later than thirty:
  after a session or a pending answer, consecutive failures back off 1, 2, 4, 8, 16, 30, 30, ...
  seconds, and any contact with the controller starts the backoff over.\<close>

theorem agent_backoff:
  "(\<forall>d \<in> set (dial_delays SHORT_RETRY xs). 1 \<le> d \<and> d \<le> 30)
   \<and> length (dial_delays SHORT_RETRY xs) = length xs
   \<and> dial_delays SHORT_RETRY (xs @ Inr o1 # map Inl es)
       = dial_delays SHORT_RETRY xs @ (case o1 of OutPending \<Rightarrow> 5 | Ended e \<Rightarrow> 1)
         # map (\<lambda>i. min (2 ^ i) 30) [0..<length es]"
proof (intro conjI ballI)
  show "1 \<le> d" "d \<le> 30" if "d \<in> set (dial_delays SHORT_RETRY xs)" for d
    using dial_delays_bounds [OF _ _ that] by (simp_all add: SHORT_RETRY_def MAX_BACKOFF_def)
  show "length (dial_delays SHORT_RETRY xs) = length xs"
    by (induction xs rule: rev_induct) (simp_all add: dial_delays_append split: prod.split)
  have "dial_delays SHORT_RETRY (map Inl es) = map (\<lambda>i. min (2 ^ i) 30) [0..<length es]"
    using dial_delays_failing [of SHORT_RETRY es] by (simp add: SHORT_RETRY_def MAX_BACKOFF_def)
  then show "dial_delays SHORT_RETRY (xs @ Inr o1 # map Inl es)
       = dial_delays SHORT_RETRY xs @ (case o1 of OutPending \<Rightarrow> 5 | Ended e \<Rightarrow> 1)
         # map (\<lambda>i. min (2 ^ i) 30) [0..<length es]"
    by (cases o1) (simp_all add: dial_delays_append PENDING_RETRY_def SHORT_RETRY_def)
qed

theorem agent_backoff_witness:
  "dial_delays SHORT_RETRY ([] @ Inr OutPending # map Inl [Msg ''a'', Msg ''b'', Msg ''c'']) = [5, 1, 2, 4]"
  unfolding conjunct2 [OF conjunct2 [OF agent_backoff [of "[]" OutPending "[Msg ''a'', Msg ''b'', Msg ''c'']"]]]
  by (simp add: upt_rec)

section \<open>Admission\<close>


section \<open>Draining\<close>

lemma drain_loop_returns:
  assumes "\<forall>i < length ds. t + (i + 1) * DRAIN_IDLE \<le> ds_now (ds ! i)" and "give_up \<le> t + length ds * DRAIN_IDLE"
    and "ds \<noteq> []"
  shows "\<exists>b. drain_loop give_up before ds = Some b"
  using assms
proof (induction ds arbitrary: before t)
  case (Cons d ds)
  show ?case
  proof (cases "ds = []")
    case True
    with Cons.prems(1,2) have "give_up \<le> ds_now d" by auto
    then show ?thesis by auto
  next
    case False
    have "\<forall>i < length ds. (t + DRAIN_IDLE) + (i + 1) * DRAIN_IDLE \<le> ds_now (ds ! i)"
      using Cons.prems(1) by (metis Suc_eq_plus1 Suc_less_eq add.assoc length_Cons mult_Suc nth_Cons_Suc)
    with Cons.IH [of "t + DRAIN_IDLE" "ds_frames d"] Cons.prems(2) False show ?thesis by auto
  qed
qed simp

text \<open>C36. Waiting for a command's output always ends: since each look takes two seconds, eight
  looks are enough for \<open>drain_output\<close> to return, whatever daemon holds the pipes.\<close>

theorem drain_output_returns:
  assumes "length samples = 8" and "\<forall>i < 8. start + (i + 1) * DRAIN_IDLE \<le> ds_now (samples ! i)"
  shows "\<exists>cut. drain_output start frames samples = Some cut"
proof -
  have "samples \<noteq> []" using assms(1) by auto
  then show ?thesis
    using drain_loop_returns [of samples start "start + DRAIN_CAP" frames] assms
    by (simp add: drain_output_def DRAIN_CAP_def DRAIN_IDLE_def)
qed

theorem drain_output_returns_witness:
  "\<exists>cut. drain_output 100 0
     (map (\<lambda>i. \<lparr>ds_joined = False, ds_frames = word_of_nat (i + 1), ds_sending = True, ds_now = 102 + 2 * i\<rparr>) [0..<8])
     = Some cut"
  by (rule drain_output_returns) (simp_all add: DRAIN_IDLE_def)

section \<open>A command's output\<close>

lemma pump_stdout: "stdout_of (pump_frames Stdout r) = arriving r \<and> stderr_of (pump_frames Stdout r) = []"
proof (induction "length (arriving r)" arbitrary: r rule: less_induct)
  case less
  obtain y r1 where rd: "read_some EXEC_CHUNK r = (y, r1)" by (metis prod.exhaust)
  have "0 < EXEC_CHUNK" by (simp add: EXEC_CHUNK_def)
  with rd show ?case
    by (cases rule: read_some_cases) (use rd less in \<open>simp_all add: pump_frames.simps [of Stdout r]\<close>)
qed

lemma pump_stderr: "stderr_of (pump_frames Stderr r) = arriving r \<and> stdout_of (pump_frames Stderr r) = []"
proof (induction "length (arriving r)" arbitrary: r rule: less_induct)
  case less
  obtain y r1 where rd: "read_some EXEC_CHUNK r = (y, r1)" by (metis prod.exhaust)
  have "0 < EXEC_CHUNK" by (simp add: EXEC_CHUNK_def)
  with rd show ?case
    by (cases rule: read_some_cases) (use rd less in \<open>simp_all add: pump_frames.simps [of Stderr r]\<close>)
qed

lemma pump_frames_small:
  "f \<in> set (pump_frames mk r) \<Longrightarrow> \<exists>b. f = mk b \<and> length b \<le> EXEC_CHUNK"
proof (induction "length (arriving r)" arbitrary: r rule: less_induct)
  case less
  obtain y r1 where rd: "read_some EXEC_CHUNK r = (y, r1)" by (metis prod.exhaust)
  have "0 < EXEC_CHUNK" by (simp add: EXEC_CHUNK_def)
  with rd show ?case
  proof (cases rule: read_some_cases)
    case (data b)
    with less.prems rd have "f = mk b \<or> f \<in> set (pump_frames mk r1)" by (simp add: pump_frames.simps [of mk r])
    with less.hyps [of r1] data show ?thesis by auto
  qed (use rd less.prems in \<open>simp_all add: pump_frames.simps [of mk r]\<close>)
qed

text \<open>A schedule that lets every frame of both pumps in.\<close>

definition complete_schedule :: "bool list \<Rightarrow> 'a list \<Rightarrow> 'a list \<Rightarrow> bool" where
  "complete_schedule s xs ys \<longleftrightarrow>
     length xs \<le> length (filter id s) \<and> length ys \<le> length (filter Not s)"

lemma merge_set: "set (merge s xs ys) \<subseteq> set xs \<union> set ys"
  by (induction s xs ys rule: merge.induct) auto

lemma merge_stdout:
  "complete_schedule s xs ys \<Longrightarrow> stdout_of ys = [] \<Longrightarrow> stdout_of (merge s xs ys) = stdout_of xs"
  by (induction s xs ys rule: merge.induct) (auto simp: complete_schedule_def split: ExecFrame.splits)

lemma merge_stderr:
  "complete_schedule s xs ys \<Longrightarrow> stderr_of xs = [] \<Longrightarrow> stderr_of (merge s xs ys) = stderr_of ys"
  by (induction s xs ys rule: merge.induct) (auto simp: complete_schedule_def split: ExecFrame.splits)

lemma output_of_append:
  "stdout_of (xs @ ys) = stdout_of xs @ stdout_of ys" "stderr_of (xs @ ys) = stderr_of xs @ stderr_of ys"
  "exit_of c (xs @ ys) = exit_of (exit_of c xs) ys"
  by (induction xs arbitrary: c) auto

lemma exit_of_output: "\<forall>f \<in> set fs. \<exists>b. f = Stdout b \<or> f = Stderr b \<Longrightarrow> exit_of c fs = c"
  by (induction fs) auto

lemma write_frames_healthy:
  assumes "\<forall>f \<in> set fs. enc f = Inr (pack f) \<and> length (pack f) \<le> MAX_MSG" and "healthy s"
  shows "\<exists>s'. write_frames enc fs s = (Some (), s') \<and> healthy s' \<and> sent s' = sent s @ frames_wire pack fs"
  using assms
proof (induction fs arbitrary: s)
  case (Cons f fs)
  then obtain s1 where "write_msg Inr (pack f) s = (Inr (), s1)" "healthy s1"
    using write_frame_accepts [of "pack f" s] by auto
  then have "write_msg enc f s = (Inr (), s1)" "healthy s1" "sent s1 = sent s @ msg_header (pack f) @ pack f"
    using Cons.prems(1) write_frame_Inr(1) by (auto simp: write_msg_via_frames [of enc])
  with Cons.IH [of s1] Cons.prems(1) show ?case by (auto simp: frames_wire_def)
qed (simp add: frames_wire_def)

lemma write_frames_one:
  "write_frames enc [f] s = (Some (), s') \<longleftrightarrow> write_msg enc f s = (Inr (), s')"
  by (auto split: prod.splits sum.splits)

text \<open>What goes over the wire for a command that ran to its end undisturbed.\<close>

definition whole_run :: "child \<Rightarrow> ExitStatus \<Rightarrow> bool" where
  "whole_run ch status \<longleftrightarrow> ch_wait ch = Inr status \<and> \<not> child_cut ch \<and> ch_writer_in_time ch
     \<and> complete_schedule (ch_schedule ch) (pump_frames Stdout (ch_stdout ch)) (pump_frames Stderr (ch_stderr ch))"

lemma exec_frames_output:
  "f \<in> set (exec_frames ch) \<Longrightarrow> \<exists>b. (f = Stdout b \<or> f = Stderr b) \<and> length b \<le> EXEC_CHUNK"
  using merge_set [of "ch_schedule ch" "pump_frames Stdout (ch_stdout ch)" "pump_frames Stderr (ch_stderr ch)"]
    pump_frames_small [of f Stdout "ch_stdout ch"] pump_frames_small [of f Stderr "ch_stderr ch"]
  by (auto simp: exec_frames_def)

lemma agent_exec_stream:
  assumes "tg_spawn tg program args = Inr ch" and "whole_run ch status" and "healthy s"
    and "\<And>f. f \<in> set (exec_frames ch) \<union> {Exit (exit_code status)} \<Longrightarrow>
      enc_frame pc f = Inr (pack f) \<and> length (pack f) \<le> MAX_MSG"
  shows "\<exists>s' fs. agent_exec pc tg (program # args) s = (Inr (), s')
    \<and> fs = exec_frames ch @ [Exit (exit_code status)]
    \<and> sent s' = sent s @ frames_wire pack fs \<and> set fs \<subseteq> set (exec_frames ch) \<union> {Exit (exit_code status)}
    \<and> stdout_of fs = arriving (ch_stdout ch) \<and> stderr_of fs = arriving (ch_stderr ch)
    \<and> exit_of None fs = Some (exit_code status)"
proof -
  let ?fs = "exec_frames ch" and ?x = "Exit (exit_code status)"
  obtain s1 where 1: "write_frames (enc_frame pc) ?fs s = (Some (), s1)" "healthy s1"
      "sent s1 = sent s @ frames_wire pack ?fs"
    using write_frames_healthy [of ?fs "enc_frame pc" pack s] assms(3,4) by auto
  obtain s2 where 2: "write_frames (enc_frame pc) [?x] s1 = (Some (), s2)" "healthy s2"
      "sent s2 = sent s1 @ frames_wire pack [?x]"
    using write_frames_healthy [of "[?x]" "enc_frame pc" pack s1] assms(4) 1(2) by auto
  obtain s3 where 3: "send_ctl s2 = (Inr (), s3)" "sent s3 = sent s2" using 2(2) by (rule send_ctl_healthy)
  have run: "agent_exec pc tg (program # args) s = (Inr (), s3)"
    using assms(1,2) 1(1) 2(1) 3(1) unfolding write_frames_one
    by (simp add: whole_run_def exec_report_def io_bind_def)
  have out: "stdout_of ?fs = arriving (ch_stdout ch)" "stderr_of ?fs = arriving (ch_stderr ch)"
    using assms(2) pump_stdout [of "ch_stdout ch"] pump_stderr [of "ch_stderr ch"]
    by (auto simp: whole_run_def exec_frames_def merge_stdout merge_stderr)
  have "exit_of None ?fs = None" using exec_frames_output by (intro exit_of_output) blast
  then have "exit_of None (?fs @ [?x]) = Some (exit_code status)" by (simp add: output_of_append)
  moreover have "frames_wire pack (?fs @ [?x]) = frames_wire pack ?fs @ frames_wire pack [?x]"
    by (simp add: frames_wire_def)
  ultimately show ?thesis
    using run out 1(3) 2(3) 3(2)
    by (intro exI [of _ s3] exI [of _ "?fs @ [?x]"]) (simp add: output_of_append)
qed

lemma output_total_eq: "output_total fs = length (stdout_of fs) + length (stderr_of fs)"
proof (induction fs)
  case (Cons f fs)
  then show ?case by (cases f) auto
qed simp

text \<open>C19. A command that runs to its end is seen by the controller exactly as it ran: whatever
  the interleaving of the two pipes, the chunking of pipes and transport, and the order of
  scheduling, the operator's standard output and error get the command's bytes, in order and
  complete, and the exit status is the command's (128 plus the signal if it was killed).\<close>

theorem exec_end_to_end:
  assumes "tg_spawn tg program args = Inr ch" and "whole_run ch status"
    and "healthy s" and "sent s = []"
    and fits: "\<And>f. f \<in> set (exec_frames ch) \<union> {Exit (exit_code status)} \<Longrightarrow>
      enc_frame pc f = Inr (pack f) \<and> length (pack f) \<le> MAX_MSG"
    and "postcard_laws pc"
    and run: "agent_exec pc tg (program # args) s = (x, s')"
    and "arriving r = sent s'" and "broken r = None" and "sinks_healthy t"
    and "length (arriving (ch_stdout ch)) + length (arriving (ch_stderr ch)) \<le> unat lim"
  shows "\<exists>r' t'. recv_exec_output (dec_frame pc) lim (r, t) = (Inr (exit_code status), (r', t'))
    \<and> sent (out t') = sent (out t) @ arriving (ch_stdout ch)
    \<and> sent (err t') = sent (err t) @ arriving (ch_stderr ch) \<and> warned t' = warned t"
proof -
  from agent_exec_stream [OF assms(1-3) fits] run assms(4) obtain fs where
    fs: "sent s' = frames_wire pack fs" "set fs \<subseteq> set (exec_frames ch) \<union> {Exit (exit_code status)}"
      "stdout_of fs = arriving (ch_stdout ch)" "stderr_of fs = arriving (ch_stderr ch)"
      "exit_of None fs = Some (exit_code status)" by auto
  have dec: "dec_frame pc (pack f) = Inr f \<and> length (pack f) \<le> MAX_MSG \<and> (\<forall>e. f \<noteq> Failed e)"
    if "f \<in> set fs" for f
    using that fits [of f] fs(2) assms(6) exec_frames_output [of f ch] by (auto simp: postcard_laws_def)
  have no_cut: "Truncated \<notin> set fs" using fs(2) exec_frames_output [of Truncated ch] by auto
  have "output_total fs \<le> unat lim" using fs(3,4) assms(11) by (simp add: output_total_eq)
  from recv_exec_output_frames [OF _ assms(9) dec this assms(10)] fs no_cut assms(8) show ?thesis by auto
qed

text \<open>An encoder of the frames of a command that prints one byte.\<close>

definition demo_pack :: "ExecFrame \<Rightarrow> bytes" where
  "demo_pack f = (case f of Exit c \<Rightarrow> [0] | Stdout b \<Rightarrow> 1 # b | _ \<Rightarrow> [2])"

abbreviation demo_pc :: postcard where
  "demo_pc \<equiv> demo_postcard (Pull ''f'') AckOk PullMissing (Route ''k'') (RouteErr ''e'')"


theorem exec_end_to_end_witness:
  "\<exists>x s' r' t'. agent_exec demo_pc
      \<lparr>tg_spawn = (\<lambda>_ _. Inr \<lparr>ch_stdout = reader_of [65], ch_stderr = reader_of [], ch_schedule = [True],
         ch_wait = Inr (Exited 0), ch_drain = (0, 0, [\<lparr>ds_joined = True, ds_frames = 1, ds_sending = False, ds_now = 1\<rparr>]),
         ch_writer_in_time = True\<rparr>), tg_connect = (\<lambda>_. Inl ''no'')\<rparr> [''true''] fresh_sink = (x, s')
    \<and> recv_exec_output (dec_frame demo_pc) 5 (reader_of (sent s'),
        \<lparr>out = fresh_sink, err = fresh_sink, warned = False\<rparr>) = (Inr 0, (r', t')) \<and> sent (out t') = [65]"
proof -
  let ?ch = "\<lparr>ch_stdout = reader_of [65], ch_stderr = reader_of [], ch_schedule = [True],
         ch_wait = Inr (Exited 0), ch_drain = (0, 0, [\<lparr>ds_joined = True, ds_frames = 1, ds_sending = False, ds_now = 1\<rparr>]),
         ch_writer_in_time = True\<rparr> :: child"
  let ?tg = "\<lparr>tg_spawn = (\<lambda>_ _. Inr ?ch), tg_connect = (\<lambda>_. Inl ''no'')\<rparr> :: target"
  have pumps: "pump_frames Stdout (reader_of [65]) = [Stdout [65]]" "pump_frames Stderr (reader_of []) = []"
    by (simp_all add: pump_frames.simps read_some_def reader_of_def EXEC_CHUNK_def)
  have whole: "whole_run ?ch (Exited 0)"
    by (simp add: whole_run_def child_cut_def drain_output_def complete_schedule_def pumps)
  have fits: "enc_frame demo_pc f = Inr (demo_pack f) \<and> length (demo_pack f) \<le> MAX_MSG"
    if "f \<in> set (exec_frames ?ch) \<union> {Exit (exit_code (Exited 0))}" for f
    using that by (auto simp: exec_frames_def pumps demo_postcard_def demo_pack_def MAX_MSG_def)
  obtain x s' where run: "agent_exec demo_pc ?tg [''true''] fresh_sink = (x, s')" by (metis prod.exhaust)
  from exec_end_to_end [OF _ whole _ _ fits demo_postcard_laws run, of "reader_of (sent s')"
      "\<lparr>out = fresh_sink, err = fresh_sink, warned = False\<rparr>" 5] run
  show ?thesis by (auto simp: sinks_healthy_def)
qed

section \<open>A staging file left behind\<close>

lemma load_key_blocked:
  assumes "nodes w p = None" and "make_parent p = io_ok ()" and "nodes w (unique_tmp (pid w) p) \<noteq> None"
  obtains e w' where "load_or_create_key from_bytes p Replace w = (Inl e, w')" "touches {} w w'"
proof -
  obtain x w1 where r: "read_key from_bytes p w = (x, w1)" by (metis prod.exhaust)
  from r assms(1) have x: "x = Inr None \<or> isl x" and w1: "w1 = next_tick w"
    by (auto simp: read_key_def read_bytes_def fs_call_def follow_def numeral_eq_Suc io_catch_def next_tick_def
        io_ok_def io_lift_def split: option.splits if_splits)
  obtain y w2 where c: "create_key from_bytes p w1 = (y, w2)" by (metis prod.exhaust)
  have "isl y" "touches {} w1 w2"
    using create_key_blocked [OF _ c assms(2)] assms(3) w1 by (simp_all add: next_tick_def)
  moreover from this w1 have "touches {} w w2" using touches_trans touches_next_tick by blast
  moreover have "load_or_create_key from_bytes p Replace w = (y, w2)"
    using r x c by (auto simp: load_or_create_key_def io_catch_def isl_def)
  ultimately show thesis using that by (auto simp: isl_def)
qed

lemma key_attempts_blocked:
  assumes "nodes w p = None" and "make_parent p = io_ok ()" and "nodes w (unique_tmp (pid w) p) \<noteq> None"
  shows "fst (key_attempts n from_bytes p w) = None"
  using assms
proof (induction n arbitrary: w)
  case (Suc n)
  obtain e w' where "load_or_create_key from_bytes p Replace w = (Inl e, w')" "touches {} w w'"
    using Suc.prems by (rule load_key_blocked)
  then show ?case
    using Suc by (simp add: touches_nodes touches_env)
qed simp

text \<open>C39. An agent that loses its first attempt at an identity to one failed write never
  gets one: the staging file it left blocks every later attempt of the process.\<close>

theorem agent_key_stuck:
  "fst (key_attempts n from_bytes [Normal ''k''] (blank_world\<lparr>fault := fail_at 3\<rparr>)) = None"
proof (cases n)
  case (Suc m)
  let ?p = "[Normal ''k'']" and ?t = "unique_tmp 1 [Normal ''k'']"
  have t: "?t \<noteq> ?p" by (simp add: unique_tmp_def with_file_name_def file_name_def)
  have d: "parent_is_dir f ?t" for f
    by (simp add: unique_tmp_def with_file_name_def file_name_def parent_is_dir_def parent_path_def)
  have mp: "make_parent ?p = io_ok ()" by (simp add: make_parent_def parent_path_def)
  obtain e w' where "load_or_create_key from_bytes ?p Replace (blank_world\<lparr>fault := fail_at 3\<rparr>) = (Inl e, w')"
      "nodes w' ?t \<noteq> None" "nodes w' ?p = None" "pid w' = 1"
    using t d mp by (simp add: load_or_create_key_def read_key_def read_bytes_def create_key_def getrandom_def
      write_private_def create_new_def write_all_def fs_call_def follow_def fail_at_def numeral_eq_Suc
      io_catch_def io_bind_def io_context_def io_ok_def io_lift_def enoent_def
      Let_def next_tick_def put_node_def put_nodes_def)
  with Suc mp show ?thesis by (simp add: key_attempts_blocked)
qed simp

end
