(* ===== verification/Serve.thy ===== *)
theory Serve
  imports Duplex State_Dir Pipe "HOL-Library.AList"
begin

text \<open>
  \<open>src/controller.rs\<close>, the long-lived side: \<open>serve\<close> admits agents, keeps the table of
  their sessions, publishes its status, probes itself, and proxies local commands.

  \<open>serve\<close> is many tasks over two locks.  The model is a step relation \<open>serve_step\<close> on a
  record of everything shared; one step is what one task does between two points where
  another can run: a critical section of the session table or of the status, or an event of
  the network.  A task is the list of what it still has to do.  The hash map of sessions is
  an association list with distinct keys, and a connection is named by its stable id, which
  iroh keeps distinct among connections that are still held.  \<open>sv_vouched\<close> is a ghost: the
  disk an admission was decided on.
\<close>

section \<open>Sessions and status\<close>

record Session =
  s_conn :: nat
  s_id :: nat
  s_since :: u64

type_synonym 'k session_map = "('k \<times> Session) list"

text \<open>\<open>now_unix()\<close> never fails.\<close>

definition wall_clock :: "world \<Rightarrow> u64 \<times> world" where
  "wall_clock w = (unix_of (clock w (tick w)), next_tick w)"

text \<open>\<open>StatusFile::update\<close>; an error of the write is only logged.\<close>

definition status_update ::
  "'k codec \<Rightarrow> StateDir \<Rightarrow> (Status \<Rightarrow> world \<Rightarrow> Status \<times> world) \<Rightarrow> Status \<times> world \<Rightarrow> Status \<times> world" where
  "status_update c st f sw =
     (case f (fst sw) (snd sw) of (s1, w1) \<Rightarrow>
      case wall_clock w1 of (now, w2) \<Rightarrow>
      let s2 = s1\<lparr>updated_unix := now\<rparr> in
      case write_status c st s2 w2 of (_, w3) \<Rightarrow> (s2, w3))"

definition pure_update :: "(Status \<Rightarrow> Status) \<Rightarrow> Status \<Rightarrow> world \<Rightarrow> Status \<times> world" where
  "pure_update f s w = (f s, w)"

definition session_list :: "'k codec \<Rightarrow> (nat \<Rightarrow> conn_paths) \<Rightarrow> 'k session_map \<Rightarrow> SessionInfo list" where
  "session_list c paths m =
     map (\<lambda>(k, s). case session_path_report (paths (s_conn s)) of (p, remote) \<Rightarrow>
       \<lparr>si_agent = show_key c k, si_path = p, si_remote = remote, si_since_unix = s_since s\<rparr>) m"

text \<open>\<open>sessions.lock().await.insert(peer, Session {..})\<close>.\<close>

definition insert_session :: "'k \<Rightarrow> nat \<Rightarrow> 'k session_map \<times> world \<Rightarrow> 'k session_map \<times> world" where
  "insert_session peer i mw =
     (case wall_clock (snd mw) of (now, w) \<Rightarrow>
        (AList.update peer \<lparr>s_conn = i, s_id = i, s_since = now\<rparr> (fst mw), w))"

text \<open>What the closing task does to the table: \<open>None\<close> is the early return.\<close>

definition forget_session :: "'k \<Rightarrow> nat \<Rightarrow> 'k session_map \<Rightarrow> 'k session_map option" where
  "forget_session peer i m =
     (case map_of m peer of
        Some s \<Rightarrow> (if s_id s = i then Some (AList.delete peer m) else None)
      | None \<Rightarrow> None)"

section \<open>Admission\<close>

definition check_approved :: "'k codec \<Rightarrow> StateDir \<Rightarrow> 'k \<Rightarrow> world \<Rightarrow> bool \<times> world" where
  "check_approved c st peer w =
     (case approved c st w of
        (Inr S, w') \<Rightarrow> (peer \<in> S, w')
      | (Inl e, w') \<Rightarrow> (False, w'))"

definition hold_pending :: "'k codec \<Rightarrow> StateDir \<Rightarrow> 'k \<Rightarrow> world \<Rightarrow> world" where
  "hold_pending c st peer w = snd (record_pending c st peer w)"

text \<open>\<open>open_uni\<close> gives the stream, or the connection is already gone.\<close>

definition send_admission :: "postcard \<Rightarrow> sink result \<Rightarrow> Admission \<Rightarrow> unit result \<times> sink option" where
  "send_admission pc open_uni a =
     (case open_uni of
        Inl e \<Rightarrow> (Inl e, None)
      | Inr s \<Rightarrow> map_prod id Some (io_bind (write_msg (enc_admission pc) a) (\<lambda>_. send_ctl) s))"

text \<open>The probe's other end: any dialer that sends the ping gets the pong.\<close>

definition probe_respond :: "reader \<Rightarrow> sink \<Rightarrow> sink" where
  "probe_respond r s =
     (case read_to_end (length PROBE_PING) r of
        (Inr b, _) \<Rightarrow>
          (if b = as_bytes PROBE_PING
           then snd (send_ctl (snd (send_all (as_bytes PROBE_PONG) s)))
           else s)
      | (Inl e, _) \<Rightarrow> s)"

section \<open>The canary\<close>

definition canary_ok :: "PathKind \<Rightarrow> Status \<Rightarrow> world \<Rightarrow> Status \<times> world" where
  "canary_ok p s w =
     (case wall_clock w of (now, w') \<Rightarrow>
        (s\<lparr>dialable := Some True, last_probe_ok_unix := Some now, last_probe_path := Some p,
           last_probe_error := None, consecutive_probe_failures := 0\<rparr>, w'))"

definition canary_err :: "string \<Rightarrow> u32 \<Rightarrow> Status \<Rightarrow> Status" where
  "canary_err msg failures s =
     s\<lparr>dialable := Some False, last_probe_error := Some msg, consecutive_probe_failures := failures\<rparr>"

text \<open>One probe's result: the counter, the status, and whether a restart is asked for.\<close>

definition canary_turn ::
  "'k codec \<Rightarrow> StateDir \<Rightarrow> u32 \<Rightarrow> PathKind result \<Rightarrow> u32 \<Rightarrow> Status \<times> world \<Rightarrow> u32 \<times> bool \<times> Status \<times> world" where
  "canary_turn c st restart_after r failures sw =
     (case r of
        Inr p \<Rightarrow> (0, False, status_update c st (canary_ok p) sw)
      | Inl e \<Rightarrow>
          (let failures' = failures + 1
           in (failures', restart_after \<le> failures',
               status_update c st (pure_update (canary_err (render e) failures')) sw)))"

definition restart_status :: "Status \<Rightarrow> Status" where
  "restart_status s =
     s\<lparr>endpoint_restarts := endpoint_restarts s + 1, sessions := [], consecutive_probe_failures := 0\<rparr>"

section \<open>Starting\<close>

text \<open>Durations are in milliseconds.\<close>

record serve_config =
  sc_state :: StateDir
  sc_relay :: RelayChoice
  sc_probe_interval :: nat
  sc_probe_timeout :: nat
  sc_restart_after :: u32
  sc_bind_addr :: "SocketAddr option"

text \<open>Binding a unix socket creates its node.\<close>

definition bind_socket :: "path \<Rightarrow> (world, unit) io" where
  "bind_socket p = fs_call (\<lambda>w.
     if nodes w p \<noteq> None then (Inl (IoError OtherKind ''Address already in use (os error 98)''), w)
     else if \<not> parent_is_dir (nodes w) p then (Inl enoent, w)
     else (Inr (), put_node p (Some (Special (and 511 (not (umask w))))) w))"

definition first_status :: "string \<Rightarrow> u32 \<Rightarrow> u64 \<Rightarrow> ProbeMode \<Rightarrow> Status" where
  "first_status node my_pid now mode =
     \<lparr>node_id = node, st_pid = my_pid, updated_unix = now, direct_addrs = [], dialable = None,
      probe_mode = mode, last_probe_ok_unix = None, last_probe_path = None, last_probe_error = None,
      consecutive_probe_failures = 0, endpoint_restarts = 0, sessions = []\<rparr>"

text \<open>
  \<open>serve\<close> up to its loop: \<open>alive\<close> says whether another process answers on the socket.  The
  result is the secret and the status.
\<close>

definition serve_prepare ::
  "'k codec \<Rightarrow> (bytes \<Rightarrow> 'sk) \<Rightarrow> ('sk \<Rightarrow> 'k) \<Rightarrow> (path \<Rightarrow> bool) \<Rightarrow> serve_config \<Rightarrow> (world, 'sk \<times> Status) io" where
  "serve_prepare c from_bytes public alive cfg =
     (let st = sc_state cfg; sock = sock_path st in
      io_bind (ensure_state st) (\<lambda>_.
      io_bind (load_key from_bytes st) (\<lambda>secret.
      if alive sock
      then io_lift (Inl (Msg (fmt [''another controller is already serving '', show_path (root st)])))
      else
        io_catch (remove_file sock) (\<lambda>_.
        io_bind (io_context (fmt [''binding control socket '', show_path sock]) (bind_socket sock)) (\<lambda>_ w.
        case wall_clock w of (now, w') \<Rightarrow>
          (Inr (secret, first_status (show_key c (public secret)) (pid w) now
             (if relay_enabled (sc_relay cfg) then Discovery else Direct)), w'))))))"

section \<open>The serving process\<close>

datatype 'k act =
    Insert 'k nat
  | TakeList
  | PutList "SessionInfo list"
  | SpawnWatcher nat
  | SpawnCloser 'k nat
  | WatchPath nat
  | AwaitClosed 'k nat

datatype canary_pc = CTake | CPut "SessionInfo list" | CProbe | CSleep | CDone

datatype phase = Serving | Clearing | Counting | Rebinding

text \<open>A task is tagged with whether it belongs to the router, which drops it on shutdown.\<close>

record 'k server =
  sv_sessions :: "'k session_map"
  sv_status :: Status
  sv_world :: world
  sv_paths :: "nat \<Rightarrow> conn_paths"
  sv_closed :: "nat set"
  sv_tasks :: "(bool \<times> 'k act list) list"
  sv_canary :: canary_pc
  sv_failures :: u32
  sv_restart :: bool
  sv_phase :: phase
  sv_vouched :: "('k \<times> nat \<times> world) list"

datatype 'k event =
    Refused 'k | Dropped 'k | Admitted 'k nat | Inserted 'k nat | Worked
  | Gone nat | NetworkEvent | OtherProcess
  | Probed "PathKind result" | Restarting | Cleared | Restarted | Rebound

text \<open>What the accept handler does once the agent has been told it is approved.\<close>

definition accept_tail :: "'k \<Rightarrow> nat \<Rightarrow> 'k act list" where
  "accept_tail peer i = [Insert peer i, TakeList, SpawnWatcher i, SpawnCloser peer i]"

fun act_conns :: "'k act \<Rightarrow> nat set" where
  "act_conns (Insert p i) = {i}"
| "act_conns (SpawnWatcher i) = {i}"
| "act_conns (SpawnCloser p i) = {i}"
| "act_conns (WatchPath i) = {i}"
| "act_conns (AwaitClosed p i) = {i}"
| "act_conns _ = {}"

text \<open>The connections somebody still holds: a new one has another stable id.\<close>

definition held_conns :: "'k server \<Rightarrow> nat set" where
  "held_conns s = (\<Union>(_, as) \<in> set (sv_tasks s). \<Union> (act_conns ` set as)) \<union> (s_conn \<circ> snd) ` set (sv_sessions s)"

definition put_status :: "Status \<times> world \<Rightarrow> 'k server \<Rightarrow> 'k server" where
  "put_status sw s = s\<lparr>sv_status := fst sw, sv_world := snd sw\<rparr>"

definition publish_list :: "'k codec \<Rightarrow> StateDir \<Rightarrow> SessionInfo list \<Rightarrow> 'k server \<Rightarrow> 'k server" where
  "publish_list c st l s =
     put_status (status_update c st (pure_update (\<lambda>x. x\<lparr>sessions := l\<rparr>)) (sv_status s, sv_world s)) s"

inductive serve_step :: "'k codec \<Rightarrow> StateDir \<Rightarrow> u32 \<Rightarrow> 'k server \<Rightarrow> 'k event \<Rightarrow> 'k server \<Rightarrow> bool"
  for c st restart_after where
  refuse: "\<lbrakk>sv_phase s = Serving; check_approved c st peer (sv_world s) = (False, w)\<rbrakk> \<Longrightarrow>
    serve_step c st restart_after s (Refused peer) (s\<lparr>sv_world := hold_pending c st peer w\<rparr>)"
| lose: "\<lbrakk>sv_phase s = Serving; check_approved c st peer (sv_world s) = (True, w)\<rbrakk> \<Longrightarrow>
    serve_step c st restart_after s (Dropped peer) (s\<lparr>sv_world := w\<rparr>)"
| admit: "\<lbrakk>sv_phase s = Serving; check_approved c st peer (sv_world s) = (True, w); i \<notin> held_conns s\<rbrakk> \<Longrightarrow>
    serve_step c st restart_after s (Admitted peer i)
      (s\<lparr>sv_world := w, sv_tasks := sv_tasks s @ [(True, accept_tail peer i)],
         sv_paths := (sv_paths s)(i := ps), sv_closed := sv_closed s - {i},
         sv_vouched := sv_vouched s @ [(peer, i, sv_world s)]\<rparr>)"
| insert: "\<lbrakk>sv_tasks s = us @ (own, Insert peer i # as) # vs;
     insert_session peer i (sv_sessions s, sv_world s) = (m, w)\<rbrakk> \<Longrightarrow>
    serve_step c st restart_after s (Inserted peer i)
      (s\<lparr>sv_sessions := m, sv_world := w, sv_tasks := us @ (own, as) # vs\<rparr>)"
| take_list: "sv_tasks s = us @ (own, TakeList # as) # vs \<Longrightarrow>
    serve_step c st restart_after s Worked
      (s\<lparr>sv_tasks := us @ (own, PutList (session_list c (sv_paths s) (sv_sessions s)) # as) # vs\<rparr>)"
| put_list: "sv_tasks s = us @ (own, PutList l # as) # vs \<Longrightarrow>
    serve_step c st restart_after s Worked (publish_list c st l (s\<lparr>sv_tasks := us @ (own, as) # vs\<rparr>))"
| spawn_watcher: "sv_tasks s = us @ (own, SpawnWatcher i # as) # vs \<Longrightarrow>
    serve_step c st restart_after s Worked (s\<lparr>sv_tasks := us @ (own, as) # vs @ [(False, [WatchPath i])]\<rparr>)"
| spawn_closer: "sv_tasks s = us @ (own, SpawnCloser peer i # as) # vs \<Longrightarrow>
    serve_step c st restart_after s Worked (s\<lparr>sv_tasks := us @ (own, as) # vs @ [(False, [AwaitClosed peer i])]\<rparr>)"
| path_changed: "\<lbrakk>sv_tasks s = us @ (own, WatchPath i # as) # vs; i \<notin> sv_closed s\<rbrakk> \<Longrightarrow>
    serve_step c st restart_after s Worked
      (s\<lparr>sv_tasks := us @ (own, TakeList # WatchPath i # as) # vs\<rparr>)"
| watch_ended: "\<lbrakk>sv_tasks s = us @ (own, WatchPath i # as) # vs; i \<in> sv_closed s\<rbrakk> \<Longrightarrow>
    serve_step c st restart_after s Worked (s\<lparr>sv_tasks := us @ (own, as) # vs\<rparr>)"
| forget: "\<lbrakk>sv_tasks s = us @ (own, AwaitClosed peer i # as) # vs; i \<in> sv_closed s;
     forget_session peer i (sv_sessions s) = Some m\<rbrakk> \<Longrightarrow>
    serve_step c st restart_after s (Gone i)
      (s\<lparr>sv_sessions := m, sv_tasks := us @ (own, TakeList # as) # vs\<rparr>)"
| keep: "\<lbrakk>sv_tasks s = us @ (own, AwaitClosed peer i # as) # vs; i \<in> sv_closed s;
     forget_session peer i (sv_sessions s) = None\<rbrakk> \<Longrightarrow>
    serve_step c st restart_after s (Gone i) (s\<lparr>sv_tasks := us @ (own, as) # vs\<rparr>)"
| conn_closes: "serve_step c st restart_after s NetworkEvent (s\<lparr>sv_closed := insert i (sv_closed s)\<rparr>)"
| paths_move: "serve_step c st restart_after s NetworkEvent (s\<lparr>sv_paths := (sv_paths s)(i := ps)\<rparr>)"
| other_process: "serve_step c st restart_after s OtherProcess (s\<lparr>sv_world := w\<rparr>)"
| canary_list: "sv_canary s = CTake \<Longrightarrow>
    serve_step c st restart_after s Worked
      (s\<lparr>sv_canary := CPut (session_list c (sv_paths s) (sv_sessions s))\<rparr>)"
| canary_put: "sv_canary s = CPut l \<Longrightarrow>
    serve_step c st restart_after s Worked (publish_list c st l (s\<lparr>sv_canary := CProbe\<rparr>))"
| canary_probe: "\<lbrakk>sv_canary s = CProbe;
     canary_turn c st restart_after r (sv_failures s) (sv_status s, sv_world s) = (failures, again, sw)\<rbrakk> \<Longrightarrow>
    serve_step c st restart_after s (Probed r)
      (put_status sw (s\<lparr>sv_failures := failures, sv_restart := again,
         sv_canary := (if again then CDone else CSleep)\<rparr>))"
| canary_wake: "sv_canary s = CSleep \<Longrightarrow>
    serve_step c st restart_after s Worked (s\<lparr>sv_canary := CTake\<rparr>)"
| shutdown: "\<lbrakk>sv_phase s = Serving; sv_restart s\<rbrakk> \<Longrightarrow>
    serve_step c st restart_after s Restarting
      (s\<lparr>sv_tasks := filter (\<lambda>(own, _). \<not> own) (sv_tasks s), sv_canary := CDone,
         sv_closed := UNIV, sv_phase := Clearing\<rparr>)"
| clear: "sv_phase s = Clearing \<Longrightarrow>
    serve_step c st restart_after s Cleared (s\<lparr>sv_sessions := [], sv_phase := Counting\<rparr>)"
| count: "sv_phase s = Counting \<Longrightarrow>
    serve_step c st restart_after s Restarted
      (put_status (status_update c st (pure_update restart_status) (sv_status s, sv_world s))
         (s\<lparr>sv_phase := Rebinding\<rparr>))"
| rebind: "sv_phase s = Rebinding \<Longrightarrow>
    serve_step c st restart_after s Rebound
      (put_status (status_update c st (pure_update (\<lambda>x. x\<lparr>direct_addrs := map show_SocketAddr addrs\<rparr>))
           (sv_status s, sv_world s))
         (s\<lparr>sv_phase := Serving, sv_restart := False, sv_failures := 0, sv_canary := CTake\<rparr>))"

inductive_cases serve_stepE: "serve_step c st restart_after s e s'"

inductive serve_run :: "'k codec \<Rightarrow> StateDir \<Rightarrow> u32 \<Rightarrow> 'k server \<Rightarrow> 'k event list \<Rightarrow> 'k server \<Rightarrow> bool"
  for c st restart_after s0 where
  start: "serve_run c st restart_after s0 [] s0"
| step: "\<lbrakk>serve_run c st restart_after s0 es s; serve_step c st restart_after s e s'\<rbrakk> \<Longrightarrow>
    serve_run c st restart_after s0 (es @ [e]) s'"

text \<open>The process as it enters its loop; the first turn of the loop is a \<open>Rebound\<close>.\<close>

definition serve_start :: "Status \<Rightarrow> world \<Rightarrow> 'k server" where
  "serve_start s w = \<lparr>sv_sessions = [], sv_status = s, sv_world = w, sv_paths = (\<lambda>_. []), sv_closed = {},
     sv_tasks = [], sv_canary = CDone, sv_failures = 0, sv_restart = False, sv_phase = Rebinding,
     sv_vouched = []\<rparr>"

section \<open>Local commands\<close>

text \<open>
  \<open>{selector:?}\<close>: the quoted form, with the short escapes and \<open>\\u{..}\<close> for the other control
  characters of ASCII.  Beyond ASCII everything counts as printable.
\<close>

definition unicode_escape :: "char \<Rightarrow> string" where
  "unicode_escape ch = [backslash, CHR ''u'', CHR ''{''] @ hex_digits (of_char ch) @ [CHR ''}'']"

definition debug_char :: "char \<Rightarrow> string" where
  "debug_char ch =
     (if ch = quote then [backslash, quote]
      else if ch = backslash then [backslash, backslash]
      else if ch = newline then [backslash, CHR ''n'']
      else if ch = carriage_return then [backslash, CHR ''r'']
      else if ch = tab then [backslash, CHR ''t'']
      else if ch = nul then [backslash, CHR ''0'']
      else if (of_char ch :: nat) < 32 \<or> (of_char ch :: nat) = 127 then unicode_escape ch
      else [ch])"

definition show_debug :: "string \<Rightarrow> string" where
  "show_debug s = [quote] @ concat (map debug_char s) @ [quote]"

definition matches :: "'k codec \<Rightarrow> string \<Rightarrow> 'k \<Rightarrow> bool" where
  "matches c sel k \<longleftrightarrow> sel = [] \<or> sel = ''any'' \<or> starts_with (show_key c k) sel"

definition pick :: "'k codec \<Rightarrow> 'k session_map \<Rightarrow> string \<Rightarrow> ('k \<times> nat) result" where
  "pick c m selector =
     (let sel = to_lowercase (trim selector);
          found = map (\<lambda>(k, s). (k, s_conn s)) (filter (\<lambda>(k, _). matches c sel k) m)
      in case found of
           [] \<Rightarrow>
             (if m = [] then Inl (Msg ''no agent is connected'')
              else Inl (Msg (fmt [''no connected agent matches '', show_debug selector])))
         | [x] \<Rightarrow> Inr x
         | _ \<Rightarrow> Inl (Msg (fmt [dec (length found), '' connected agents match '', show_debug selector,
                  ''; use a longer prefix''])))"

text \<open>
  One connection of the control socket: \<open>open_bi\<close> opens a stream to an agent.  The result is
  the local stream and, when one was opened, the agent's stream, after the splice.
\<close>

definition route_local ::
  "postcard \<Rightarrow> 'k codec \<Rightarrow> (nat \<Rightarrow> conn_paths) \<Rightarrow> (nat \<Rightarrow> string + (reader \<times> sink)) \<Rightarrow> 'k session_map
    \<Rightarrow> reader \<Rightarrow> sink \<Rightarrow> unit result \<times> (reader \<times> sink) \<times> (nat \<times> reader \<times> sink) option" where
  "route_local pc c paths open_bi m r w =
     (case io_context ''reading route request'' (read_msg (dec_route pc)) r of
        (Inl e, r1) \<Rightarrow> (Inl e, (r1, w), None)
      | (Inr (Route agent), r1) \<Rightarrow>
          (case pick c m agent of
             Inl e \<Rightarrow> (case write_msg (enc_reply pc) (RouteErr (render e)) w of (x, w1) \<Rightarrow> (x, (r1, w1), None))
           | Inr (k, conn) \<Rightarrow>
               (case session_path_report (paths conn) of (p, remote) \<Rightarrow>
                case open_bi conn of
                  Inl e \<Rightarrow>
                    (case write_msg (enc_reply pc) (RouteErr (fmt [''opening stream: '', e])) w of
                       (x, w1) \<Rightarrow> (x, (r1, w1), None))
                | Inr (qr, qs) \<Rightarrow>
                    (case write_msg (enc_reply pc) (RouteOk (show_key c k) p remote) w of
                       (Inl e, w1) \<Rightarrow> (Inl e, (r1, w1), Some (conn, qr, qs))
                     | (Inr _, w1) \<Rightarrow>
                         (case splice_streams r1 w1 qr qs of
                            ((r2, w2), (qr', qs')) \<Rightarrow> (Inr (), (r2, w2), Some (conn, qr', qs')))))))"

section \<open>The invariant of the serving process\<close>

text \<open>The connections whose closing somebody will act on, with the agent they belong to.\<close>

fun closer_acts :: "'k act list \<Rightarrow> ('k \<times> nat) list" where
  "closer_acts [] = []"
| "closer_acts (SpawnCloser p i # as) = (p, i) # closer_acts as"
| "closer_acts (AwaitClosed p i # as) = (p, i) # closer_acts as"
| "closer_acts (_ # as) = closer_acts as"

definition closers :: "'k server \<Rightarrow> ('k \<times> nat) list" where
  "closers s = concat (map (closer_acts \<circ> snd) (sv_tasks s))"

text \<open>The table as a map from agents to the stable ids of their connections.\<close>

definition slots :: "'k server \<Rightarrow> 'k \<Rightarrow> nat option" where
  "slots s p = map_option s_id (map_of (sv_sessions s) p)"

definition vouched :: "'k server \<Rightarrow> ('k \<times> nat) set" where
  "vouched s = (\<lambda>(p, i, w). (p, i)) ` set (sv_vouched s)"

text \<open>Whoever is still to insert a session is also still to spawn the task that removes it.\<close>

fun inserts_ok :: "('k \<times> nat) set \<Rightarrow> 'k act list \<Rightarrow> bool" where
  "inserts_ok V [] = True"
| "inserts_ok V (Insert p i # as) \<longleftrightarrow> (p, i) \<in> set (closer_acts as) \<and> (p, i) \<in> V \<and> inserts_ok V as"
| "inserts_ok V (_ # as) = inserts_ok V as"

fun inserting :: "'k act list \<Rightarrow> bool" where
  "inserting [] = False"
| "inserting (Insert p i # as) = True"
| "inserting (_ # as) = inserting as"

definition task_ok :: "bool \<Rightarrow> ('k \<times> nat) set \<Rightarrow> bool \<times> 'k act list \<Rightarrow> bool" where
  "task_ok serving V t \<longleftrightarrow> (fst t \<longrightarrow> serving) \<and> inserts_ok V (snd t) \<and> (inserting (snd t) \<longrightarrow> fst t)"

definition tasks_inv :: "'k server \<Rightarrow> bool" where
  "tasks_inv s \<longleftrightarrow> distinct (map snd (closers s))
     \<and> (\<forall>t \<in> set (sv_tasks s). task_ok (sv_phase s = Serving) (vouched s) t)"

definition table_inv :: "'k server \<Rightarrow> bool" where
  "table_inv s \<longleftrightarrow> distinct (map fst (sv_sessions s))
     \<and> (\<forall>p x. map_of (sv_sessions s) p = Some x \<longrightarrow> s_conn x = s_id x)
     \<and> (\<forall>p i. slots s p = Some i \<longrightarrow> (p, i) \<in> vouched s \<and> (sv_phase s \<noteq> Clearing \<longrightarrow> (p, i) \<in> set (closers s)))
     \<and> (\<forall>p q i. (p, i) \<in> set (closers s) \<longrightarrow> slots s q = Some i \<longrightarrow> p = q)"

definition vouch_inv :: "'k codec \<Rightarrow> StateDir \<Rightarrow> 'k server \<Rightarrow> bool" where
  "vouch_inv c st s \<longleftrightarrow> (\<forall>(p, i, w) \<in> set (sv_vouched s). fst (check_approved c st p w))"

lemma closer_acts_append [simp]: "closer_acts (xs @ ys) = closer_acts xs @ closer_acts ys"
  by (induction xs rule: closer_acts.induct) auto

lemma closer_acts_conns: "(p, i) \<in> set (closer_acts as) \<Longrightarrow> i \<in> \<Union> (act_conns ` set as)"
  by (induction as rule: closer_acts.induct) auto

lemma closers_held: "(p, i) \<in> set (closers s) \<Longrightarrow> i \<in> held_conns s"
  by (fastforce simp: closers_def held_conns_def dest: closer_acts_conns)

lemma put_status_simps [simp]:
  "sv_sessions (put_status x s) = sv_sessions s" "sv_tasks (put_status x s) = sv_tasks s"
  "sv_phase (put_status x s) = sv_phase s" "sv_vouched (put_status x s) = sv_vouched s"
  "sv_paths (put_status x s) = sv_paths s" "sv_closed (put_status x s) = sv_closed s"
  "sv_canary (put_status x s) = sv_canary s" "sv_failures (put_status x s) = sv_failures s"
  "sv_restart (put_status x s) = sv_restart s" "sv_status (put_status x s) = fst x"
  "sv_world (put_status x s) = snd x"
  by (simp_all add: put_status_def)

lemma publish_list_simps [simp]:
  "sv_sessions (publish_list c st l s) = sv_sessions s" "sv_tasks (publish_list c st l s) = sv_tasks s"
  "sv_phase (publish_list c st l s) = sv_phase s" "sv_vouched (publish_list c st l s) = sv_vouched s"
  "sv_canary (publish_list c st l s) = sv_canary s" "sv_failures (publish_list c st l s) = sv_failures s"
  "sv_restart (publish_list c st l s) = sv_restart s" "sv_closed (publish_list c st l s) = sv_closed s"
  by (simp_all add: publish_list_def)


lemma inserts_ok_mono: "inserts_ok V as \<Longrightarrow> V \<subseteq> V' \<Longrightarrow> inserts_ok V' as"
  by (induction V as rule: inserts_ok.induct) auto

lemma task_ok_tail: "task_ok b V (own, a # as) \<Longrightarrow> task_ok b V (own, as)"
  by (cases a) (auto simp: task_ok_def)

lemma task_ok_free:
  "\<not> inserting [a] \<Longrightarrow> task_ok b V (own, as) \<Longrightarrow> task_ok b V (own, a # as)"
  by (cases a) (auto simp: task_ok_def)

lemma closer_acts_Cons: "closer_acts (a # as) = closer_acts [a] @ closer_acts as"
  using closer_acts_append [of "[a]" as] by simp

lemma distinct_move:
  assumes "distinct (u @ (x @ a) @ v)" and "r @ b = [] \<or> r @ b = x"
  shows "distinct (u @ (r @ a) @ v @ b)"
  using assms(2)
proof
  assume "r @ b = x"
  with assms(1) show ?thesis by auto
qed (use assms(1) in auto)

lemma distinct_map_move:
  assumes "distinct (map g (u @ (x @ a) @ v))" and "r @ b = [] \<or> r @ b = x"
  shows "distinct (map g (u @ (r @ a) @ v @ b))"
  using distinct_move [of "map g u" "map g x" "map g a" "map g v" "map g r" "map g b"] assms
  by (metis map_append list.simps(8))

lemma spawned_closers: "concat (map (closer_acts \<circ> snd) (map (\<lambda>b. (False, [b])) bs)) = closer_acts bs"
  by (induction bs) (simp_all add: closer_acts_Cons [symmetric])

lemma closers_tasks:
  "sv_tasks s = us @ (own, as) # vs \<Longrightarrow>
    closers s = concat (map (closer_acts \<circ> snd) us) @ closer_acts as @ concat (map (closer_acts \<circ> snd) vs)"
  by (simp add: closers_def)

text \<open>One step of one task: its head \<open>a\<close> becomes \<open>rep\<close>, and tasks for \<open>bs\<close> are spawned.\<close>

lemma tasks_inv_task:
  assumes "tasks_inv s" and t: "sv_tasks s = us @ (own, a # as) # vs"
    and t': "sv_tasks s' = us @ (own, rep @ as) # vs @ map (\<lambda>b. (False, [b])) bs"
    and "closer_acts rep @ closer_acts bs = [] \<or> closer_acts rep @ closer_acts bs = closer_acts [a]"
    and "\<not> inserting rep" and "\<not> inserting bs"
    and "sv_phase s' = sv_phase s" and "vouched s' = vouched s"
  shows "tasks_inv s'"
proof -
  let ?C = "\<lambda>ts. concat (map (closer_acts \<circ> snd) ts)"
  have c: "closers s = ?C us @ (closer_acts [a] @ closer_acts as) @ ?C vs"
    by (simp only: closers_tasks [OF t] closer_acts_Cons [symmetric])
  have c': "closers s' = ?C us @ (closer_acts rep @ closer_acts as) @ ?C vs @ closer_acts bs"
    by (simp only: closers_tasks [OF t'] closer_acts_append map_append concat_append spawned_closers)
  have "distinct (map snd (closers s))" using assms(1) by (simp add: tasks_inv_def)
  then have "distinct (map snd (closers s'))"
    unfolding c c' by (rule distinct_map_move [OF _ assms(4)])
  moreover have "task_ok p V (own, rep @ as)" if "task_ok p V (own, a # as)" "\<not> inserting rep" for p V rep
    using that(2)
  proof (induction rep)
    case (Cons b rep)
    then have "\<not> inserting [b]" "\<not> inserting rep" by (cases b; simp)+
    with Cons.IH show ?case by (simp add: task_ok_free)
  qed (use task_ok_tail [OF that(1)] in simp)
  moreover have "task_ok p V (False, [b])" if "b \<in> set bs" "\<not> inserting bs" for p V b
  proof -
    have "\<not> inserting [b]" using that by (induction bs rule: inserting.induct) auto
    then show ?thesis by (cases b) (auto simp: task_ok_def)
  qed
  ultimately show ?thesis using assms by (auto simp: tasks_inv_def)
qed

lemma tasks_inv_same:
  assumes "tasks_inv s" and "sv_tasks s' = sv_tasks s" "sv_phase s = Serving \<Longrightarrow> sv_phase s' = Serving" and "vouched s' = vouched s"
  shows "tasks_inv s'"
  using assms by (auto simp: tasks_inv_def closers_def task_ok_def)

lemma tasks_inv_shutdown:
  assumes "tasks_inv s" and "sv_tasks s' = filter (\<lambda>(own, _). \<not> own) (sv_tasks s)" and "vouched s' = vouched s"
  shows "tasks_inv s'" and "set (closers s') \<subseteq> set (closers s)"
proof -
  have "distinct (map snd (concat (map f (filter P ts)))) \<and> set (concat (map f (filter P ts))) \<subseteq> set (concat (map f ts))"
    if "distinct (map snd (concat (map f ts)))" for f :: "bool \<times> 'a act list \<Rightarrow> ('a \<times> nat) list" and P ts
    using that by (induction ts) auto
  with assms show "tasks_inv s'" "set (closers s') \<subseteq> set (closers s)"
    by (auto simp: tasks_inv_def closers_def task_ok_def)
qed

lemma vouched_upd [simp]:
  "vouched (s\<lparr>sv_sessions := m\<rparr>) = vouched s" "vouched (s\<lparr>sv_world := w\<rparr>) = vouched s"
  "vouched (s\<lparr>sv_tasks := ts\<rparr>) = vouched s" "vouched (s\<lparr>sv_canary := cy\<rparr>) = vouched s"
  "vouched (s\<lparr>sv_closed := cl\<rparr>) = vouched s" "vouched (s\<lparr>sv_paths := ps\<rparr>) = vouched s"
  "vouched (s\<lparr>sv_phase := ph\<rparr>) = vouched s" "vouched (s\<lparr>sv_failures := n\<rparr>) = vouched s"
  "vouched (s\<lparr>sv_restart := b\<rparr>) = vouched s" "vouched (put_status x s) = vouched s"
  "vouched (publish_list c st l s) = vouched s"
  by (simp_all add: vouched_def)

lemma tasks_inv_admit:
  assumes "tasks_inv s" and "sv_phase s = Serving" and "i \<notin> held_conns s"
    and "sv_tasks s' = sv_tasks s @ [(True, accept_tail peer i)]" and "sv_phase s' = Serving"
    and "vouched s' = insert (peer, i) (vouched s)"
  shows "tasks_inv s'" and "closers s' = closers s @ [(peer, i)]"
proof -
  show c: "closers s' = closers s @ [(peer, i)]" by (simp add: closers_def assms accept_tail_def)
  have i: "i \<notin> snd ` set (closers s)" using closers_held assms(3) by fastforce
  have "task_ok True (insert (peer, i) V) t" if "task_ok True V t" for V t
    using that inserts_ok_mono [OF _ subset_insertI] by (auto simp: task_ok_def)
  moreover have "task_ok True (insert (peer, i) V) (True, accept_tail peer i)" for V
    by (auto simp: task_ok_def accept_tail_def)
  ultimately show "tasks_inv s'" using assms i c by (auto simp: tasks_inv_def)
qed

lemma tasks_inv_step:
  assumes "serve_step c st restart_after s e s'" and "tasks_inv s"
  shows "tasks_inv s'"
  using assms(1)
proof (cases rule: serve_step.cases)
  case (admit peer w i ps)
  show ?thesis
    by (rule tasks_inv_admit(1) [OF assms(2) admit(3,5)]) (auto simp: admit vouched_def)
next
  case shutdown
  show ?thesis by (rule tasks_inv_shutdown(1) [OF assms(2)]) (auto simp: shutdown)
next
  case (insert us own peer i as vs m w)
  show ?thesis by (rule tasks_inv_task [OF assms(2) insert(3), where rep = "[]" and bs = "[]"]) (auto simp: insert)
next
  case (take_list us own as vs)
  show ?thesis
    by (rule tasks_inv_task [OF assms(2) take_list(3), where bs = "[]"
        and rep = "[PutList (session_list c (sv_paths s) (sv_sessions s))]"]) (auto simp: take_list)
next
  case (put_list us own l as vs)
  show ?thesis by (rule tasks_inv_task [OF assms(2) put_list(3), where rep = "[]" and bs = "[]"]) (auto simp: put_list)
next
  case (spawn_watcher us own i as vs)
  show ?thesis
    by (rule tasks_inv_task [OF assms(2) spawn_watcher(3), where rep = "[]" and bs = "[WatchPath i]"]) (auto simp: spawn_watcher)
next
  case (spawn_closer us own peer i as vs)
  show ?thesis
    by (rule tasks_inv_task [OF assms(2) spawn_closer(3), where rep = "[]" and bs = "[AwaitClosed peer i]"]) (auto simp: spawn_closer)
next
  case (path_changed us own i as vs)
  show ?thesis
    by (rule tasks_inv_task [OF assms(2) path_changed(3), where rep = "[TakeList, WatchPath i]" and bs = "[]"]) (auto simp: path_changed)
next
  case (watch_ended us own i as vs)
  show ?thesis by (rule tasks_inv_task [OF assms(2) watch_ended(3), where rep = "[]" and bs = "[]"]) (auto simp: watch_ended)
next
  case (forget us own peer i as vs m)
  show ?thesis by (rule tasks_inv_task [OF assms(2) forget(3), where rep = "[TakeList]" and bs = "[]"]) (auto simp: forget)
next
  case (keep us own peer i as vs)
  show ?thesis by (rule tasks_inv_task [OF assms(2) keep(3), where rep = "[]" and bs = "[]"]) (auto simp: keep)
qed (auto intro: tasks_inv_same [OF assms(2)])

lemma table_invD:
  assumes "table_inv s"
  shows "distinct (map fst (sv_sessions s))"
    and "map_of (sv_sessions s) p = Some x \<Longrightarrow> s_conn x = s_id x"
    and "slots s p = Some i \<Longrightarrow> (p, i) \<in> vouched s"
    and "slots s p = Some i \<Longrightarrow> sv_phase s \<noteq> Clearing \<Longrightarrow> (p, i) \<in> set (closers s)"
    and "(p, i) \<in> set (closers s) \<Longrightarrow> slots s q = Some i \<Longrightarrow> p = q"
  using assms unfolding table_inv_def by blast+

lemma table_invI:
  assumes "distinct (map fst (sv_sessions s))"
    and "\<And>p x. map_of (sv_sessions s) p = Some x \<Longrightarrow> s_conn x = s_id x"
    and "\<And>p i. slots s p = Some i \<Longrightarrow> (p, i) \<in> vouched s"
    and "\<And>p i. slots s p = Some i \<Longrightarrow> sv_phase s \<noteq> Clearing \<Longrightarrow> (p, i) \<in> set (closers s)"
    and "\<And>p q i. (p, i) \<in> set (closers s) \<Longrightarrow> slots s q = Some i \<Longrightarrow> p = q"
  shows "table_inv s"
  using assms unfolding table_inv_def by blast

lemma table_inv_same:
  assumes "table_inv s" and "sv_sessions s' = sv_sessions s" and "set (closers s') = set (closers s)"
    and "sv_phase s' = Clearing \<or> sv_phase s \<noteq> Clearing" and "vouched s' = vouched s"
  shows "table_inv s'"
proof -
  have "slots s' = slots s" by (simp add: fun_eq_iff slots_def assms(2))
  with assms(2-) table_invD [OF assms(1)] show ?thesis by (intro table_invI) metis+
qed

lemma closers_task:
  assumes t: "sv_tasks s = us @ (own, a # as) # vs"
    and t': "sv_tasks s' = us @ (own, rep @ as) # vs @ map (\<lambda>b. (False, [b])) bs"
  obtains C where "set (closers s') = C \<union> set (closer_acts (rep @ bs))"
    and "set (closers s) = C \<union> set (closer_acts [a])"
proof -
  let ?C = "\<lambda>ts. concat (map (closer_acts \<circ> snd) ts)"
  have c: "closers s = ?C us @ (closer_acts [a] @ closer_acts as) @ ?C vs"
    by (simp only: closers_tasks [OF t] closer_acts_Cons [symmetric])
  have c': "closers s' = ?C us @ (closer_acts rep @ closer_acts as) @ ?C vs @ closer_acts bs"
    by (simp only: closers_tasks [OF t'] closer_acts_append map_append concat_append spawned_closers)
  show thesis
    by (rule that [of "set (?C us) \<union> set (closer_acts as) \<union> set (?C vs)"])
      (simp_all only: c c' set_append closer_acts_append Un_ac)
qed

lemma closer_unique:
  assumes "tasks_inv s" and "(p, i) \<in> set (closers s)" and "(q, i) \<in> set (closers s)"
  shows "p = q"
  using assms inj_onD [of snd "set (closers s)" "(p, i)" "(q, i)"] by (simp add: tasks_inv_def distinct_map)

lemma table_inv_insert:
  assumes "table_inv s" and "tasks_inv s" and t: "sv_tasks s = us @ (own, Insert peer i # as) # vs"
    and "insert_session peer i (sv_sessions s, sv_world s) = (m, w)"
    and "sv_sessions s' = m" and "sv_tasks s' = us @ (own, as) # vs" and "sv_phase s' = sv_phase s" and "vouched s' = vouched s"
  shows "table_inv s'" and "slots s' = (slots s)(peer \<mapsto> i)"
proof -
  have ok: "(peer, i) \<in> set (closer_acts as)" "(peer, i) \<in> vouched s" "sv_phase s = Serving"
    using assms(2) t by (auto simp: tasks_inv_def task_ok_def)
  obtain now where m: "m = AList.update peer \<lparr>s_conn = i, s_id = i, s_since = now\<rparr> (sv_sessions s)"
    using assms(4) by (auto simp: insert_session_def wall_clock_def)
  have d': "distinct (map fst m)" using assms(1) by (simp add: m distinct_update table_inv_def)
  show sl: "slots s' = (slots s)(peer \<mapsto> i)" by (simp add: fun_eq_iff slots_def assms(5) m update_conv)
  have c: "set (closers s') = set (closers s)"
    by (rule closers_task [OF t, of s' "[]" "[]"]) (simp_all add: assms(6))
  have pi: "(peer, i) \<in> set (closers s)" using ok(1) by (auto simp: closers_def t)
  show "table_inv s'"
  proof (rule table_invI)
    show "distinct (map fst (sv_sessions s'))" by (simp only: assms(5) d')
    show "s_conn x = s_id x" if "map_of (sv_sessions s') p = Some x" for p x
      using that table_invD(2) [OF assms(1), of p x] by (auto simp: assms(5) m update_conv split: if_splits)
    show "(p, j) \<in> vouched s'" if "slots s' p = Some j" for p j
      using that table_invD(3) [OF assms(1), of p j] ok(2) by (auto simp: sl assms(8) split: if_splits)
    show "(p, j) \<in> set (closers s')" if "slots s' p = Some j" for p j
      using that table_invD(4) [OF assms(1), of p j] ok(3) pi by (auto simp: sl c split: if_splits)
    show "p = q" if "(p, j) \<in> set (closers s')" "slots s' q = Some j" for p q j
      using that table_invD(5) [OF assms(1), of p j q] closer_unique [OF assms(2) pi, of p]
      by (auto simp: sl c split: if_splits)
  qed
qed

lemma table_inv_forget:
  assumes "table_inv s" and t: "sv_tasks s = us @ (own, AwaitClosed peer i # as) # vs"
    and "forget_session peer i (sv_sessions s) = Some m"
    and "sv_sessions s' = m" and "sv_tasks s' = us @ (own, TakeList # as) # vs" and "sv_phase s' = sv_phase s" and "vouched s' = vouched s"
  shows "table_inv s'" and "slots s' = (slots s)(peer := None)" and "slots s peer = Some i"
    and "(peer, i) \<in> set (closers s)"
proof -
  have sp: "slots s peer = Some i" and m: "m = AList.delete peer (sv_sessions s)"
    using assms(3) by (auto simp: forget_session_def slots_def split: option.splits if_splits)
  show "slots s peer = Some i" by (rule sp)
  have d': "distinct (map fst m)" using assms(1) by (simp add: m distinct_delete table_inv_def)
  show sl: "slots s' = (slots s)(peer := None)" by (simp add: fun_eq_iff slots_def assms(4) m delete_conv)
  obtain C where c: "set (closers s') = C" "set (closers s) = C \<union> {(peer, i)}"
    by (rule closers_task [OF t, of s' "[TakeList]" "[]"]) (simp_all add: assms(5))
  then show "(peer, i) \<in> set (closers s)" by simp
  show "table_inv s'"
  proof (rule table_invI)
    show "distinct (map fst (sv_sessions s'))" by (simp only: assms(4) d')
    show "s_conn x = s_id x" if "map_of (sv_sessions s') p = Some x" for p x
      using that table_invD(2) [OF assms(1), of p x] by (auto simp: assms(4) m delete_conv split: if_splits)
    show "(p, j) \<in> vouched s'" if "slots s' p = Some j" for p j
      using that table_invD(3) [OF assms(1), of p j] by (auto simp: sl assms(7) split: if_splits)
    show "(p, j) \<in> set (closers s')" if "slots s' p = Some j" "sv_phase s' \<noteq> Clearing" for p j
      using that table_invD(4) [OF assms(1), of p j] by (auto simp: sl c assms(6) split: if_splits)
    show "p = q" if "(p, j) \<in> set (closers s')" "slots s' q = Some j" for p q j
      using that table_invD(5) [OF assms(1), of p j q] by (auto simp: sl c split: if_splits)
  qed
qed

lemma table_inv_keep:
  assumes "table_inv s" and t: "sv_tasks s = us @ (own, AwaitClosed peer i # as) # vs"
    and "forget_session peer i (sv_sessions s) = None"
    and "sv_sessions s' = sv_sessions s" and "sv_tasks s' = us @ (own, as) # vs" and "sv_phase s' = sv_phase s" and "vouched s' = vouched s"
  shows "table_inv s'" and "slots s' = slots s" and "slots s peer \<noteq> Some i" and "(peer, i) \<in> set (closers s)"
proof -
  show n: "slots s peer \<noteq> Some i"
    using assms(3) by (auto simp: slots_def forget_session_def split: if_splits)
  show sl: "slots s' = slots s" by (simp add: fun_eq_iff slots_def assms(4))
  obtain C where c: "set (closers s') = C" "set (closers s) = C \<union> {(peer, i)}"
    by (rule closers_task [OF t, of s' "[]" "[]"]) (simp_all add: assms(5))
  then show "(peer, i) \<in> set (closers s)" by simp
  show "table_inv s'"
  proof (rule table_invI)
    show "(p, j) \<in> set (closers s')" if "slots s' p = Some j" "sv_phase s' \<noteq> Clearing" for p j
      using that table_invD(4) [OF assms(1), of p j] n by (auto simp: sl c assms(6))
    show "p = q" if "(p, j) \<in> set (closers s')" "slots s' q = Some j" for p q j
      using that table_invD(5) [OF assms(1), of p j q] by (auto simp: sl c)
  qed (use table_invD(1-3) [OF assms(1)] in \<open>simp_all only: sl assms(4,7)\<close>)
qed

lemma table_inv_admit:
  assumes "table_inv s" and "i \<notin> held_conns s" and "closers s' = closers s @ [(peer, i)]"
    and "sv_sessions s' = sv_sessions s" and "sv_phase s' = sv_phase s" and "vouched s' = insert (peer, i) (vouched s)"
  shows "table_inv s'"
proof -
  have sl: "slots s' = slots s" by (simp add: fun_eq_iff slots_def assms(4))
  have free: "slots s q \<noteq> Some i" for q
  proof
    assume "slots s q = Some i"
    then obtain x where x: "map_of (sv_sessions s) q = Some x" "s_id x = i" by (auto simp: slots_def)
    from map_of_SomeD [OF x(1)] table_invD(2) [OF assms(1) x(1)] x(2) have "i \<in> held_conns s"
      unfolding held_conns_def by force
    with assms(2) show False by blast
  qed
  show ?thesis
  proof (rule table_invI)
    show "(p, j) \<in> vouched s'" if "slots s' p = Some j" for p j
      using that table_invD(3) [OF assms(1), of p j] by (simp add: sl assms(6))
    show "(p, j) \<in> set (closers s')" if "slots s' p = Some j" "sv_phase s' \<noteq> Clearing" for p j
      using that table_invD(4) [OF assms(1), of p j] by (simp add: sl assms(3,5))
    show "p = q" if "(p, j) \<in> set (closers s')" "slots s' q = Some j" for p q j
      using that table_invD(5) [OF assms(1), of p j q] free by (auto simp: sl assms(3))
  qed (use table_invD(1,2) [OF assms(1)] in \<open>simp_all only: assms(4)\<close>)
qed

lemma table_inv_shutdown:
  assumes "table_inv s" and "set (closers s') \<subseteq> set (closers s)"
    and "sv_sessions s' = sv_sessions s" and "sv_phase s' = Clearing" and "vouched s' = vouched s"
  shows "table_inv s'"
proof -
  have "slots s' = slots s" by (simp add: fun_eq_iff slots_def assms(3))
  with assms(2) table_invD [OF assms(1)] show ?thesis
    by (intro table_invI) (simp_all only: assms(3-5), blast+)
qed

lemma table_inv_step:
  assumes "serve_step c st restart_after s e s'" and "tasks_inv s" and "table_inv s"
  shows "table_inv s'"
  using assms(1)
proof (cases rule: serve_step.cases)
  case (admit peer w i ps)
  have "closers s' = closers s @ [(peer, i)]"
    by (rule tasks_inv_admit(2) [OF assms(2) admit(3,5)]) (simp_all add: admit vouched_def)
  then show ?thesis by (rule table_inv_admit [OF assms(3) admit(5)]) (simp_all add: admit vouched_def)
next
  case shutdown
  have "set (closers s') \<subseteq> set (closers s)"
    by (rule tasks_inv_shutdown(2) [OF assms(2)]) (simp_all add: shutdown)
  then show ?thesis by (rule table_inv_shutdown [OF assms(3)]) (simp_all add: shutdown)
next
  case (insert us own peer i as vs m w)
  show ?thesis by (rule table_inv_insert(1) [OF assms(3,2) insert(3,4)]) (simp_all add: insert)
next
  case (take_list us own as vs)
  show ?thesis
    by (rule table_inv_same [OF assms(3)]) (auto simp: take_list closers_def)
next
  case (put_list us own l as vs)
  show ?thesis by (rule table_inv_same [OF assms(3)]) (auto simp: put_list closers_def)
next
  case (spawn_watcher us own i as vs)
  show ?thesis by (rule table_inv_same [OF assms(3)]) (auto simp: spawn_watcher closers_def)
next
  case (spawn_closer us own peer i as vs)
  show ?thesis by (rule table_inv_same [OF assms(3)]) (auto simp: spawn_closer closers_def)
next
  case (path_changed us own i as vs)
  show ?thesis by (rule table_inv_same [OF assms(3)]) (auto simp: path_changed closers_def)
next
  case (watch_ended us own i as vs)
  show ?thesis by (rule table_inv_same [OF assms(3)]) (auto simp: watch_ended closers_def)
next
  case (forget us own peer i as vs m)
  show ?thesis by (rule table_inv_forget(1) [OF assms(3) forget(3,5)]) (simp_all add: forget)
next
  case (keep us own peer i as vs)
  show ?thesis by (rule table_inv_keep(1) [OF assms(3) keep(3,5)]) (simp_all add: keep)
next
  case clear
  show ?thesis by (rule table_invI) (simp_all add: clear slots_def)
qed (auto intro!: table_inv_same [OF assms(3)] simp: closers_def)

lemma vouch_inv_step:
  "serve_step c st restart_after s e s' \<Longrightarrow> vouch_inv c st s \<Longrightarrow> vouch_inv c st s'"
  by (erule serve_step.cases) (auto simp: vouch_inv_def)

lemmas serve_inv_defs = tasks_inv_def table_inv_def vouch_inv_def slots_def vouched_def closers_def serve_start_def

lemma serve_run_inv:
  assumes "serve_run c st restart_after (serve_start s0 w0) es s"
  shows "tasks_inv s" and "table_inv s" and "vouch_inv c st s"
proof -
  from assms have "tasks_inv s \<and> table_inv s \<and> vouch_inv c st s"
  proof induction
    case start
    show ?case by (simp add: serve_inv_defs)
  next
    case (step es s e s')
    then show ?case using tasks_inv_step table_inv_step vouch_inv_step by metis
  qed
  then show "tasks_inv s" "table_inv s" "vouch_inv c st s" by simp_all
qed

section \<open>The table of sessions\<close>

text \<open>What the table is meant to be: an agent's slot holds its latest connection, until that
  connection (whoever it belongs to) is gone, or the endpoint is rebuilt.\<close>

fun slot_event :: "'k event \<Rightarrow> ('k \<Rightarrow> nat option) \<Rightarrow> ('k \<Rightarrow> nat option)" where
  "slot_event (Inserted p i) m = m(p \<mapsto> i)"
| "slot_event (Gone i) m = (\<lambda>p. if m p = Some i then None else m p)"
| "slot_event Cleared m = Map.empty"
| "slot_event _ m = m"

lemma slots_step:
  assumes "serve_step c st restart_after s e s'" and "tasks_inv s" and "table_inv s"
  shows "slots s' = slot_event e (slots s)"
  using assms(1)
proof (cases rule: serve_step.cases)
  case (insert us own peer i as vs m w)
  have "slots s' = (slots s)(peer \<mapsto> i)"
    by (rule table_inv_insert(2) [OF assms(3,2) insert(3,4)]) (simp_all add: insert)
  then show ?thesis by (simp add: insert)
next
  case (forget us own peer i as vs m)
  have "slots s' = (slots s)(peer := None)" "slots s peer = Some i" "(peer, i) \<in> set (closers s)"
    by (rule table_inv_forget [OF assms(3) forget(3,5), of s']; simp add: forget)+
  then show ?thesis using table_invD(5) [OF assms(3)] by (auto simp: forget fun_eq_iff)
next
  case (keep us own peer i as vs)
  have "slots s' = slots s" "slots s peer \<noteq> Some i" "(peer, i) \<in> set (closers s)"
    by (rule table_inv_keep [OF assms(3) keep(3,5), of s']; simp add: keep)+
  then show ?thesis using table_invD(5) [OF assms(3)] by (auto simp: keep fun_eq_iff)
qed (simp_all add: slots_def fun_eq_iff)

lemma slots_run:
  assumes "serve_run c st restart_after (serve_start s0 w0) es s"
  shows "slots s = fold slot_event es Map.empty"
  using assms
proof induction
  case start
  show ?case by (simp add: slots_def serve_start_def fun_eq_iff)
next
  case (step es s e s')
  with slots_step [OF step(2)] serve_run_inv [OF step(1)] show ?case by simp
qed

section \<open>What the status says\<close>

fun verdict_event :: "'k event \<Rightarrow> bool option \<Rightarrow> bool option" where
  "verdict_event (Probed r) v = Some (\<not> isl r)"
| "verdict_event _ v = v"

fun streak_event :: "'k event \<Rightarrow> nat \<Rightarrow> nat" where
  "streak_event (Probed (Inl e)) n = Suc n"
| "streak_event (Probed (Inr p)) n = 0"
| "streak_event Restarted n = 0"
| "streak_event _ n = n"

fun restarts_event :: "'k event \<Rightarrow> nat \<Rightarrow> nat" where
  "restarts_event Restarted n = Suc n"
| "restarts_event _ n = n"

lemma status_update_pure:
  "fst (status_update c st (pure_update f) sw) = (f (fst sw))\<lparr>updated_unix := unix_of (clock (snd sw) (tick (snd sw)))\<rparr>"
  by (simp add: status_update_def pure_update_def wall_clock_def Let_def split: prod.split)

lemma status_update_ok:
  "\<exists>now. fst (status_update c st (canary_ok p) (s, w)) =
    s\<lparr>dialable := Some True, last_probe_ok_unix := Some (unix_of (clock w (tick w))), last_probe_path := Some p,
      last_probe_error := None, consecutive_probe_failures := 0, updated_unix := now\<rparr>"
  by (auto simp: status_update_def canary_ok_def wall_clock_def Let_def split: prod.split)

definition status_inv :: "'k event list \<Rightarrow> 'k server \<Rightarrow> bool" where
  "status_inv es s \<longleftrightarrow> dialable (sv_status s) = fold verdict_event es None
     \<and> consecutive_probe_failures (sv_status s) = word_of_nat (fold streak_event es 0)
     \<and> endpoint_restarts (sv_status s) = word_of_nat (fold restarts_event es 0)"

definition canary_inv :: "u32 \<Rightarrow> 'k event list \<Rightarrow> 'k server \<Rightarrow> bool" where
  "canary_inv restart_after es s \<longleftrightarrow>
     (sv_phase s = Serving \<longrightarrow> sv_failures s = word_of_nat (fold streak_event es 0)
        \<and> (sv_restart s \<longleftrightarrow> sv_canary s = CDone))
     \<and> (sv_phase s = Rebinding \<longrightarrow> fold streak_event es 0 = 0)
     \<and> (sv_phase s \<noteq> Serving \<longrightarrow> sv_canary s = CDone)
     \<and> fold streak_event es 0 \<le> max 1 (unat restart_after)
     \<and> (sv_phase s = Serving \<longrightarrow> (sv_restart s \<longleftrightarrow> fold streak_event es 0 = max 1 (unat restart_after)))"

lemma publish_list_status:
  "\<exists>now. sv_status (publish_list c st l s) = (sv_status s)\<lparr>sessions := l, updated_unix := now\<rparr>"
  by (auto simp: publish_list_def status_update_pure)

lemma publish_list_status_simps [simp]:
  "dialable (sv_status (publish_list c st l s)) = dialable (sv_status s)"
  "consecutive_probe_failures (sv_status (publish_list c st l s)) = consecutive_probe_failures (sv_status s)"
  "endpoint_restarts (sv_status (publish_list c st l s)) = endpoint_restarts (sv_status s)"
  "sessions (sv_status (publish_list c st l s)) = l"
  using publish_list_status [of c st l s] by auto

lemma u32_streak:
  assumes "n < max 1 (unat (a :: u32))"
  shows "a \<le> word_of_nat n + 1 \<longleftrightarrow> Suc n = max 1 (unat a)"
proof (cases "unat a \<le> 1")
  case True
  then have "n = 0" using assms by simp
  then show ?thesis using True by (simp add: word_le_nat_alt)
next
  case False
  have "unat a < 4294967296" using unsigned_less [of a, where ?'a = nat] by simp
  then have "unat (word_of_nat (Suc n) :: u32) = Suc n" using assms False by (intro unat_u32_of_nat) auto
  moreover have "(word_of_nat n + 1 :: u32) = word_of_nat (Suc n)" by simp
  ultimately show ?thesis using assms False by (simp only: word_le_nat_alt) auto
qed

lemma status_inv_step:
  assumes "serve_step c st restart_after s e s'" and "status_inv es s" and "canary_inv restart_after es s"
  shows "status_inv (es @ [e]) s'"
  using assms(1)
proof (cases rule: serve_step.cases)
  case (canary_probe r failures again sw)
  have serving: "sv_phase s = Serving" using assms(3) canary_probe(3) by (auto simp: canary_inv_def)
  show ?thesis
  proof (cases r)
    case (Inr p)
    then show ?thesis
      using assms(2) canary_probe status_update_ok [of c st p "sv_status s" "sv_world s"]
      by (auto simp: status_inv_def canary_turn_def)
  next
    case (Inl e)
    then show ?thesis
      using assms(2,3) serving canary_probe
      by (auto simp: status_inv_def canary_inv_def canary_turn_def status_update_pure canary_err_def Let_def add.commute)
  qed
qed (use assms(2) in \<open>auto simp: status_inv_def status_update_pure restart_status_def add.commute\<close>)

lemma canary_inv_step:
  assumes "serve_step c st restart_after s e s'" and "canary_inv restart_after es s"
  shows "canary_inv restart_after (es @ [e]) s'"
  using assms(1)
proof (cases rule: serve_step.cases)
  case (canary_probe r failures again sw)
  have serving: "sv_phase s = Serving" using assms(2) canary_probe(3) by (auto simp: canary_inv_def)
  let ?n = "fold streak_event es 0"
  have n: "?n < max 1 (unat restart_after)" "sv_failures s = word_of_nat ?n" "\<not> sv_restart s"
    using assms(2) canary_probe(3) serving by (auto simp: canary_inv_def)
  show ?thesis
  proof (cases r)
    case (Inr p)
    then show ?thesis
      using n serving canary_probe by (auto simp: canary_inv_def canary_turn_def)
  next
    case (Inl e)
    then show ?thesis
      using n serving canary_probe u32_streak [OF n(1)]
      by (auto simp: canary_inv_def canary_turn_def Let_def add.commute)
  qed
qed (use assms(2) in \<open>auto simp: canary_inv_def\<close>)

section \<open>Properties of the serving process\<close>

lemma serve_run_status:
  assumes "serve_run c st restart_after (serve_start (first_status node p now mode) w0) es s"
  shows "status_inv es s" and "canary_inv restart_after es s"
proof -
  from assms have "status_inv es s \<and> canary_inv restart_after es s"
  proof induction
    case start
    show ?case by (simp add: status_inv_def canary_inv_def serve_start_def first_status_def)
  next
    case (step es s e s')
    then show ?case using status_inv_step canary_inv_step by metis
  qed
  then show "status_inv es s" "canary_inv restart_after es s" by simp_all
qed

lemma check_approved_True:
  assumes "fst (check_approved c st p w)"
  shows "\<exists>S w'. approved c st w = (Inr S, w') \<and> p \<in> S"
  using assms by (auto simp: check_approved_def split: prod.splits sum.splits)

lemma restart_only: "serve_step c st restart_after s Restarting s' \<Longrightarrow> sv_restart s"
  by (erule serve_step.cases) simp_all

text \<open>C7. Only approved agents get a session: whoever is in the table was, when its connection
  was admitted, in the approved list as it was on the disk at that moment; whatever else the
  tasks, the network, other processes and endpoint restarts do in between.\<close>

theorem serve_only_approved:
  assumes "serve_run c st restart_after (serve_start s0 w0) es s"
    and "map_of (sv_sessions s) p = Some x"
  shows "\<exists>w S w'. (p, s_id x, w) \<in> set (sv_vouched s) \<and> approved c st w = (Inr S, w') \<and> p \<in> S"
proof -
  note inv = serve_run_inv [OF assms(1)]
  have "slots s p = Some (s_id x)" using assms(2) by (simp add: slots_def)
  from table_invD(3) [OF inv(2) this] obtain w where w: "(p, s_id x, w) \<in> set (sv_vouched s)"
    by (auto simp: vouched_def)
  then have "fst (check_approved c st p w)" using inv(3) by (auto simp: vouch_inv_def)
  from check_approved_True [OF this] w show ?thesis by auto
qed

text \<open>C15. The table is right: over any run, an agent's slot holds the connection it last got
  in, until that very connection is gone or the endpoint is rebuilt.  In particular the late
  notice of an old connection's end never evicts the agent that has redialled since.\<close>

theorem serve_slots:
  assumes "serve_run c st restart_after (serve_start s0 w0) es s"
  shows "slots s = fold slot_event es Map.empty"
  by (rule slots_run [OF assms])

text \<open>No session is left behind: while the endpoint is up, every session of the table has
  the task that will remove it when its connection closes, and no other session depends on
  that task.\<close>

theorem serve_sessions_watched:
  assumes "serve_run c st restart_after (serve_start s0 w0) es s"
    and "sv_phase s \<noteq> Clearing" and "map_of (sv_sessions s) p = Some x"
  shows "(p, s_id x) \<in> set (closers s) \<and> distinct (map snd (closers s))"
  using serve_run_inv(1,2) [OF assms(1)] assms(2,3) table_invD(4) [of s p "s_id x"]
  by (auto simp: slots_def tasks_inv_def)

text \<open>C16. What the status says about reachability is what the canary found: \<open>dialable\<close> is the
  verdict of the last probe, the failures are those in a row since the last success or restart,
  and the restarts are counted; no other task's update disturbs them.\<close>

theorem serve_status_honest:
  assumes "serve_run c st restart_after (serve_start (first_status node p now mode) w0) es s"
  shows "dialable (sv_status s) = fold verdict_event es None
    \<and> consecutive_probe_failures (sv_status s) = word_of_nat (fold streak_event es 0)
    \<and> endpoint_restarts (sv_status s) = word_of_nat (fold restarts_event es 0)"
  using serve_run_status(1) [OF assms] by (simp add: status_inv_def)

text \<open>C17. The endpoint is rebuilt after exactly \<open>restart_after\<close> failed probes in a row (one, if
  that is zero): never sooner, and until then the canary goes on probing.\<close>

theorem serve_restart_exact:
  assumes "serve_run c st restart_after (serve_start (first_status node p now mode) w0) es s"
    and "sv_phase s = Serving"
  shows "fold streak_event es 0 \<le> max 1 (unat restart_after)
    \<and> ((\<exists>s'. serve_step c st restart_after s Restarting s') \<longleftrightarrow> fold streak_event es 0 = max 1 (unat restart_after))
    \<and> (sv_canary s \<noteq> CDone \<longleftrightarrow> fold streak_event es 0 < max 1 (unat restart_after))"
proof -
  have "(\<exists>s'. serve_step c st restart_after s Restarting s') \<longleftrightarrow> sv_restart s"
    using serve_step.shutdown [OF assms(2)] restart_only by blast
  with serve_run_status(2) [OF assms(1)] assms(2) show ?thesis by (auto simp: canary_inv_def)
qed

text \<open>A run on a disk whose approved list holds one agent.\<close>

abbreviation demo_start :: "bool server" where
  "demo_start \<equiv> serve_start (first_status ''n'' 1 0 Direct) (demo_world (\<lambda>_. None))"

lemma demo_check: "check_approved two_keys demo_dir True (demo_world (\<lambda>_. None)) = (True, next_tick (demo_world (\<lambda>_. None)))"
  using approved_reads [OF _ demo_initially, of "\<lambda>_. None"] by (simp add: check_approved_def calm_def demo_world_def)

lemma demo_up:
  "\<exists>s. serve_run two_keys demo_dir n demo_start [Rebound] s \<and> sv_phase s = Serving \<and> sv_sessions s = []
     \<and> sv_tasks s = [] \<and> sv_canary s = CTake \<and> sv_failures s = 0 \<and> sessions (sv_status s) = []"
proof -
  have p: "sv_phase demo_start = Rebinding" by (simp add: serve_start_def)
  show ?thesis
    using serve_run.step [OF serve_run.start serve_step.rebind [OF p, of two_keys demo_dir n "[]"]]
    by (intro exI conjI) (simp_all, simp_all add: serve_start_def first_status_def status_update_pure)
qed

lemma demo_failed:
  "\<exists>s. serve_run two_keys demo_dir 1 demo_start [Rebound, Worked, Worked, Probed (Inl (Msg ''timed out''))] s
     \<and> sv_phase s = Serving"
proof -
  let ?run = "serve_run two_keys demo_dir 1 demo_start"
  from demo_up [of 1] obtain s1 where 1: "?run [Rebound] s1" "sv_phase s1 = Serving" "sv_canary s1 = CTake" by blast
  obtain l s2 where 2: "?run [Rebound, Worked] s2" "sv_phase s2 = Serving" "sv_canary s2 = CPut l"
    using serve_run.step [OF 1(1) serve_step.canary_list [OF 1(3)]] 1(2) by force
  obtain s3 where 3: "?run [Rebound, Worked, Worked] s3" "sv_phase s3 = Serving" "sv_canary s3 = CProbe"
    using serve_run.step [OF 2(1) serve_step.canary_put [OF 2(3)]] 2(2) by force
  obtain f b sw where "canary_turn two_keys demo_dir 1 (Inl (Msg ''timed out'')) (sv_failures s3) (sv_status s3, sv_world s3) = (f, b, sw)"
    by (metis prod.exhaust)
  from serve_run.step [OF 3(1) serve_step.canary_probe [OF 3(3) this]] 3(2) show ?thesis by force
qed

lemma demo_admitted:
  "\<exists>s. serve_run two_keys demo_dir n demo_start [Rebound, Worked, OtherProcess, Admitted True 0, Inserted True 0] s
     \<and> sv_phase s = Serving \<and> slots s True = Some 0 \<and> sv_canary s = CPut []
     \<and> sv_tasks s = [(True, [TakeList, SpawnWatcher 0, SpawnCloser True 0])]"
proof -
  let ?run = "serve_run two_keys demo_dir n demo_start"
  let ?w = "demo_world (\<lambda>_. None)"
  from demo_up [of n] obtain s1 where 1: "?run [Rebound] s1" "sv_phase s1 = Serving" "sv_canary s1 = CTake"
    "sv_tasks s1 = []" "sv_sessions s1 = []" by blast
  define s2 where "s2 = s1\<lparr>sv_canary := CPut []\<rparr>"
  have 2: "?run [Rebound, Worked] s2"
    using serve_run.step [OF 1(1) serve_step.canary_list [OF 1(3)]] 1(5) by (simp add: s2_def session_list_def)
  define s3 where "s3 = s2\<lparr>sv_world := ?w\<rparr>"
  have 3: "?run [Rebound, Worked, OtherProcess] s3"
    using serve_run.step [OF 2 serve_step.other_process [of _ _ _ _ ?w]] by (simp add: s3_def)
  have c3: "sv_phase s3 = Serving" "check_approved two_keys demo_dir True (sv_world s3) = (True, next_tick ?w)"
    "0 \<notin> held_conns s3" "sv_tasks s3 = []" "sv_sessions s3 = []"
    using 1 by (simp_all add: s3_def s2_def demo_check held_conns_def)
  from serve_run.step [OF 3 serve_step.admit [OF c3(1-3), where ps = "[]"]] c3(4,5) 1 obtain s4 where
    4: "?run [Rebound, Worked, OtherProcess, Admitted True 0] s4" "sv_tasks s4 = [] @ (True, accept_tail True 0) # []"
      "sv_phase s4 = Serving" "sv_sessions s4 = []" "sv_canary s4 = CPut []"
    by (force simp: s3_def s2_def)
  obtain m w where ins: "insert_session True 0 (sv_sessions s4, sv_world s4) = (m, w)" by (metis prod.exhaust)
  then have m: "map_option s_id (map_of m True) = Some 0" by (auto simp: insert_session_def wall_clock_def 4)
  from serve_run.step [OF 4(1) serve_step.insert [OF 4(2) [unfolded accept_tail_def] ins]] 4 m show ?thesis
    by (force simp: slots_def)
qed

theorem serve_only_approved_witness:
  "\<exists>es s x w S w'. serve_run two_keys demo_dir 1 demo_start es s \<and> map_of (sv_sessions s) True = Some x
     \<and> (True, s_id x, w) \<in> set (sv_vouched s) \<and> approved two_keys demo_dir w = (Inr S, w') \<and> True \<in> S"
proof -
  from demo_admitted [of 1] obtain es s where run: "serve_run two_keys demo_dir 1 demo_start es s" and "slots s True = Some 0"
    by blast
  then obtain x where x: "map_of (sv_sessions s) True = Some x" by (auto simp: slots_def)
  from serve_only_approved [OF run x] run x show ?thesis by blast
qed

theorem serve_slots_witness:
  "\<exists>s. serve_run two_keys demo_dir 1 demo_start [Rebound, Worked, OtherProcess, Admitted True 0, Inserted True 0] s
     \<and> slots s = [True \<mapsto> 0]"
proof -
  from demo_admitted [of 1] obtain s where
    run: "serve_run two_keys demo_dir 1 demo_start [Rebound, Worked, OtherProcess, Admitted True 0, Inserted True 0] s" by blast
  from serve_slots [OF run] run show ?thesis by auto
qed

theorem serve_sessions_watched_witness:
  "\<exists>es s. serve_run two_keys demo_dir 1 demo_start es s \<and> (True, 0) \<in> set (closers s)"
proof -
  from demo_admitted [of 1] obtain es s where run: "serve_run two_keys demo_dir 1 demo_start es s"
    and s: "slots s True = Some 0" "sv_phase s = Serving" by blast
  from s(1) obtain x where x: "map_of (sv_sessions s) True = Some x" "s_id x = 0" by (auto simp: slots_def)
  from serve_sessions_watched [OF run _ x(1)] run x(2) s(2) show ?thesis by auto
qed

theorem serve_status_honest_witness:
  "\<exists>es s. serve_run two_keys demo_dir 1 demo_start es s \<and> dialable (sv_status s) = Some False
     \<and> consecutive_probe_failures (sv_status s) = 1"
proof -
  from demo_failed obtain s where
    run: "serve_run two_keys demo_dir 1 demo_start [Rebound, Worked, Worked, Probed (Inl (Msg ''timed out''))] s" by blast
  from serve_status_honest [OF run] run show ?thesis by auto
qed

theorem serve_restart_exact_witness:
  "\<exists>es s s'. serve_run two_keys demo_dir 1 demo_start es s \<and> serve_step two_keys demo_dir 1 s Restarting s'"
proof -
  from demo_failed obtain s where
    run: "serve_run two_keys demo_dir 1 demo_start [Rebound, Worked, Worked, Probed (Inl (Msg ''timed out''))] s"
    and "sv_phase s = Serving" by blast
  from serve_restart_exact [OF this] run show ?thesis by auto
qed

section \<open>A stale list\<close>

text \<open>Nobody has anything left to do until the network or the clock says so.\<close>

definition quiet :: "'k server \<Rightarrow> bool" where
  "quiet s \<longleftrightarrow> sv_canary s = CSleep \<and> (\<forall>(own, as) \<in> set (sv_tasks s). case as of [] \<Rightarrow> True
     | WatchPath i # _ \<Rightarrow> True | AwaitClosed p i # _ \<Rightarrow> True | _ \<Rightarrow> False)"


section \<open>Choosing an agent\<close>

lemma filter_singleton: "distinct xs \<Longrightarrow> x \<in> set xs \<Longrightarrow> filter (\<lambda>y. y = x) xs = [x]"
  by (induction xs) (auto simp: filter_empty_conv)

lemma single_filter:
  assumes "distinct (map fst m)"
  shows "filter (\<lambda>(k, _). P k) m = [(k, s)] \<longleftrightarrow>
    map_of m k = Some s \<and> P k \<and> (\<forall>k' \<in> fst ` set m. P k' \<longrightarrow> k' = k)"
proof
  assume f: "filter (\<lambda>(k, _). P k) m = [(k, s)]"
  have mem: "x \<in> set m \<and> P (fst x) \<longleftrightarrow> x = (k, s)" for x
    using arg_cong [OF f, of set] by (cases x) auto
  from mem [of "(k, s)"] have "(k, s) \<in> set m" "P k" by auto
  moreover have "k' = k" if "k' \<in> fst ` set m" "P k'" for k'
    using that mem by fastforce
  ultimately show "map_of m k = Some s \<and> P k \<and> (\<forall>k' \<in> fst ` set m. P k' \<longrightarrow> k' = k)"
    using assms by simp
next
  assume r: "map_of m k = Some s \<and> P k \<and> (\<forall>k' \<in> fst ` set m. P k' \<longrightarrow> k' = k)"
  then have mem: "(k, s) \<in> set m" by (metis map_of_SomeD)
  have "(case x of (k, _) \<Rightarrow> P k) = (x = (k, s))" if "x \<in> set m" for x
  proof (cases x)
    case (Pair a b)
    then have "map_of m a = Some b" "a \<in> fst ` set m" using that assms by force+
    then show ?thesis using r by (auto simp only: Pair prod.case option.inject)
  qed
  then have "filter (\<lambda>(k, _). P k) m = filter (\<lambda>x. x = (k, s)) m" by (rule filter_cong [OF refl])
  with mem show "filter (\<lambda>(k, _). P k) m = [(k, s)]"
    using filter_singleton [of m "(k, s)"] assms distinct_map [of fst m] by simp
qed

text \<open>A command reaches the agent it names and no other: \<open>pick\<close> answers with an agent
  exactly when it is the only connected one the selector matches, and with an error otherwise.\<close>

theorem pick_unique:
  assumes "distinct (map fst m)" and "sel = to_lowercase (trim selector)"
  shows "pick c m selector = Inr (k, i) \<longleftrightarrow>
    (\<exists>s. map_of m k = Some s \<and> s_conn s = i \<and> matches c sel k
       \<and> (\<forall>k' \<in> fst ` set m. matches c sel k' \<longrightarrow> k' = k))"
proof -
  have "pick c m selector = Inr (k, i) \<longleftrightarrow> (\<exists>s. filter (\<lambda>(k, _). matches c sel k) m = [(k, s)] \<and> s_conn s = i)"
    unfolding pick_def Let_def assms(2) [symmetric]
    by (cases "filter (\<lambda>(k, _). matches c sel k) m" rule: remdups_adj.cases) auto
  then show ?thesis using single_filter [OF assms(1), of "matches c sel"] by auto
qed

theorem pick_unique_witness:
  "pick two_keys [(True, \<lparr>s_conn = 4, s_id = 4, s_since = 0\<rparr>), (False, \<lparr>s_conn = 5, s_id = 5, s_since = 0\<rparr>)] ''F'' = Inr (False, 5)"
proof -
  have s: "to_lowercase (trim ''F'') = ''f''" by code_simp
  show ?thesis
    using pick_unique [of "[(True, \<lparr>s_conn = 4, s_id = 4, s_since = 0\<rparr>), (False, \<lparr>s_conn = 5, s_id = 5, s_since = 0\<rparr>)]"
        "''f''" "''F''" two_keys False 5] s
    by (simp add: matches_def two_keys_def starts_with_def)
qed

section \<open>The probe meets its responder\<close>

lemma probe_respond_ping:
  assumes "arriving r = as_bytes PROBE_PING" and "broken r = None" and "healthy s" and "sent s = []"
  shows "sent (probe_respond r s) = as_bytes PROBE_PONG"
proof -
  have "fst (read_to_end (length PROBE_PING) r) = Inr (as_bytes PROBE_PING)"
    using assms(1,2) by (simp add: read_to_end_def)
  then obtain r' where rd: "read_to_end (length PROBE_PING) r = (Inr (as_bytes PROBE_PING), r')" by (metis prod.collapse)
  obtain s1 where s1: "send_all (as_bytes PROBE_PONG) s = (Inr (), s1)" "healthy s1" "sent s1 = sent s @ as_bytes PROBE_PONG"
    using assms(3) by (rule send_all_healthy)
  obtain s2 where "send_ctl s1 = (Inr (), s2)" "sent s2 = sent s1" using s1(2) by (rule send_ctl_healthy)
  with rd s1 assms(4) show ?thesis by (simp only: probe_respond_def prod.case sum.case if_True snd_conv) simp
qed

text \<open>The canary can succeed: a probe whose dial goes through and whose stream is carried
  faithfully both ways is answered by \<open>serve\<close>'s responder as it expects, whoever dials.\<close>

theorem probe_answered:
  assumes "bind parse_url (pn_bind net) None relay (case mode of Discovery \<Rightarrow> LookupResolve | Direct \<Rightarrow> LookupNone) None = Inr ep"
    and "pn_connect net ep (case mode of Discovery \<Rightarrow> new_addr target | Direct \<Rightarrow> endpoint_addr target direct None) PROBE_ALPN = Inr ps"
    and "pn_open net = Inr s" and "healthy s" and "sent s = []" and "\<not> pn_late net"
    and "healthy t" and "sent t = []"
    and "\<And>b. pn_answer net b = reader_of (sent (probe_respond (reader_of b) t))"
  shows "probe parse_url net target mode direct relay timeout = Inr (fst (session_path_report ps))"
proof -
  obtain s1 where s1: "send_all (as_bytes PROBE_PING) s = (Inr (), s1)" "healthy s1" "sent s1 = sent s @ as_bytes PROBE_PING"
    using assms(4) by (rule send_all_healthy)
  obtain s2 where s2: "send_ctl s1 = (Inr (), s2)" "sent s2 = sent s1" using s1(2) by (rule send_ctl_healthy)
  have "pn_answer net (sent s2) = reader_of (as_bytes PROBE_PONG)"
    using probe_respond_ping [of "reader_of (as_bytes PROBE_PING)" t] assms(5,7,8,9) s1(3) s2(2) by simp
  then have "fst (read_to_end (length PROBE_PONG) (pn_answer net (sent s2))) = Inr (as_bytes PROBE_PONG)"
    by (simp add: read_to_end_def)
  then obtain r where "read_to_end (length PROBE_PONG) (pn_answer net (sent s2)) = (Inr (as_bytes PROBE_PONG), r)"
    by (metis prod.collapse)
  with assms(1-3,6) s1(1) s2(1) show ?thesis
    by (simp only: probe_def Let_def sum.case if_False probe_exchange_def with_context_simps prod.case) simp
qed

theorem probe_answered_witness:
  "probe Inr \<lparr>pn_bind = (\<lambda>_. Inr ()), pn_connect = (\<lambda>_ _ _. Inr [(True, TransportIp (SocketV4 2130706433 9))]),
      pn_open = Inr fresh_sink, pn_answer = (\<lambda>b. reader_of (sent (probe_respond (reader_of b) fresh_sink))),
      pn_late = False\<rparr> (7 :: nat) Direct [] Disabled ''20s'' = Inr DirectLocal"
proof -
  let ?net = "\<lparr>pn_bind = (\<lambda>_. Inr ()), pn_connect = (\<lambda>_ _ _. Inr [(True, TransportIp (SocketV4 2130706433 9))]),
      pn_open = Inr fresh_sink, pn_answer = (\<lambda>b. reader_of (sent (probe_respond (reader_of b) fresh_sink))),
      pn_late = False\<rparr> :: ('a, nat) probe_net"
  obtain ep where ep: "bind Inr (pn_bind ?net) None Disabled LookupNone None = Inr ep" by (auto simp: bind_def)
  have "probe Inr ?net 7 Direct [] Disabled ''20s''
      = Inr (fst (session_path_report [(True, TransportIp (SocketV4 2130706433 9))]))"
    by (rule probe_answered [where s = fresh_sink and t = fresh_sink and ep = ep]) (use ep in simp_all)
  then show ?thesis by (simp add: session_path_report_def session_path_def classify_ip_def octet4_def)
qed

end
