(* ===== verification/Commands.thy ===== *)
theory Commands
  imports Duplex Exec_Output State_Dir Pipe
begin

text \<open>
  \<open>src/controller.rs\<close>, the command side: the short-lived processes that reach \<open>serve\<close>
  through the unix socket of the state directory.

  Connecting to a unix socket is an argument, \<open>dial\<close>: the two halves of the stream, or an
  error.  A command's state is a \<open>duplex\<close>, whose stream halves are those of the last
  connection.  What a command prints on its standard output is the list of lines it returns.
\<close>

section \<open>Reaching an agent\<close>

type_synonym dial = "path \<Rightarrow> (reader \<times> sink) result"

definition idle :: "world \<Rightarrow> duplex" where
  "idle w = \<lparr>dx_recv = reader_of [], dx_send = fresh_sink, dx_world = w, dx_tcp = None\<rparr>"

text \<open>The result is the line printed on standard error.\<close>

definition route :: "postcard \<Rightarrow> dial \<Rightarrow> StateDir \<Rightarrow> string \<Rightarrow> (duplex, string) io" where
  "route pc dial st agent s =
     (case dial (sock_path st) of
        Inl e \<Rightarrow>
          (Inl (Context (fmt [''connecting to '', show_path (sock_path st), '' '', em_dash,
             '' is `egdod controller serve` running?'']) e), s)
      | Inr (r, w) \<Rightarrow>
          io_bind (via_send (write_msg (enc_route pc) (Route agent))) (\<lambda>_.
          io_bind (via_recv (read_msg (dec_reply pc))) (\<lambda>reply.
          case reply of
            RouteErr e \<Rightarrow> io_lift (Inl (Msg e))
          | RouteOk agent' p remote \<Rightarrow>
              io_ok (fmt [''egdod: session with '', agent', '' via '', show_PathKind p, '' ('', remote, '')''])))
          (s\<lparr>dx_recv := r, dx_send := w\<rparr>))"

section \<open>Running a command\<close>

definition via_output :: "(reader \<times> exec_sinks, 'a) io \<Rightarrow> (duplex \<times> exec_sinks, 'a) io" where
  "via_output m st =
     (case m (dx_recv (fst st), snd st) of (x, (r, o')) \<Rightarrow> (x, ((fst st)\<lparr>dx_recv := r\<rparr>, o')))"

definition exec_into ::
  "postcard \<Rightarrow> dial \<Rightarrow> StateDir \<Rightarrow> string \<Rightarrow> string list \<Rightarrow> u64 \<Rightarrow> (duplex \<times> exec_sinks, u32) io" where
  "exec_into pc dial st agent argv lim =
     io_bind (on_fst (route pc dial st agent)) (\<lambda>_.
     io_bind (on_fst (via_send (write_msg (enc_request pc) (Exec argv)))) (\<lambda>_.
     io_bind (on_fst (via_send finish)) (\<lambda>_.
     via_output (recv_exec_output (dec_frame pc) lim))))"

definition exec ::
  "postcard \<Rightarrow> dial \<Rightarrow> StateDir \<Rightarrow> string \<Rightarrow> string list \<Rightarrow> (duplex \<times> exec_sinks, u32) io" where
  "exec pc dial st agent argv = exec_into pc dial st agent argv (- 1)"

text \<open>The two vectors of a capture are sinks that never fail.\<close>

definition exec_capture ::
  "postcard \<Rightarrow> dial \<Rightarrow> StateDir \<Rightarrow> string \<Rightarrow> string list \<Rightarrow> u64 \<Rightarrow> (duplex, u32 \<times> bytes \<times> bytes) io" where
  "exec_capture pc dial st agent argv lim s =
     (case exec_into pc dial st agent argv lim (s, \<lparr>out = fresh_sink, err = fresh_sink, warned = False\<rparr>) of
        (Inl e, (s', t)) \<Rightarrow> (Inl e, s')
      | (Inr code, (s', t)) \<Rightarrow> (Inr (code, sent (out t), sent (err t)), s'))"

section \<open>Copying files\<close>

definition push_file ::
  "postcard \<Rightarrow> (bytes \<Rightarrow> bytes) \<Rightarrow> dial \<Rightarrow> StateDir \<Rightarrow> string \<Rightarrow> path \<Rightarrow> string \<Rightarrow> (duplex, u64 \<times> bytes) io" where
  "push_file pc sha dial st agent local remote =
     io_bind (via_world (stat_and_hash sha local)) (\<lambda>(mode, len, sha256).
     io_bind (route pc dial st agent) (\<lambda>_.
     io_bind (via_send (write_msg (enc_request pc) (Push remote mode len sha256))) (\<lambda>_.
     io_bind (via_send_world (send_file_body local)) (\<lambda>_.
     io_bind (via_send finish) (\<lambda>_.
     io_bind (via_recv (read_msg (dec_ack pc))) (\<lambda>ack.
     case ack of
       AckOk \<Rightarrow> io_ok (len, sha256)
     | AckErr e \<Rightarrow> io_lift (Inl (Msg (fmt [''agent rejected the file: '', e])))))))))"

definition push ::
  "postcard \<Rightarrow> (bytes \<Rightarrow> bytes) \<Rightarrow> dial \<Rightarrow> StateDir \<Rightarrow> string \<Rightarrow> path \<Rightarrow> string \<Rightarrow> (duplex, string list) io" where
  "push pc sha dial st agent local remote =
     io_bind (push_file pc sha dial st agent local remote) (\<lambda>(len, sha256).
     io_ok [fmt [''pushed '', show_path local, '' -> '', remote, '' ('', dec (unat len), '' bytes, sha256 '',
       hex sha256, '')'']])"

datatype Pulled = Fetched u64 bytes | Missing

definition DEFAULT_MAX_BYTES :: u64 where "DEFAULT_MAX_BYTES = push_bit 20 256"

definition pull_file ::
  "postcard \<Rightarrow> (bytes \<Rightarrow> bytes) \<Rightarrow> dial \<Rightarrow> StateDir \<Rightarrow> string \<Rightarrow> string \<Rightarrow> path \<Rightarrow> u64 \<Rightarrow> (duplex, Pulled) io" where
  "pull_file pc sha dial st agent remote local lim =
     io_bind (route pc dial st agent) (\<lambda>_.
     io_bind (via_send (write_msg (enc_request pc) (Pull remote))) (\<lambda>_.
     io_bind (via_send finish) (\<lambda>_.
     io_bind (via_recv (read_msg (dec_pull pc))) (\<lambda>start.
     case start of
       PullMissing \<Rightarrow> io_ok Missing
     | PullErr e \<Rightarrow> io_lift (Inl (Msg (fmt [''agent could not read '', remote, '': '', e])))
     | PullOk mode len sha256 \<Rightarrow>
         io_bind (via_recv_world (recv_file_body sha local len sha256 mode lim)) (\<lambda>_.
         io_ok (Fetched len sha256))))))"

definition pull ::
  "postcard \<Rightarrow> (bytes \<Rightarrow> bytes) \<Rightarrow> dial \<Rightarrow> StateDir \<Rightarrow> string \<Rightarrow> string \<Rightarrow> path \<Rightarrow> u64
    \<Rightarrow> (duplex, string list) io" where
  "pull pc sha dial st agent remote local lim =
     io_bind (pull_file pc sha dial st agent remote local lim) (\<lambda>p.
     case p of
       Missing \<Rightarrow> io_lift (Inl (Msg (fmt [''the target has no '', remote])))
     | Fetched len sha256 \<Rightarrow>
         io_ok [fmt [''pulled '', remote, '' -> '', show_path local, '' ('', dec (unat len), '' bytes, sha256 '',
           hex sha256, '')'']])"

section \<open>Forwarding a port\<close>

definition forward_one ::
  "postcard \<Rightarrow> dial \<Rightarrow> StateDir \<Rightarrow> string \<Rightarrow> string \<Rightarrow> reader \<times> sink \<Rightarrow> (duplex, unit) io" where
  "forward_one pc dial st agent remote tcp =
     io_bind (route pc dial st agent) (\<lambda>_.
     io_bind (via_send (write_msg (enc_request pc) (Forward remote))) (\<lambda>_.
     io_bind (via_recv (read_msg (dec_ack pc))) (\<lambda>ack.
     case ack of
       AckErr e \<Rightarrow> io_lift (Inl (Msg (fmt [''agent could not connect to '', remote, '': '', e])))
     | AckOk \<Rightarrow>
         (\<lambda>s. case splice_streams (fst tcp) (snd tcp) (dx_recv s) (dx_send s) of
            ((tcp_r, tcp_w), (recv, send)) \<Rightarrow>
              (Inr (), s\<lparr>dx_recv := recv, dx_send := send, dx_tcp := Some (tcp_r, tcp_w)\<rparr>)))))"

text \<open>
  The accept loop of the listener: each accepted connection becomes a task of its own, whose
  error is only logged; a failed accept costs 200 milliseconds and is retried.  The result is
  what each task came to, and the time spent waiting.
\<close>

fun forward_accepts ::
  "(nat \<Rightarrow> reader \<times> sink \<Rightarrow> 'r) \<Rightarrow> nat \<Rightarrow> (string + reader \<times> sink) list \<Rightarrow> 'r list \<times> nat" where
  "forward_accepts task i [] = ([], 0)"
| "forward_accepts task i (Inl e # as) =
     (case forward_accepts task i as of (rs, ms) \<Rightarrow> (rs, 200 + ms))"
| "forward_accepts task i (Inr tcp # as) =
     (case forward_accepts task (Suc i) as of (rs, ms) \<Rightarrow> (task i tcp # rs, ms))"

record listener =
  ls_local_addr :: "SocketAddr result"
  ls_accepts :: "(string + reader \<times> sink) list"

definition forward_listener ::
  "postcard \<Rightarrow> (nat \<Rightarrow> dial) \<Rightarrow> (SocketAddr \<Rightarrow> listener result) \<Rightarrow> StateDir \<Rightarrow> string \<Rightarrow> SocketAddr \<Rightarrow> string
    \<Rightarrow> world \<Rightarrow> (SocketAddr \<times> (unit result \<times> duplex) list \<times> nat) result" where
  "forward_listener pc dials tcp_bind st agent local remote w =
     (case with_context (fmt [''binding '', show_SocketAddr local]) (tcp_bind local) of
        Inl e \<Rightarrow> Inl e
      | Inr l \<Rightarrow>
          (case ls_local_addr l of
             Inl e \<Rightarrow> Inl e
           | Inr bound \<Rightarrow>
               Inr (bound, forward_accepts
                 (\<lambda>i tcp. forward_one pc (dials i) st agent remote tcp (idle w)) 0 (ls_accepts l))))"

text \<open>\<open>([127, 0, 0, 1], local_port).into()\<close>.\<close>

definition forward_addr :: "u16 \<Rightarrow> SocketAddr" where
  "forward_addr port = SocketV4 2130706433 port"

definition forward ::
  "postcard \<Rightarrow> (nat \<Rightarrow> dial) \<Rightarrow> (SocketAddr \<Rightarrow> listener result) \<Rightarrow> StateDir \<Rightarrow> string \<Rightarrow> u16 \<Rightarrow> string
    \<Rightarrow> world \<Rightarrow> (string list \<times> (unit result \<times> duplex) list) result" where
  "forward pc dials tcp_bind st agent port remote w =
     (case forward_listener pc dials tcp_bind st agent (forward_addr port) remote w of
        Inl e \<Rightarrow> Inl e
      | Inr (bound, served, _) \<Rightarrow>
          Inr ([fmt [''forwarding '', show_SocketAddr bound, '' -> '', remote, '' on the target (ctrl-c to stop)'']],
               served))"

section \<open>The state directory's commands\<close>

text \<open>\<open>public\<close> is \<open>SecretKey::public\<close>.  The lines on standard error are not part of the result.\<close>

definition init_cmd :: "'k codec \<Rightarrow> (bytes \<Rightarrow> 'sk) \<Rightarrow> ('sk \<Rightarrow> 'k) \<Rightarrow> StateDir \<Rightarrow> (world, string list) io" where
  "init_cmd c from_bytes public st =
     io_bind (init_key from_bytes st) (\<lambda>secret. io_ok [show_key c (public secret)])"

definition pending_line :: "PendingAgent \<Rightarrow> string" where
  "pending_line p = fmt [pubkey p, ''  attempts='', dec (unat (attempts p)),
     '' first_seen='', dec (unat (first_seen_unix p)), '' last_seen='', dec (unat (last_seen_unix p))]"

definition pending_cmd :: "'k codec \<Rightarrow> StateDir \<Rightarrow> bool \<Rightarrow> (world, string list) io" where
  "pending_cmd c st json =
     io_bind (pending c st) (\<lambda>l.
     if json then io_bind (io_lift (pending_to_json c l)) (\<lambda>b. io_ok [of_bytes b])
     else io_ok ((if l = [] then [''no agents pending approval''] else []) @ map pending_line l))"

definition approve_cmd :: "'k codec \<Rightarrow> StateDir \<Rightarrow> string \<Rightarrow> (world, string list) io" where
  "approve_cmd c st key =
     io_bind (io_lift (parse_pubkey (parse_key c) key)) (\<lambda>k.
     io_bind (approve c st k) (\<lambda>fresh.
     io_ok [if fresh then fmt [''approved '', show_key c k]
            else fmt [show_key c k, '' was already approved'']]))"

definition EXIT_UNDIALABLE :: u32 where "EXIT_UNDIALABLE = 2"

fun show_ProbeMode :: "ProbeMode \<Rightarrow> string" where
  "show_ProbeMode Discovery = ''Discovery''"
| "show_ProbeMode Direct = ''Direct''"

definition status_head :: "Status \<Rightarrow> string list" where
  "status_head s =
     [fmt [''node id:   '', node_id s],
      fmt [''dialable:  '',
        (case dialable s of
           Some True \<Rightarrow> ''yes''
         | Some False \<Rightarrow>
             fmt [''NO '', em_dash, '' '', (case last_probe_error s of Some e \<Rightarrow> e | None \<Rightarrow> ''unknown'')]
         | None \<Rightarrow> ''not probed yet'')],
      fmt [''probe:     '', show_ProbeMode (probe_mode s), '' mode, last ok '',
        (case last_probe_ok_unix s of Some t \<Rightarrow> dec (unat t) | None \<Rightarrow> ''never'')],
      fmt [''restarts:  '', dec (unat (endpoint_restarts s))]]"

definition status_sessions :: "Status \<Rightarrow> string list" where
  "status_sessions s =
     map (\<lambda>x. fmt [''agent:     '', si_agent x, '' via '', show_PathKind (si_path x), '' ('', si_remote x, '')''])
       (sessions s)
     @ (if sessions s = [] then [''agent:     none connected''] else [])"

definition status_cmd :: "'k codec \<Rightarrow> StateDir \<Rightarrow> bool \<Rightarrow> (world, u32 \<times> string list) io" where
  "status_cmd c st json =
     io_bind (read_status c st) (\<lambda>s.
     io_bind (if dialable s = Some True then writer_alive s else io_ok False) (\<lambda>good.
     let code = (if good then 0 else EXIT_UNDIALABLE) in
     if json then io_bind (io_lift (status_to_json c s)) (\<lambda>b. io_ok (code, [of_bytes b]))
     else
       io_bind (writer_alive s) (\<lambda>alive.
       io_ok (code, status_head s
         @ (if alive then []
            else [fmt [''WARNING:   the controller that wrote this (pid '', dec (unat (st_pid s)),
              '') is gone; everything above is its last opinion, not the current one'']])
         @ status_sessions s))))"

end
