(* ===== verification/Civil_Date.thy ===== *)
theory Civil_Date
  imports Prelude
begin

text \<open>
  The date arithmetic of \<open>src/ssh.rs\<close> and the stamp in which a key's expiry is written, against
  the Gregorian calendar as a rule for the next day.  Every number here is far inside \<open>i64\<close>, so
  they are integers.
\<close>

section \<open>The date of a day\<close>

text \<open>All divisions but the first two are of numbers that are not negative.\<close>

definition civil_from_days :: "int \<Rightarrow> int \<times> int \<times> int" where
  "civil_from_days day =
     (let z = day + 719468;
          era = z div 146097;
          doe = z mod 146097;
          yoe = (doe - doe div 1460 + doe div 36524 - doe div 146096) div 365;
          doy = doe - (365 * yoe + yoe div 4 - yoe div 100);
          mp = (5 * doy + 2) div 153;
          d = doy - (153 * mp + 2) div 5 + 1;
          m = (if mp < 10 then mp + 3 else mp - 9)
      in (yoe + era * 400 + (if m \<le> 2 then 1 else 0), m, d))"

section \<open>The calendar\<close>

definition leap :: "int \<Rightarrow> bool" where
  "leap y \<longleftrightarrow> y mod 4 = 0 \<and> y mod 100 \<noteq> 0 \<or> y mod 400 = 0"

definition month_len :: "bool \<Rightarrow> int \<Rightarrow> int" where
  "month_len lp m = (if m = 2 then (if lp then 29 else 28) else if m \<in> {4, 6, 9, 11} then 30 else 31)"

fun next_day :: "int \<times> int \<times> int \<Rightarrow> int \<times> int \<times> int" where
  "next_day (y, m, d) =
     (if d < month_len (leap y) m then (y, m, d + 1)
      else if m < 12 then (y, m + 1, 1)
      else (y + 1, 1, 1))"

text \<open>The calendar date \<open>n\<close> days after 1 January 1970.\<close>

definition date_after :: "nat \<Rightarrow> int \<times> int \<times> int" where
  "date_after n = (next_day ^^ n) (1970, 1, 1)"

section \<open>A year that begins in March\<close>

definition doy_month :: "int \<Rightarrow> int" where
  "doy_month doy = (let mp = (5 * doy + 2) div 153 in if mp < 10 then mp + 3 else mp - 9)"

definition doy_day :: "int \<Rightarrow> int" where
  "doy_day doy = doy - (153 * ((5 * doy + 2) div 153) + 2) div 5 + 1"

definition march_date :: "int \<Rightarrow> int \<Rightarrow> int \<times> int \<times> int" where
  "march_date y doy = (y + (if doy_month doy \<le> 2 then 1 else 0), doy_month doy, doy_day doy)"

definition march_len :: "int \<Rightarrow> int" where
  "march_len y = (if leap (y + 1) then 366 else 365)"

definition march_start :: "int \<Rightarrow> int" where
  "march_start y = 365 * y + y div 4 - y div 100"

text \<open>Every day but the last of a year is followed by the next day of its month, or by the first
  of the next one.\<close>

definition follows :: "int \<Rightarrow> bool" where
  "follows doy \<longleftrightarrow>
     (if doy_day doy < month_len False (doy_month doy)
      then doy_month (doy + 1) = doy_month doy \<and> doy_day (doy + 1) = doy_day doy + 1
      else doy_month doy \<noteq> 2 \<and> doy_day (doy + 1) = 1 \<and>
        (if doy_month doy < 12 then doy_month (doy + 1) = doy_month doy + 1
         else doy_month doy = 12 \<and> doy_month (doy + 1) = 1))"

lemma follows_all: "list_all follows [0..363]"
  by code_simp

lemma follows_day: "0 \<le> doy \<Longrightarrow> doy < 364 \<Longrightarrow> follows doy"
  using follows_all by (auto simp: list_all_iff)

lemma last_days:
  "doy_month 364 = 2" "doy_day 364 = 28" "doy_month 365 = 2" "doy_day 365 = 29" "doy_month 0 = 3" "doy_day 0 = 1"
  by code_simp+

lemma month_len_leap: "month_len False m \<le> month_len lp m" "m \<noteq> 2 \<Longrightarrow> month_len lp m = month_len False m"
  by (simp_all add: month_len_def)

lemma march_date_within:
  assumes "0 \<le> doy" and "doy + 1 < march_len y"
  shows "next_day (march_date y doy) = march_date y (doy + 1)"
proof (cases "doy = 364")
  case True
  with assms show ?thesis by (simp add: march_date_def march_len_def last_days month_len_def split: if_splits)
next
  case False
  with assms have f: "follows doy" by (intro follows_day) (auto simp: march_len_def split: if_splits)
  show ?thesis
  proof (cases "doy_day doy < month_len False (doy_month doy)")
    case True
    with f month_len_leap(1) [of "doy_month doy" "leap (fst (march_date y doy))"] show ?thesis
      by (simp add: march_date_def follows_def)
  next
    case False
    with f month_len_leap(2) [of "doy_month doy" "leap (fst (march_date y doy))"] show ?thesis
      by (simp add: march_date_def follows_def split: if_splits)
  qed
qed

lemma march_date_last: "next_day (march_date y (march_len y - 1)) = march_date (y + 1) 0"
  by (simp add: march_date_def march_len_def last_days month_len_def)

section \<open>The year of a day of the era\<close>

definition yoe_of :: "int \<Rightarrow> int" where
  "yoe_of doe = (doe - doe div 1460 + doe div 36524 - doe div 146096) div 365"

lemma yoe_of_parts:
  assumes "0 \<le> c" "c \<le> 3" "0 \<le> q" "q \<le> 24" "0 \<le> r" "r \<le> 3" "0 \<le> d"
    and d: "d < 365 \<or> (d = 365 \<and> r = 3 \<and> (q < 24 \<or> c = 3))"
  shows "yoe_of (36524 * c + 1461 * q + 365 * r + d) = 100 * c + 4 * q + r"
proof -
  let ?doe = "36524 * c + 1461 * q + 365 * r + d"
  let ?corner = "c = 3 \<and> q = 24 \<and> r = 3 \<and> d = 365"
  let ?x = "24 * c + q + 365 * r + d"
  have 1: "?doe div 1460 = 25 * c + q + (if 1460 \<le> ?x then 1 else 0)"
    using assms by (intro int_div_pos_eq [where r = "?x - (if 1460 \<le> ?x then 1460 else 0)"]) auto
  have 2: "?doe div 36524 - ?doe div 146096 = c"
  proof (cases ?corner)
    case False
    have "?doe div 36524 = c"
      using assms False by (intro int_div_pos_eq [where r = "1461 * q + 365 * r + d"]) auto
    moreover have "?doe div 146096 = 0"
      using assms False by (intro div_pos_pos_trivial) auto
    ultimately show ?thesis by simp
  qed simp
  have 3: "?doe - ?doe div 1460 + ?doe div 36524 - ?doe div 146096
      = 365 * (100 * c + 4 * q + r) + (d - (if 1460 \<le> ?x then 1 else 0))"
    using 1 2 by simp
  show ?thesis
    unfolding yoe_of_def 3 using assms by (intro int_div_pos_eq [OF refl]) auto
qed

text \<open>A year of the era in centuries, leap cycles and years.\<close>

lemma year_parts:
  assumes "0 \<le> k" "k < (400 :: int)"
  obtains c q r where "k = 100 * c + 4 * q + r" "0 \<le> c" "c \<le> 3" "0 \<le> q" "q \<le> 24" "0 \<le> r" "r \<le> 3"
proof
  show "k = 100 * (k div 100) + 4 * (k mod 100 div 4) + k mod 100 mod 4" by simp
qed (use assms in auto)

lemma march_start_parts:
  assumes "k = 100 * c + 4 * q + r" "0 \<le> c" "0 \<le> q" "q \<le> 24" "0 \<le> r" "r \<le> 3"
  shows "march_start k = 36524 * c + 1461 * q + 365 * r"
proof -
  have "k div 4 = 25 * c + q" using assms by (intro int_div_pos_eq [of _ _ _ r]) auto
  moreover have "k div 100 = c" using assms by (intro int_div_pos_eq [of _ _ _ "4 * q + r"]) auto
  ultimately show ?thesis using assms(1) by (simp add: march_start_def)
qed

lemma mod_zero_iff:
  assumes "n = b * a + x" "0 < x" "x \<le> (b :: int)"
  shows "n mod b = 0 \<longleftrightarrow> x = b"
proof (cases "x = b")
  case False
  with assms have "n mod b = x" by (simp add: mod_pos_pos_trivial)
  with assms False show ?thesis by simp
qed (simp add: assms(1))

lemma march_len_parts:
  assumes "y mod 400 = 100 * c + 4 * q + r" "0 \<le> c" "c \<le> 3" "0 \<le> q" "q \<le> 24" "0 \<le> r" "r \<le> 3"
  shows "march_len y = (if r = 3 \<and> (q < 24 \<or> c = 3) then 366 else 365)"
proof -
  have y: "y + 1 = 400 * (y div 400) + 100 * c + 4 * q + (r + 1)" using assms(1) mult_div_mod_eq [of 400 y] by linarith
  have "(y + 1) mod 4 = 0 \<longleftrightarrow> r + 1 = 4"
    using y assms by (intro mod_zero_iff [of _ _ "100 * (y div 400) + 25 * c + q"]) auto
  moreover have "(y + 1) mod 100 = 0 \<longleftrightarrow> 4 * q + r + 1 = 100"
    using y assms by (intro mod_zero_iff [of _ _ "4 * (y div 400) + c"]) auto
  moreover have "(y + 1) mod 400 = 0 \<longleftrightarrow> 100 * c + 4 * q + r + 1 = 400"
    using y assms by (intro mod_zero_iff [of _ _ "y div 400"]) auto
  ultimately show ?thesis using assms by (auto simp: march_len_def leap_def)
qed

text \<open>The day on which a day of a March year falls.\<close>

definition march_day :: "int \<Rightarrow> int \<Rightarrow> int" where
  "march_day y doy = 146097 * (y div 400) + march_start (y mod 400) + doy - 719468"

lemma civil_from_days_alt:
  "civil_from_days day =
     march_date (yoe_of ((day + 719468) mod 146097) + (day + 719468) div 146097 * 400)
       ((day + 719468) mod 146097 - march_start (yoe_of ((day + 719468) mod 146097)))"
  by (simp only: civil_from_days_def yoe_of_def march_start_def march_date_def doy_month_def doy_day_def Let_def)

lemma civil_march:
  assumes "0 \<le> doy" "doy < march_len y"
  shows "civil_from_days (march_day y doy) = march_date y doy"
proof -
  obtain c q r where p: "y mod 400 = 100 * c + 4 * q + r" "0 \<le> c" "c \<le> 3" "0 \<le> q" "q \<le> 24" "0 \<le> r" "r \<le> 3"
    by (rule year_parts [of "y mod 400"]) auto
  note st = march_start_parts [OF p(1,2,4,5,6,7)] and len = march_len_parts [OF p]
  let ?z = "march_day y doy + 719468" and ?doe = "march_start (y mod 400) + doy"
  have doe: "0 \<le> ?doe" "?doe < 146097" using assms p st len by (auto split: if_splits)
  have z: "?z = 146097 * (y div 400) + ?doe" by (simp add: march_day_def)
  have era: "?z div 146097 = y div 400" using z doe by (intro int_div_pos_eq) auto
  then have m: "?z mod 146097 = ?doe" using z by (simp add: minus_div_mult_eq_mod [symmetric])
  have "yoe_of (36524 * c + 1461 * q + 365 * r + doy) = 100 * c + 4 * q + r"
    using p assms len by (intro yoe_of_parts) (auto split: if_splits)
  then have "yoe_of ?doe = y mod 400" using st p(1) by simp
  then have "civil_from_days (march_day y doy) = march_date (y mod 400 + y div 400 * 400) doy"
    unfolding civil_from_days_alt era m by simp
  then show ?thesis by simp
qed

lemma march_start_next:
  assumes "0 \<le> y mod 400" "y mod 400 < 399"
  shows "march_start (y mod 400 + 1) = march_start (y mod 400) + march_len y"
proof -
  obtain c q r where p: "y mod 400 = 100 * c + 4 * q + r" "0 \<le> c" "c \<le> 3" "0 \<le> q" "q \<le> 24" "0 \<le> r" "r \<le> 3"
    by (rule year_parts [of "y mod 400"]) auto
  note now = march_start_parts [OF p(1,2,4,5,6,7)] march_len_parts [OF p]
  consider "r < 3" | "r = 3" "q < 24" | "r = 3" "q = 24" using p by linarith
  then show ?thesis
  proof cases
    case 1
    then have "march_start (y mod 400 + 1) = 36524 * c + 1461 * q + 365 * (r + 1)"
      using p by (intro march_start_parts) auto
    with 1 now show ?thesis by simp
  next
    case 2
    then have "march_start (y mod 400 + 1) = 36524 * c + 1461 * (q + 1) + 365 * 0"
      using p by (intro march_start_parts) auto
    with 2 now show ?thesis by simp
  next
    case 3
    then have "march_start (y mod 400 + 1) = 36524 * (c + 1) + 1461 * 0 + 365 * 0"
      using p by (intro march_start_parts) auto
    with 3 now assms p show ?thesis by simp
  qed
qed

lemma march_day_last: "march_day y (march_len y - 1) + 1 = march_day (y + 1) 0"
proof (cases "y mod 400 = 399")
  case True
  then have y: "y + 1 = 400 * (y div 400 + 1) + 0" using mult_div_mod_eq [of 400 y] by (simp add: algebra_simps)
  have "(y + 1) div 400 = y div 400 + 1" "(y + 1) mod 400 = 0"
    using y by (rule int_div_pos_eq, simp, simp) (rule int_mod_pos_eq [OF y], simp, simp)
  moreover from True have "march_len y = 366" using march_len_parts [of y 3 24 3] by simp
  ultimately show ?thesis using True by (simp add: march_day_def march_start_def)
next
  case False
  then have k: "0 \<le> y mod 400 + 1" "y mod 400 + 1 < 400" using pos_mod_bound [of 400 y] pos_mod_sign [of 400 y] by linarith+
  have y: "y + 1 = 400 * (y div 400) + (y mod 400 + 1)" using mult_div_mod_eq [of 400 y] by linarith
  have "march_start (y mod 400 + 1) = march_start (y mod 400) + march_len y"
    using k by (intro march_start_next) auto
  then show ?thesis
    unfolding march_day_def int_div_pos_eq [OF y k] int_mod_pos_eq [OF y k] by simp
qed

lemma march_len_pos: "0 < march_len y"
  by (simp add: march_len_def)

lemma march_day_Suc:
  assumes "0 \<le> doy" "doy < march_len y"
  obtains y' doy' where "march_day y doy + 1 = march_day y' doy'" "0 \<le> doy'" "doy' < march_len y'"
    "march_date y' doy' = next_day (march_date y doy)"
proof (cases "doy + 1 < march_len y")
  case True
  with assms that [of y "doy + 1"] march_date_within [of doy y] show ?thesis by (simp add: march_day_def)
next
  case False
  with assms have "doy = march_len y - 1" by simp
  with that [of "y + 1" 0] march_day_last march_date_last march_len_pos show ?thesis by simp
qed

lemma civil_date: "civil_from_days (int n) = date_after n"
proof -
  have "\<exists>y doy. int n = march_day y doy \<and> 0 \<le> doy \<and> doy < march_len y \<and> march_date y doy = date_after n"
  proof (induction n)
    case 0
    have "int 0 = march_day 1969 306 \<and> (306 :: int) < march_len 1969 \<and> march_date 1969 306 = date_after 0" by code_simp
    then show ?case by force
  next
    case (Suc n)
    then obtain y doy where d: "int n = march_day y doy" "0 \<le> doy" "doy < march_len y" "march_date y doy = date_after n"
      by blast
    obtain y' doy' where "march_day y doy + 1 = march_day y' doy'" "0 \<le> doy'" "doy' < march_len y'"
        "march_date y' doy' = next_day (march_date y doy)"
      using d(2,3) by (rule march_day_Suc)
    with d show ?case by (intro exI [of _ y'] exI [of _ doy']) (simp add: date_after_def)
  qed
  then show ?thesis using civil_march by metis
qed

text \<open>C31. The date arithmetic agrees with the calendar: the date of day \<open>n\<close> is the date reached from
  1 January 1970 by taking the next day \<open>n\<close> times, month lengths, leap years and centuries included.\<close>

theorem civil_from_days_calendar: "civil_from_days (int n) = date_after n"
  by (rule civil_date)

section \<open>The stamp\<close>

text \<open>A time is in seconds since the epoch; one before it is the epoch.\<close>

definition utc_yyyymmddhhmm :: "int \<Rightarrow> string" where
  "utc_yyyymmddhhmm t =
     (let secs = max 0 t;
          days = secs div 86400; rem = secs mod 86400;
          hh = rem div 3600; mm = rem mod 3600 div 60
      in case civil_from_days days of (y, m, d) \<Rightarrow>
           fmt [dec_pad 4 (nat y), dec_pad 2 (nat m), dec_pad 2 (nat d), dec_pad 2 (nat hh), dec_pad 2 (nat mm), ''Z''])"

text \<open>Reading a decimal number.\<close>

definition num_of :: "string \<Rightarrow> nat" where
  "num_of s = foldl (\<lambda>n c. 10 * n + (of_char c - 48)) 0 s"

lemma num_of_snoc: "num_of (s @ [c]) = 10 * num_of s + (of_char c - 48)"
  by (simp add: num_of_def)

lemma of_digit_char: "d < 10 \<Longrightarrow> of_char (digit_char d) - 48 = (d :: nat)"
  by (simp add: digit_char_def)

lemma num_of_dec: "num_of (dec n) = n"
proof (induction n rule: dec.induct)
  case (1 n)
  show ?case
  proof (cases "n < 10")
    case True
    then show ?thesis by (subst dec.simps) (simp add: num_of_def of_digit_char)
  next
    case False
    with 1 show ?thesis by (subst dec.simps) (simp add: num_of_snoc of_digit_char)
  qed
qed

lemma num_of_pad: "num_of (dec_pad w n) = n"
proof -
  have "num_of (replicate k (CHR ''0'') @ s) = num_of s" for k s
    by (induction k) (simp_all add: num_of_def)
  then show ?thesis by (simp add: dec_pad_def num_of_dec)
qed

lemma length_dec_pad: "0 < k \<Longrightarrow> n < 10 ^ k \<Longrightarrow> length (dec_pad k n) = k"
  using length_dec [of k n] by (simp add: dec_pad_def)

lemma month_len_le: "month_len lp m \<le> 31"
  by (simp add: month_len_def)

lemma date_after_range:
  assumes "date_after n = (y, m, d)"
  shows "1 \<le> m \<and> m \<le> 12 \<and> 1 \<le> d \<and> d \<le> 31 \<and> 1970 \<le> y"
  using assms
proof (induction n arbitrary: y m d)
  case (Suc n)
  obtain y' m' d' where *: "date_after n = (y', m', d')" by (metis prod.exhaust)
  with Suc.prems have "(y, m, d) = next_day (y', m', d')" by (simp add: date_after_def)
  with Suc.IH [OF *] month_len_le [of "leap y'" m'] show ?case by (auto split: if_splits)
qed (simp add: date_after_def)

lemma date_after_mono: "fst (date_after n) \<le> fst (date_after (n + k))"
proof (induction k)
  case (Suc k)
  have "fst x \<le> fst (next_day x)" for x by (cases x rule: next_day.cases) auto
  with Suc show ?case by (simp add: date_after_def) (meson order_trans)
qed simp

lemma last_date: "civil_from_days 2932896 = (9999, 12, 31)"
  by code_simp

lemma date_after_year: "n < 2932897 \<Longrightarrow> fst (date_after n) \<le> 9999"
proof -
  assume "n < 2932897"
  then have "fst (date_after n) \<le> fst (date_after 2932896)"
    using date_after_mono [of n "2932896 - n"] by simp
  also have "fst (date_after 2932896) = 9999"
    using last_date civil_date [of 2932896] by (metis fst_conv of_nat_numeral)
  finally show ?thesis .
qed

text \<open>The stamp on an installed key denotes the minute in which the key expires, never a later
  one: read as the year, month, day, hour and minute of UTC, its date is the calendar date of some
  day \<open>n\<close>, and its time of that day is the expiry time without the seconds.  It is always twelve
  digits and a Z, up to the end of the year 9999.\<close>

theorem stamp_denotes:
  assumes "0 \<le> t" and "t < 253402300800" and "s = utc_yyyymmddhhmm t"
  shows "length s = 13 \<and> last s = CHR ''Z'' \<and>
    (\<exists>n. date_after n = (int (num_of (take 4 s)), int (num_of (take 2 (drop 4 s))), int (num_of (take 2 (drop 6 s))))
      \<and> t - t mod 60 = 86400 * int n + 3600 * int (num_of (take 2 (drop 8 s))) + 60 * int (num_of (take 2 (drop 10 s))))"
proof -
  define n r where "n = nat (t div 86400)" and "r = nat (t mod 86400)"
  have n: "int n = t div 86400" and ri: "int r = t mod 86400" using assms(1) by (simp_all add: n_def r_def)
  obtain y m d where date: "date_after n = (y, m, d)" by (metis prod.exhaust)
  have "int n < 2932897" unfolding n using zdiv_mono1 [of t 253402300799 86400] assms(2) by simp
  then have "n < 2932897" by simp
  then have y: "y \<le> 9999" using date_after_year [of n] date by simp
  note rg = date_after_range [OF date]
  have r: "r < 86400" using ri by (simp add: r_def)
  have hm: "r div 3600 < 100" "r mod 3600 div 60 < 100" using r by (simp_all add: less_mult_imp_div_less)
  have s: "s = dec_pad 4 (nat y) @ dec_pad 2 (nat m) @ dec_pad 2 (nat d) @ dec_pad 2 (r div 3600)
      @ dec_pad 2 (r mod 3600 div 60) @ ''Z''"
    using assms(1,3) date civil_date [of n]
    by (simp add: utc_yyyymmddhhmm_def fmt_def Let_def n [symmetric] ri [symmetric] nat_div_distrib nat_mod_distrib)
  have l: "length (dec_pad 4 (nat y)) = 4" "length (dec_pad 2 (nat m)) = 2" "length (dec_pad 2 (nat d)) = 2"
      "length (dec_pad 2 (r div 3600)) = 2" "length (dec_pad 2 (r mod 3600 div 60)) = 2"
    using rg y hm by (auto intro!: length_dec_pad)
  have "int r = 3600 * int (r div 3600) + 60 * int (r mod 3600 div 60) + int (r mod 3600 mod 60)"
    using mult_div_mod_eq [of 3600 r] mult_div_mod_eq [of 60 "r mod 3600"] by linarith
  moreover have "int (r mod 3600 mod 60) = t mod 60" by (simp add: zmod_int ri mod_mod_cancel)
  moreover have "t = 86400 * int n + int r" unfolding n ri by simp
  ultimately have "t - t mod 60 = 86400 * int n + 3600 * int (r div 3600) + 60 * int (r mod 3600 div 60)" by linarith
  with l rg date show ?thesis
    by (intro conjI exI [of _ n]) (simp_all add: s num_of_pad)
qed

theorem stamp_denotes_witness:
  "utc_yyyymmddhhmm 1788264600 = ''202609011210Z'' \<and> length (utc_yyyymmddhhmm 1788264600) = 13
     \<and> (\<exists>n. fst (date_after n) = 2026)"
proof -
  have t: "(0 :: int) \<le> 1788264600" "(1788264600 :: int) < 253402300800" by simp_all
  have c: "civil_from_days 20697 = (2026, 9, 1)" by code_simp
  have p: "dec_pad 4 2026 = ''2026''" "dec_pad 2 9 = ''09''" "dec_pad 2 (Suc 0) = ''01''" "dec_pad 2 12 = ''12''"
      "dec_pad 2 10 = ''10''"
    by (simp_all add: dec_pad_def dec.simps digit_char_def char_of_def bit_0)
  have s: "utc_yyyymmddhhmm 1788264600 = ''202609011210Z''"
    by (simp add: utc_yyyymmddhhmm_def c p fmt_def Let_def)
  have y: "int (num_of (take 4 ''202609011210Z'')) = 2026" by (simp add: num_of_def)
  have "\<exists>n. fst (date_after n) = int (num_of (take 4 ''202609011210Z''))"
    using stamp_denotes [OF t refl] unfolding s by (metis fst_conv)
  then show ?thesis unfolding y s by simp
qed

end
