(* ===== verification/Authorized_Keys.thy ===== *)
theory Authorized_Keys
  imports Civil_Date Rust_Text File_Transfer
begin

text \<open>
  The part of \<open>src/ssh.rs\<close> that decides what goes into the target's \<open>authorized_keys\<close>.

  The writer a merge goes to is an argument: how it takes bytes and how it is flushed.  What the
  merge relies on is the locale \<open>writer\<close>: a writer whose operations report success holds the
  bytes it was given, in order.  A stream's sink is one and so is a tokio file, whose failed
  background write surfaces at the next operation.
\<close>

section \<open>The line\<close>

definition key_blob :: "string \<Rightarrow> string option" where
  "key_blob pubkey_line = (case split_whitespace pubkey_line of a # b # _ \<Rightarrow> Some b | _ \<Rightarrow> None)"

definition authorized_line :: "string \<Rightarrow> int \<Rightarrow> string \<Rightarrow> string" where
  "authorized_line options expiry pubkey_line =
     fmt [options, '',expiry-time='', [quote], utc_yyyymmddhhmm expiry, [quote], '' '', pubkey_line]"

section \<open>Merging\<close>

definition lf :: u8 where "lf = 10"

definition is_ascii_whitespace :: "u8 \<Rightarrow> bool" where
  "is_ascii_whitespace b \<longleftrightarrow> b \<in> {32, 9, 10, 12, 13}"

text \<open>\<open>slice::split\<close>.\<close>

fun split_bytes :: "(u8 \<Rightarrow> bool) \<Rightarrow> bytes \<Rightarrow> bytes list" where
  "split_bytes sep [] = [[]]"
| "split_bytes sep (b # bs) =
     (if sep b then [] # split_bytes sep bs
      else (b # hd (split_bytes sep bs)) # tl (split_bytes sep bs))"

text \<open>Whether a line of the file carries the key.\<close>

definition carries :: "string \<Rightarrow> bytes \<Rightarrow> bool" where
  "carries blob buf \<longleftrightarrow> as_bytes blob \<in> set (split_bytes is_ascii_whitespace buf)"

lemma take_until: "c \<in> set a \<Longrightarrow> takeWhile (\<lambda>b. b \<noteq> c) a @ c # drop (Suc (length (takeWhile (\<lambda>b. b \<noteq> c) a))) a = a"
  by (induction a) auto

lemma read_until_Inr:
  assumes "read_until c r = (Inr buf, r')"
  shows "arriving r = buf @ arriving r'"
proof (cases "c \<in> set (arriving r)")
  case True
  with assms take_until [OF True] show ?thesis
    by (auto simp: read_until_def Let_def simp del: arriving_chunks_update)
next
  case False
  with assms have "buf = takeWhile (\<lambda>b. b \<noteq> c) (arriving r)" "r' = r\<lparr>chunks := []\<rparr>"
    by (auto simp: read_until_def Let_def split: option.splits)
  moreover have "takeWhile (\<lambda>b. b \<noteq> c) (arriving r) = arriving r" using False by auto
  ultimately show ?thesis by simp
qed

lemma read_until_shrinks:
  "read_until c r = (Inr buf, r') \<Longrightarrow> buf \<noteq> [] \<Longrightarrow> length (arriving r') < length (arriving r)"
  by (simp add: read_until_Inr)

function merge_lines :: "(bytes \<Rightarrow> ('s, unit) io) \<Rightarrow> string \<Rightarrow> reader \<Rightarrow> ('s, unit) io" where
  "merge_lines put blob r s =
     (case read_until lf r of
        (Inl e, r') \<Rightarrow> (Inl e, s)
      | (Inr buf, r') \<Rightarrow>
          (if buf = [] then (Inr (), s)
           else if carries blob buf then merge_lines put blob r' s
           else
             (case io_bind (put buf) (\<lambda>_. if last buf \<noteq> lf then put [lf] else io_ok ()) s of
                (Inl e, s') \<Rightarrow> (Inl e, s')
              | (Inr _, s') \<Rightarrow> merge_lines put blob r' s')))"
  by pat_completeness auto
termination
  by (relation "measure (\<lambda>(put, blob, r, s). length (arriving r))") (auto dest!: read_until_shrinks [OF sym])

declare merge_lines.simps [simp del]

definition merge_authorized_keys ::
  "(bytes \<Rightarrow> ('s, unit) io) \<Rightarrow> ('s, unit) io \<Rightarrow> reader option \<Rightarrow> string \<Rightarrow> string \<Rightarrow> ('s, unit) io" where
  "merge_authorized_keys put flush existing blob line =
     io_bind (case existing of None \<Rightarrow> io_ok () | Some r \<Rightarrow> merge_lines put blob r) (\<lambda>_.
     io_bind (put (as_bytes line)) (\<lambda>_.
     io_bind (put [lf]) (\<lambda>_.
     flush)))"

section \<open>What a merge writes\<close>

text \<open>The lines of a file, each with its newline if it has one.\<close>

function raw_lines :: "bytes \<Rightarrow> bytes list" where
  "raw_lines b =
     (if b = [] then []
      else (let line = takeWhile (\<lambda>c. c \<noteq> lf) b in
            if lf \<in> set b then (line @ [lf]) # raw_lines (drop (Suc (length line)) b) else [line]))"
  by pat_completeness auto
termination
  by (relation "measure length") auto

declare raw_lines.simps [simp del]

definition terminate :: "bytes \<Rightarrow> bytes" where
  "terminate line = (if line \<noteq> [] \<and> last line = lf then line else line @ [lf])"

definition others :: "string \<Rightarrow> bytes \<Rightarrow> bytes list" where
  "others blob b = map terminate (filter (\<lambda>l. \<not> carries blob l) (raw_lines b))"

locale writer =
  fixes put :: "bytes \<Rightarrow> ('s, unit) io"
    and flush :: "('s, unit) io"
    and good :: "'s \<Rightarrow> bool"
    and written :: "'s \<Rightarrow> bytes"
  assumes put_appends: "put b s = (Inr (), s') \<Longrightarrow> good s' \<Longrightarrow> good s \<and> written s' = written s @ b"
    and flush_keeps: "flush s = (Inr (), s') \<Longrightarrow> good s \<and> written s' = written s"
begin

lemma merge_lines_writes:
  "merge_lines put blob r s = (Inr (), s') \<Longrightarrow> good s' \<Longrightarrow>
     good s \<and> written s' = written s @ concat (others blob (arriving r))"
proof (induction "length (arriving r)" arbitrary: r s rule: less_induct)
  case less
  obtain y r' where rd: "read_until lf r = (y, r')" by (metis prod.exhaust)
  from less.prems(1) rd obtain buf where y: "y = Inr buf"
    by (cases y) (auto simp: merge_lines.simps [of put blob r])
  show ?case
  proof (cases "buf = []")
    case True
    with rd y have "arriving r = []"
      by (cases "arriving r") (auto simp: read_until_def Let_def split: if_splits option.splits)
    with less.prems rd y True show ?thesis
      by (simp add: merge_lines.simps [of put blob r] others_def raw_lines.simps)
  next
    case False
    note sh = read_until_shrinks [OF rd [unfolded y] False]
    have lines: "raw_lines (arriving r) = buf # raw_lines (arriving r')"
      using rd y False
      by (auto simp: read_until_def Let_def raw_lines.simps [of "arriving r"] raw_lines.simps [of "[]"]
          simp flip: takeWhile_eq_all_conv split: if_splits option.splits)
    show ?thesis
    proof (cases "carries blob buf")
      case True
      with less.prems rd y False have "merge_lines put blob r' s = (Inr (), s')"
        by (simp add: merge_lines.simps [of put blob r])
      from less.hyps [OF sh this less.prems(2)] True show ?thesis by (simp add: others_def lines)
    next
      case kept: False
      with less.prems rd y False obtain s1 where
        1: "io_bind (put buf) (\<lambda>_. if last buf \<noteq> lf then put [lf] else io_ok ()) s = (Inr (), s1)"
          "merge_lines put blob r' s1 = (Inr (), s')"
        by (auto simp: merge_lines.simps [of put blob r] split: prod.splits sum.splits)
      note rest = less.hyps [OF sh 1(2) less.prems(2)]
      have "good s \<and> written s1 = written s @ terminate buf"
        using 1(1) rest False by (auto elim!: io_bind_InrE split: if_splits simp: terminate_def io_ok_def dest!: put_appends)
      with rest kept show ?thesis by (simp add: others_def lines)
    qed
  qed
qed

lemma merge_writes:
  assumes "merge_authorized_keys put flush existing blob line s = (Inr (), s')"
  shows "good s \<and> written s' = written s
    @ concat (others blob (case existing of None \<Rightarrow> [] | Some r \<Rightarrow> arriving r)) @ as_bytes line @ [lf]"
proof -
  from assms obtain s1 s2 s3 where
    1: "(case existing of None \<Rightarrow> io_ok () | Some r \<Rightarrow> merge_lines put blob r) s = (Inr (), s1)" and
    2: "put (as_bytes line) s1 = (Inr (), s2)" and 3: "put [lf] s2 = (Inr (), s3)" and 4: "flush s3 = (Inr (), s')"
    by (auto simp: merge_authorized_keys_def elim!: io_bind_InrE)
  from flush_keeps [OF 4] have f: "good s3" "written s' = written s3" by auto
  from put_appends [OF 3 f(1)] have g: "good s2" "written s3 = written s2 @ [lf]" by auto
  from put_appends [OF 2 g(1)] have h: "good s1" "written s2 = written s1 @ as_bytes line" by auto
  have "good s \<and> written s1 = written s @ concat (others blob (case existing of None \<Rightarrow> [] | Some r \<Rightarrow> arriving r))"
    using 1 h(1) merge_lines_writes by (cases existing) (auto simp: io_ok_def others_def raw_lines.simps)
  with f g h show ?thesis by simp
qed

end

lemma merge_lines_unbroken: "merge_lines put blob r s = (Inr (), s') \<Longrightarrow> broken r = None"
proof (induction "length (arriving r)" arbitrary: r s rule: less_induct)
  case less
  obtain y r' where rd: "read_until lf r = (y, r')" by (metis prod.exhaust)
  from less.prems rd obtain buf where y: "y = Inr buf"
    by (cases y) (auto simp: merge_lines.simps [of put blob r])
  have br: "broken r' = broken r" using rd by (auto simp: read_until_def Let_def split: if_splits)
  show ?case
  proof (cases "buf = []")
    case True
    with rd y show ?thesis by (auto simp: read_until_def Let_def split: if_splits option.splits)
  next
    case False
    from less.prems rd y False obtain t where "merge_lines put blob r' t = (Inr (), s')"
      by (auto simp: merge_lines.simps [of put blob r] split: if_splits prod.splits sum.splits)
    from less.hyps [OF read_until_shrinks [OF rd [unfolded y] False] this] br show ?thesis by simp
  qed
qed

lemma length_others: "length (concat (others blob b)) \<le> Suc (length b)"
proof (induction b rule: raw_lines.induct)
  case (1 b)
  define line where "line = takeWhile (\<lambda>c. c \<noteq> lf) b"
  define rest where "rest = drop (Suc (length line)) b"
  show ?case
  proof (cases "lf \<in> set b")
    case True
    then have ne: "b \<noteq> []" by auto
    then have lines: "raw_lines b = (line @ [lf]) # raw_lines rest"
      using True by (simp add: raw_lines.simps [of b] line_def rest_def Let_def)
    have b: "line @ lf # rest = b" using take_until [OF True] by (simp add: line_def rest_def)
    have "length b = Suc (length line + length rest)" unfolding b [symmetric] by simp
    moreover have "length (concat (others blob rest)) \<le> Suc (length rest)"
      using "1.IH" [OF ne refl True] by (simp add: line_def rest_def)
    ultimately show ?thesis by (simp add: others_def lines terminate_def)
  next
    case False
    then have "raw_lines b = (if b = [] then [] else [line])" by (simp add: raw_lines.simps [of b] line_def Let_def)
    moreover have "length line \<le> length b" unfolding line_def by (rule length_takeWhile_le)
    ultimately show ?thesis by (simp add: others_def terminate_def)
  qed
qed

lemma merge_lines_respects:
  assumes "reflp R" and "transp R" and "\<And>b. io_respects R (put b)"
  shows "io_respects R (merge_lines put blob r)"
proof (induction "length (arriving r)" arbitrary: r rule: less_induct)
  case less
  show ?case
  proof (rule io_respectsI)
    fix s x t
    assume run: "merge_lines put blob r s = (x, t)"
    obtain y r' where rd: "read_until lf r = (y, r')" by (metis prod.exhaust)
    define step where "step = (\<lambda>buf. io_bind (put buf) (\<lambda>_. if last buf \<noteq> lf then put [lf] else io_ok ()))"
    have st: "io_respects R (step buf)" for buf
      unfolding step_def using assms by (intro io_respects_bind io_respects_if io_respects_ok)
    have refl: "R s s" using assms(1) by (auto simp: reflp_def)
    show "R s t"
    proof (cases y)
      case (Inr buf)
      show ?thesis
      proof (cases "buf = []")
        case False
        note next_lines = less.hyps [OF read_until_shrinks [OF rd [unfolded Inr] False]]
        show ?thesis
        proof (cases "carries blob buf")
          case True
          with run rd Inr False next_lines show ?thesis by (auto simp: merge_lines.simps [of put blob r] dest: io_respectsD)
        next
          case kept: False
          obtain z u where 1: "step buf s = (z, u)" by (metis prod.exhaust)
          then have "R s u" by (rule io_respectsD [OF st])
          moreover have "t = u \<or> R u t"
            using run rd Inr False kept 1 next_lines
            by (cases z) (auto simp: merge_lines.simps [of put blob r] step_def dest: io_respectsD)
          ultimately show ?thesis using assms(2) by (auto dest: transpD)
        qed
      qed (use run rd Inr refl in \<open>simp add: merge_lines.simps [of put blob r]\<close>)
    qed (use run rd refl in \<open>simp add: merge_lines.simps [of put blob r]\<close>)
  qed
qed

lemma merge_respects:
  assumes "reflp R" and "transp R" and "\<And>b. io_respects R (put b)" and "io_respects R flush"
  shows "io_respects R (merge_authorized_keys put flush existing blob line)"
  unfolding merge_authorized_keys_def using assms
  by (cases existing) (auto intro!: io_respects_bind io_respects_ok merge_lines_respects)

section \<open>The writers\<close>

interpretation stream_writer: writer send_all send_ctl "\<lambda>_. True" sent
  by unfold_locales (auto simp: send_ctl_def send_all_def split: option.splits)

definition file_put :: "path \<Rightarrow> bytes \<Rightarrow> (stash \<times> world, unit) io" where
  "file_put p b sw = (case tokio_write p b (fst sw) (snd sw) of (x, st, w) \<Rightarrow> (x, (st, w)))"

definition file_flush :: "(stash \<times> world, unit) io" where
  "file_flush sw = (case tokio_flush (fst sw) (snd sw) of (x, w) \<Rightarrow> (x, (None, w)))"

definition file_holds :: "path \<Rightarrow> stash \<times> world \<Rightarrow> bytes" where
  "file_holds p sw = (case nodes (snd sw) p of Some (File c m) \<Rightarrow> c | _ \<Rightarrow> [])"

lemma file_put_Inr:
  assumes "file_put p b sw = (Inr (), sw')" "fst sw' = None"
  shows "fst sw = None" and "write_all p b (snd sw) = (Inr (), snd sw')"
  using assms by (auto simp: file_put_def tokio_write_def split: option.splits prod.splits sum.splits error.splits)

interpretation file_writer: writer "file_put p" file_flush "\<lambda>sw. fst sw = None" "file_holds p" for p
proof
  fix b s s'
  assume *: "file_put p b s = (Inr (), s')" "fst s' = None"
  from file_put_Inr [OF this] show "fst s = None \<and> file_holds p s' = file_holds p s @ b"
    by (auto simp: file_holds_def elim!: write_all_Inr)
next
  fix s s'
  assume "file_flush s = (Inr (), s')"
  then show "fst s = None \<and> file_holds p s' = file_holds p s"
    by (auto simp: file_flush_def tokio_flush_def file_holds_def dest!: handle_call_Inr split: option.splits prod.splits)
qed

section \<open>A merge changes one line\<close>

definition is_line :: "bytes \<Rightarrow> bool" where
  "is_line l \<longleftrightarrow> (\<exists>b. l = b @ [lf] \<and> lf \<notin> set b)"

lemma raw_lines_line: "is_line l \<Longrightarrow> raw_lines (l @ rest) = l # raw_lines rest"
proof -
  assume "is_line l"
  then obtain b where l: "l = b @ [lf]" and b: "lf \<notin> set b" by (auto simp: is_line_def)
  then have "takeWhile (\<lambda>c. c \<noteq> lf) (l @ rest) = b" by (simp add: takeWhile_append)
  with l b show ?thesis by (subst raw_lines.simps) simp
qed

lemma raw_lines_concat: "\<forall>l \<in> set ls. is_line l \<Longrightarrow> raw_lines (concat ls) = ls"
  by (induction ls) (simp_all add: raw_lines_line raw_lines.simps [of "[]"])

lemma raw_lines_terminate: "l \<in> set (raw_lines b) \<Longrightarrow> is_line (terminate l)"
proof (induction b rule: raw_lines.induct)
  case (1 b)
  let ?line = "takeWhile (\<lambda>c. c \<noteq> lf) b"
  have n: "lf \<notin> set ?line" by (auto dest: set_takeWhileD)
  show ?case
  proof (cases "b \<noteq> [] \<and> lf \<in> set b \<and> l \<noteq> ?line @ [lf]")
    case True
    with "1.prems" have "l \<in> set (raw_lines (drop (Suc (length ?line)) b))" by (subst (asm) raw_lines.simps) (simp add: Let_def)
    with "1.IH" True show ?thesis by blast
  next
    case False
    with "1.prems" have "l = ?line @ [lf] \<or> l = ?line" by (subst (asm) raw_lines.simps) (auto simp: Let_def split: if_splits)
    with n show ?thesis by (auto simp: is_line_def terminate_def) (metis last_in_set)
  qed
qed

lemma others_lines: "l \<in> set (others blob b) \<Longrightarrow> is_line l"
  by (auto simp: others_def raw_lines_terminate)

lemma split_bytes_snoc: "sep c \<Longrightarrow> split_bytes sep (b @ [c]) = split_bytes sep b @ [[]]"
proof (induction b)
  case (Cons x b)
  have "split_bytes sep b \<noteq> []" by (cases b) auto
  with Cons show ?case by auto
qed simp

lemma carries_terminate: "blob \<noteq> [] \<Longrightarrow> carries blob (terminate l) = carries blob l"
  by (auto simp: carries_def terminate_def split_bytes_snoc is_ascii_whitespace_def lf_def)

lemma others_merged:
  assumes "blob \<noteq> []" and "lf \<notin> set line"
  shows "others blob (concat (others blob b) @ line @ [lf]) =
    others blob b @ (if carries blob line then [] else [line @ [lf]])"
proof -
  let ?ls = "others blob b @ [line @ [lf]]"
  have "is_line (line @ [lf])" using assms(2) by (auto simp: is_line_def)
  then have all: "\<forall>l \<in> set ?ls. is_line l" using others_lines by auto
  have rl: "raw_lines (concat ?ls) = ?ls" by (rule raw_lines_concat [OF all])
  have t: "terminate l = l" if "is_line l" for l using that by (auto simp: is_line_def terminate_def)
  have f: "filter (\<lambda>l. \<not> carries blob l) (others blob b) = others blob b"
    using assms(1) by (auto simp: others_def filter_map o_def carries_terminate)
  have "terminate line = line @ [lf]" using assms(2) by (metis last_in_set terminate_def)
  then have "carries blob (line @ [lf]) = carries blob line" using carries_terminate [OF assms(1), of line] by simp
  moreover have "map terminate (others blob b) = others blob b" using t others_lines by (simp add: map_idI)
  ultimately show ?thesis using rl f t [OF \<open>is_line (line @ [lf])\<close>] by (simp add: others_def [of blob "concat _ @ _"])
qed

text \<open>C30. Running the merge again renews the key's line instead of stacking another: after two runs
  the file holds every line of the original that does not carry the key, in order, each ended by a
  newline, and then the new line alone.\<close>

theorem merge_renews:
  assumes "merge_authorized_keys send_all send_ctl (Some r) blob line1 s = (Inr (), s1)"
    and "merge_authorized_keys send_all send_ctl (Some r1) blob line2 t = (Inr (), t2)"
    and "sent s = []" and "sent t = []" and "arriving r1 = sent s1"
    and "blob \<noteq> []" and "carries blob (as_bytes line1)" and "lf \<notin> set (as_bytes line1)"
  shows "sent t2 = concat (others blob (arriving r)) @ as_bytes line2 @ [lf]"
proof -
  have "sent s1 = concat (others blob (arriving r)) @ as_bytes line1 @ [lf]"
    using stream_writer.merge_writes [OF assms(1)] assms(3) by simp
  with stream_writer.merge_writes [OF assms(2)] assms(4,5) others_merged [OF assms(6,8)] assms(7) show ?thesis
    by simp
qed

theorem merge_renews_witness:
  "\<exists>s1 t2. merge_authorized_keys send_all send_ctl (Some (reader_of [65, 10, 66])) ''B'' ''B'' fresh_sink = (Inr (), s1)
     \<and> merge_authorized_keys send_all send_ctl (Some (reader_of (sent s1))) ''B'' ''C B'' fresh_sink = (Inr (), t2)
     \<and> sent t2 = [65, 10, 67, 32, 66, 10]"
proof -
  let ?m = "\<lambda>b line. merge_authorized_keys send_all send_ctl (Some (reader_of b)) ''B'' line fresh_sink"
  obtain x s1 where 1: "?m [65, 10, 66] ''B'' = (x, s1)" by (metis prod.exhaust)
  moreover have "fst (?m [65, 10, 66] ''B'') = Inr ()" by code_simp
  moreover have "sent (snd (?m [65, 10, 66] ''B'')) = [65, 10, 66, 10]" by code_simp
  ultimately have x: "x = Inr ()" and s1: "sent s1 = [65, 10, 66, 10]" by simp_all
  obtain y t2 where 2: "?m [65, 10, 66, 10] ''C B'' = (y, t2)" by (metis prod.exhaust)
  moreover have "fst (?m [65, 10, 66, 10] ''C B'') = Inr ()" by code_simp
  ultimately have y: "y = Inr ()" by simp
  have e: "others ''B'' [65, 10, 66] = [[65, 10]]" "as_bytes ''C B'' = [67, 32, 66]" "carries ''B'' (as_bytes ''B'')"
      "as_bytes ''B'' = [66]"
    by code_simp+
  have "sent t2 = concat (others ''B'' (arriving (reader_of [65, 10, 66]))) @ as_bytes ''C B'' @ [lf]"
  proof (rule merge_renews)
    show "?m [65, 10, 66] ''B'' = (Inr (), s1)" "?m [65, 10, 66, 10] ''C B'' = (Inr (), t2)" using 1 2 x y by simp_all
    show "sent fresh_sink = []" "sent fresh_sink = []" by (simp_all add: fresh_sink_def)
    show "arriving (reader_of [65, 10, 66, 10]) = sent s1" by (simp add: s1 arriving_def reader_of_def)
    show "lf \<notin> set (as_bytes ''B'')" unfolding e lf_def by simp
  qed (simp, rule e(3))
  with 1 2 x y s1 e show ?thesis by (simp add: lf_def reader_of_def arriving_def)
qed

end
