(* ===== verification/Ssh.thy ===== *)
theory Ssh
  imports Commands Authorized_Keys Process
begin

text \<open>
  \<open>src/ssh.rs\<close>, the recipe: \<open>ssh\<close> out of exec, copy and forward.

  The recipe makes several connections to \<open>serve\<close>; \<open>dials\<close> gives the stream of each, in the
  order the code opens them: pulling and pushing \<open>authorized_keys\<close>, the host key, key
  generation, the host key again, starting sshd, and then one for each forwarded connection.
  The local programs \<open>ssh-keygen\<close> and \<open>ssh\<close> are the argument \<open>spawn\<close>, and what a connection to
  the forwarded port answers is the argument \<open>answers\<close>.
\<close>

section \<open>Configuration\<close>

definition KEY_FILE_MAX_BYTES :: u64 where "KEY_FILE_MAX_BYTES = push_bit 20 1"
definition EXEC_OUTPUT_MAX_BYTES :: u64 where "EXEC_OUTPUT_MAX_BYTES = push_bit 16 1"

text \<open>The lifetime of the key is in seconds.\<close>

record ssh_config =
  sh_agent :: string
  sh_user :: string
  sh_authorized_keys :: string
  sh_host_key_pub :: string
  sh_sshd_argv :: "string list"
  sh_keygen_argv :: "string list"
  sh_target_addr :: string
  sh_local_port :: u16
  sh_ssh_argv :: "string list"
  sh_key_options :: string
  sh_key_ttl :: int

section \<open>Keys\<close>

definition keygen_argv :: "path \<Rightarrow> string list" where
  "keygen_argv key =
     [''ssh-keygen'', ''-q'', ''-t'', ''ed25519'', ''-N'', [], ''-C'', ''egdod-controller'', ''-f'', show_path key]"

definition ensure_local_key :: "spawn \<Rightarrow> path \<Rightarrow> (world, unit) io" where
  "ensure_local_key spawn key =
     io_bind (path_exists key) (\<lambda>there.
     if there then io_ok ()
     else
       io_bind (io_context ''running ssh-keygen on the controller'' (spawn (keygen_argv key))) (\<lambda>status.
       io_lift (ensure (exit_success status) (fmt [''ssh-keygen failed: '', show_ExitStatus status]))))"

text \<open>The reader of an open file; a read may fail after some of its bytes.\<close>

definition file_reader :: "node \<Rightarrow> (world, reader) io" where
  "file_reader n w =
     (case n of
        File c _ \<Rightarrow>
          (case fault w (tick w) of
             None \<Rightarrow> (Inr \<lparr>chunks = [c], broken = None\<rparr>, next_tick w)
           | Some (k, t, i) \<Rightarrow> (Inr \<lparr>chunks = [take i c], broken = Some (k, t)\<rparr>, next_tick w))
      | _ \<Rightarrow> (Inr \<lparr>chunks = [], broken = Some (IsADirectory, ''Is a directory (os error 21)'')\<rparr>, next_tick w))"

text \<open>The merge into the file just created at \<open>p\<close>.\<close>

definition merge_into :: "path \<Rightarrow> reader option \<Rightarrow> string \<Rightarrow> string \<Rightarrow> (world, unit) io" where
  "merge_into p existing blob line w =
     (case merge_authorized_keys (file_put p) file_flush existing blob line (None, w) of (x, (st, w')) \<Rightarrow> (x, w'))"

definition install_authorized_key ::
  "postcard \<Rightarrow> (bytes \<Rightarrow> bytes) \<Rightarrow> (nat \<Rightarrow> dial) \<Rightarrow> StateDir \<Rightarrow> ssh_config \<Rightarrow> string \<Rightarrow> string \<Rightarrow> path
    \<Rightarrow> (duplex, unit) io" where
  "install_authorized_key pc sha dials st cfg blob line scratch =
     (let pulled = join scratch ''authorized_keys''; merged = join scratch ''authorized_keys.merged'' in
      io_bind (pull_file pc sha (dials 0) st (sh_agent cfg) (sh_authorized_keys cfg) pulled KEY_FILE_MAX_BYTES) (\<lambda>p.
      io_bind
        (case p of
           Fetched _ _ \<Rightarrow> via_world (io_bind (open_read pulled) (\<lambda>n. io_bind (file_reader n) (\<lambda>r. io_ok (Some r))))
         | Missing \<Rightarrow> io_ok None) (\<lambda>existing.
      io_bind (via_world (create_new merged 384)) (\<lambda>_.
      io_bind (via_world (merge_into merged existing blob line)) (\<lambda>_.
      io_bind (io_context ''installing the authorized key''
        (push_file pc sha (dials 1) st (sh_agent cfg) merged (sh_authorized_keys cfg))) (\<lambda>_.
      io_ok ()))))))"

definition read_host_key ::
  "postcard \<Rightarrow> (bytes \<Rightarrow> bytes) \<Rightarrow> dial \<Rightarrow> StateDir \<Rightarrow> ssh_config \<Rightarrow> path \<Rightarrow> (duplex, string option) io" where
  "read_host_key pc sha dial st cfg scratch =
     (let pulled = join scratch ''host_key.pub'' in
      io_bind (pull_file pc sha dial st (sh_agent cfg) (sh_host_key_pub cfg) pulled KEY_FILE_MAX_BYTES) (\<lambda>p.
      case p of
        Missing \<Rightarrow> io_ok None
      | Fetched _ _ \<Rightarrow>
          io_bind (via_world (io_bind (open_read pulled) file_reader)) (\<lambda>r.
          io_bind (io_lift (fst (read_until lf r))) (\<lambda>first.
          case split_whitespace (from_utf8_lossy first) of
            kind # blob # _ \<Rightarrow> io_ok (Some (fmt [kind, '' '', blob]))
          | _ \<Rightarrow> io_lift (Inl (Msg (fmt [sh_host_key_pub cfg, '' is not an ssh public key''])))))))"

text \<open>The exit status of the target's command is signed.\<close>

definition show_i32 :: "u32 \<Rightarrow> string" where
  "show_i32 c = (if sint c < 0 then ''-'' @ dec (nat (- sint c)) else dec (nat (sint c)))"

definition fetch_host_key ::
  "postcard \<Rightarrow> (bytes \<Rightarrow> bytes) \<Rightarrow> (nat \<Rightarrow> dial) \<Rightarrow> StateDir \<Rightarrow> ssh_config \<Rightarrow> path \<Rightarrow> (duplex, string) io" where
  "fetch_host_key pc sha dials st cfg scratch =
     io_bind (read_host_key pc sha (dials 2) st cfg scratch) (\<lambda>k.
     case k of
       Some k \<Rightarrow> io_ok k
     | None \<Rightarrow>
         io_bind (exec_capture pc (dials 3) st (sh_agent cfg) (sh_keygen_argv cfg) EXEC_OUTPUT_MAX_BYTES)
           (\<lambda>(code, _, err).
         if code \<noteq> 0
         then io_lift (Inl (Msg (fmt [''host key generation failed on the target (exit '', show_i32 code, ''): '',
           trim (from_utf8_lossy err)])))
         else
           io_bind (read_host_key pc sha (dials 4) st cfg scratch) (\<lambda>k.
           io_lift (ok_or k (fmt [sh_host_key_pub cfg, '' still absent after key generation''])))))"

section \<open>The forward\<close>

text \<open>What one connection to the forwarded port sends first, if it connects and answers in time.\<close>

definition banner :: "bytes option \<Rightarrow> string option" where
  "banner answer =
     (case answer of
        None \<Rightarrow> None
      | Some b \<Rightarrow>
          (let t = trim (from_utf8_lossy (take 64 b)) in if starts_with t ''SSH-'' then Some t else None))"

fun await_banner :: "nat \<Rightarrow> nat \<Rightarrow> (nat \<Rightarrow> bytes option) \<Rightarrow> nat option" where
  "await_banner 0 i answers = None"
| "await_banner (Suc n) i answers =
     (case banner (answers i) of Some b \<Rightarrow> Some i | None \<Rightarrow> await_banner n (Suc i) answers)"

definition ensure_sshd ::
  "postcard \<Rightarrow> dial \<Rightarrow> (nat \<Rightarrow> bytes option) \<Rightarrow> StateDir \<Rightarrow> ssh_config \<Rightarrow> (duplex, unit) io" where
  "ensure_sshd pc dial answers st cfg =
     (if banner (answers 0) \<noteq> None then io_ok ()
      else
        io_bind (exec_capture pc dial st (sh_agent cfg) (sh_sshd_argv cfg) EXEC_OUTPUT_MAX_BYTES) (\<lambda>(code, _, err).
        if code \<noteq> 0
        then io_lift (Inl (Msg (fmt [''starting sshd failed (exit '', show_i32 code, ''): '', trim (from_utf8_lossy err)])))
        else
          (case await_banner 20 1 answers of
             Some i \<Rightarrow> io_ok ()
           | None \<Rightarrow> io_lift (Inl (Msg (fmt [''sshd was started but never answered on '', sh_target_addr cfg]))))))"

fun ip_and_port :: "SocketAddr \<Rightarrow> string \<times> u16" where
  "ip_and_port (SocketV4 a p) = (show_v4 a, p)"
| "ip_and_port (SocketV6 a p s) = (show_v6 a, p)"

definition known_host :: "SocketAddr \<Rightarrow> string" where
  "known_host bound =
     (case ip_and_port bound of (ip, port) \<Rightarrow>
        if port = 22 then ip else fmt [''['', ip, '']:'', dec (unat port)])"

definition ssh_command :: "StateDir \<Rightarrow> ssh_config \<Rightarrow> SocketAddr \<Rightarrow> string list" where
  "ssh_command st cfg bound =
     (case ip_and_port bound of (ip, port) \<Rightarrow>
        [''ssh'', ''-o'', ''StrictHostKeyChecking=yes'', ''-o'', ''BatchMode=yes'', ''-o'', ''IdentitiesOnly=yes'',
         ''-o'', fmt [''UserKnownHostsFile='', show_path (known_hosts_path st)],
         ''-i'', show_path (ssh_key_path st), ''-p'', dec (unat port), fmt [sh_user cfg, ''@'', ip]] @ sh_ssh_argv cfg)"

section \<open>The recipe\<close>

definition ssh_session ::
  "postcard \<Rightarrow> (bytes \<Rightarrow> bytes) \<Rightarrow> (nat \<Rightarrow> dial) \<Rightarrow> spawn \<Rightarrow> (SocketAddr \<Rightarrow> listener result) \<Rightarrow> (nat \<Rightarrow> bytes option)
    \<Rightarrow> StateDir \<Rightarrow> ssh_config \<Rightarrow> path \<Rightarrow> (duplex, u32) io" where
  "ssh_session pc sha dials spawn tcp_bind answers st cfg scratch =
     (let key = ssh_key_path st; pubkey = ssh_pub_path st; known_hosts = known_hosts_path st in
      io_bind (via_world (ensure_local_key spawn key)) (\<lambda>_.
      io_bind (via_world (io_context (fmt [''reading '', show_path pubkey]) (read_to_string pubkey))) (\<lambda>body.
      let pubkey_line = trim body in
      io_bind (io_lift (ok_or (key_blob pubkey_line) (fmt [show_path pubkey, '' is not an ssh public key'']))) (\<lambda>blob.
      io_bind (\<lambda>s. (Inr (clock (dx_world s) (tick (dx_world s))), s\<lparr>dx_world := next_tick (dx_world s)\<rparr>)) (\<lambda>now.
      io_bind (install_authorized_key pc sha dials st cfg blob
        (authorized_line (sh_key_options cfg) (now + sh_key_ttl cfg) pubkey_line) scratch) (\<lambda>_.
      io_bind (fetch_host_key pc sha dials st cfg scratch) (\<lambda>host_key.
      io_bind (\<lambda>s. (forward_listener pc (\<lambda>i. dials (6 + i)) tcp_bind st (sh_agent cfg)
        (forward_addr (sh_local_port cfg)) (sh_target_addr cfg) (dx_world s), s)) (\<lambda>(bound, _, _).
      io_bind (ensure_sshd pc (dials 5) answers st cfg) (\<lambda>_.
      io_bind (via_world (io_context (fmt [''writing '', show_path known_hosts])
        (fs_write known_hosts (as_bytes (fmt [known_host bound, '' '', host_key, nl]))))) (\<lambda>_.
      io_bind (via_world (io_context ''running ssh (is an ssh client installed on the controller?)''
        (spawn (ssh_command st cfg bound)))) (\<lambda>status.
      io_ok (case status_code status of Some c \<Rightarrow> c | None \<Rightarrow> 255))))))))))))"

definition ssh_run ::
  "postcard \<Rightarrow> (bytes \<Rightarrow> bytes) \<Rightarrow> (nat \<Rightarrow> dial) \<Rightarrow> spawn \<Rightarrow> (SocketAddr \<Rightarrow> listener result) \<Rightarrow> (nat \<Rightarrow> bytes option)
    \<Rightarrow> StateDir \<Rightarrow> ssh_config \<Rightarrow> (duplex, u32) io" where
  "ssh_run pc sha dials spawn tcp_bind answers st cfg s =
     (let scratch = join (ssh_dir st) (fmt [''scratch.'', dec (unat (pid (dx_world s)))]) in
      io_catch (via_world (remove_dir_all scratch)) (\<lambda>_.
      io_bind (via_world (io_context (fmt [''creating '', show_path scratch]) (create_dir_all scratch))) (\<lambda>_.
      io_catch (ssh_session pc sha dials spawn tcp_bind answers st cfg scratch) (\<lambda>outcome.
      io_catch (via_world (remove_dir_all scratch)) (\<lambda>_.
      io_lift outcome)))) s)"

section \<open>Reading and merging\<close>

lemma file_reader_Inr:
  assumes "file_reader n w = (Inr r, w')" and "broken r = None"
  shows "\<exists>c k. n = File c k \<and> arriving r = c" and "w' = next_tick w"
  using assms by (auto simp: file_reader_def arriving_def split: node.splits option.splits)

text \<open>A merge into a file changes that file's contents only.\<close>

definition only_contents :: "path \<Rightarrow> stash \<times> world \<Rightarrow> stash \<times> world \<Rightarrow> bool" where
  "only_contents p sw sw' \<longleftrightarrow>
     (\<forall>c k. nodes (snd sw) p = Some (File c k) \<longrightarrow> touches {p} (snd sw) (snd sw') \<and> (\<exists>d. nodes (snd sw') p = Some (File d k)))"

lemma merge_only_contents: "io_respects (only_contents p) (merge_authorized_keys (file_put p) file_flush existing blob line)"
proof (rule merge_respects)
  show "reflp (only_contents p)" by (auto simp: reflp_def only_contents_def)
  show "transp (only_contents p)" unfolding transp_def only_contents_def by (meson touches_trans)
  show "io_respects (only_contents p) (file_put p b)" for b
    using tokio_write_cases by (fastforce simp: io_respects_def only_contents_def file_put_def split: prod.splits)
  show "io_respects (only_contents p) file_flush"
    by (auto simp: io_respects_def only_contents_def file_flush_def tokio_flush_def dest!: handle_call_world split: prod.splits option.splits)
qed

lemma merge_into_Inr:
  assumes "merge_into p existing blob line w = (Inr (), w')" and "nodes w p = Some (File [] k)"
  shows "nodes w' p = Some (File (concat (others blob (case existing of None \<Rightarrow> [] | Some r \<Rightarrow> arriving r)) @ as_bytes line @ [lf]) k)"
    and "touches {p} w w'" and "case existing of None \<Rightarrow> True | Some r \<Rightarrow> broken r = None"
proof -
  from assms(1) obtain st where
    run: "merge_authorized_keys (file_put p) file_flush existing blob line (None, w) = (Inr (), (st, w'))"
    by (auto simp: merge_into_def split: prod.splits)
  from io_respectsD [OF merge_only_contents run] assms(2)
  obtain d where d: "nodes w' p = Some (File d k)" and "touches {p} w w'" by (auto simp: only_contents_def)
  then show "touches {p} w w'" by simp
  from file_writer.merge_writes [OF run] assms(2) d
  show "nodes w' p = Some (File (concat (others blob (case existing of None \<Rightarrow> [] | Some r \<Rightarrow> arriving r)) @ as_bytes line @ [lf]) k)"
    by (simp add: file_holds_def)
  show "case existing of None \<Rightarrow> True | Some r \<Rightarrow> broken r = None"
    using run merge_lines_unbroken by (cases existing) (auto simp: merge_authorized_keys_def elim!: io_bind_InrE)
qed

section \<open>What the recipe promises\<close>

lemma await_banner_Some: "await_banner n i answers = Some j \<Longrightarrow> i \<le> j \<and> j < i + n \<and> banner (answers j) \<noteq> None"
  by (induction n i answers rule: await_banner.induct) (auto split: option.splits)

lemma ensure_sshd_Inr:
  assumes "ensure_sshd pc dial answers st cfg s = (Inr (), s')"
  shows "\<exists>j \<le> 20. banner (answers j) \<noteq> None"
proof (cases "banner (answers 0)")
  case None
  with assms obtain j where "await_banner 20 1 answers = Some j"
    by (auto simp: ensure_sshd_def elim!: io_bind_InrE split: prod.splits if_splits option.splits)
  from await_banner_Some [OF this] show ?thesis by (intro exI [of _ j]) auto
qed auto

end
