(* ===== verification/End_To_End.thy ===== *)
theory End_To_End
  imports Agent Serve Ssh "HOL-Library.Sublist"
begin

text \<open>
  A request from a command to an agent and back: \<open>controller.rs\<close>'s command writes to the unix
  socket, \<open>route_local\<close> proxies, \<open>agent.rs\<close>'s \<open>handle\<close> answers.  Every hop is a stream that may
  be cut short (a prefix of what was sent arrives) and is never altered.  The lemmas here say
  what each of the three parties did, given what arrived; the theorems of the root theory
  compose them.
\<close>

section \<open>Frames under a prefix\<close>

abbreviation frame :: "bytes \<Rightarrow> bytes" where
  "frame b \<equiv> msg_header b @ b"

lemma prefix_frame:
  assumes "prefix (frame b @ u) (frame c @ v)" and "length b \<le> MAX_MSG" and "length c \<le> MAX_MSG"
  shows "b = c" and "prefix u v"
proof -
  from assms(1) obtain z where "msg_header c @ c @ v = msg_header b @ b @ (u @ z)" by (auto simp: prefix_def)
  from msg.header_unique [OF this assms(3,2)] show "b = c" "prefix u v" by auto
qed

lemma msg_header_not_Nil [simp]: "msg_header b \<noteq> []"
  by (simp add: msg_header_def u32_to_le_def)

lemma read_msg_InrE:
  assumes "read_msg unpack r = (Inr m, r')"
  obtains b where "unpack b = Inr m" "arriving r = frame b @ arriving r'" "length b \<le> MAX_MSG" "broken r' = broken r"
  using assms by (auto simp: read_msg_iff elim: read_msg_opt_SomeE)

lemma send_all_sent_prefix: "send_all b s = (x, s') \<Longrightarrow> \<exists>z. sent s' = sent s @ z \<and> prefix z b"
  by (metis send_all_prefix take_is_prefix)

lemma write_msg_prefix:
  assumes "write_msg enc m s = (x, s')"
  shows "\<exists>b z. length b \<le> MAX_MSG \<and> sent s' = sent s @ z \<and> prefix z (frame b) \<and> (z \<noteq> [] \<longrightarrow> enc m = Inr b)"
proof -
  have unsent: "\<exists>b z. length b \<le> MAX_MSG \<and> sent s' = sent s @ z \<and> prefix z (frame b) \<and> (z \<noteq> [] \<longrightarrow> enc m = Inr b)"
    if "sent s' = sent s" using that by (intro exI [of _ "[]"]) simp
  show ?thesis
  proof (cases "enc m")
    case (Inl e)
    with assms have "sent s' = sent s" by (auto simp: write_msg_def)
    then show ?thesis by (rule unsent)
  next
    case (Inr b)
    show ?thesis
    proof (cases "length b \<le> MAX_MSG")
      case False
      with Inr assms have "sent s' = sent s" by (auto simp: write_msg_def ensure_def)
      then show ?thesis by (rule unsent)
    next
      case True
      obtain x1 s1 where 1: "send_all (msg_header b) s = (x1, s1)" by (metis prod.exhaust)
      obtain z1 where z1: "sent s1 = sent s @ z1" "prefix z1 (msg_header b)" using send_all_sent_prefix [OF 1] by blast
      obtain x2 s2 where 2: "send_all b s1 = (x2, s2)" by (metis prod.exhaust)
      obtain z2 where z2: "sent s2 = sent s1 @ z2" "prefix z2 b" using send_all_sent_prefix [OF 2] by blast
      obtain x3 s3 where 3: "send_ctl s2 = (x3, s3)" by (metis prod.exhaust)
      have s3: "sent s3 = sent s2" using send_all_sent_prefix [of "[]" s2 x3 s3] 3 by (auto simp: send_ctl_def)
      have run: "(x, s') = (case x1 of Inl e \<Rightarrow> (Inl e, s1) | Inr _ \<Rightarrow> (case x2 of Inl e \<Rightarrow> (Inl e, s2) | Inr _ \<Rightarrow> (x3, s3)))"
        using assms Inr True 1 2 3 by (auto simp: write_msg_def msg_header_def io_bind_def split: sum.splits)
      show ?thesis
      proof (cases x1)
        case (Inl e)
        with run z1 True Inr \<open>enc m = Inr b\<close> show ?thesis
          by (intro exI [of _ b] exI [of _ z1]) (auto intro: prefix_order.trans)
      next
        case (Inr u)
        then have h: "sent s1 = sent s @ msg_header b" using send_all_Inr [of "msg_header b" s s1] 1 by simp
        have "sent s' = sent s @ msg_header b @ z2"
          using run Inr h z2(1) s3 by (auto split: sum.splits)
        with z2(2) True \<open>enc m = Inr b\<close> show ?thesis
          by (intro exI [of _ b] exI [of _ "msg_header b @ z2"]) auto
      qed
    qed
  qed
qed

section \<open>What each side of a request does to the streams\<close>

lemma via_send_iff: "via_send m s = (x, s') \<longleftrightarrow> (\<exists>t. m (dx_send s) = (x, t) \<and> s' = s\<lparr>dx_send := t\<rparr>)"
  by (auto simp: via_send_def split: prod.splits)

lemma via_recv_iff: "via_recv m s = (x, s') \<longleftrightarrow> (\<exists>r. m (dx_recv s) = (x, r) \<and> s' = s\<lparr>dx_recv := r\<rparr>)"
  by (auto simp: via_recv_def split: prod.splits)

lemma via_world_iff: "via_world m s = (x, s') \<longleftrightarrow> (\<exists>w. m (dx_world s) = (x, w) \<and> s' = s\<lparr>dx_world := w\<rparr>)"
  by (auto simp: via_world_def split: prod.splits)

lemma via_recv_world_iff: "via_recv_world m s = (x, s') \<longleftrightarrow>
    (\<exists>r w. m (dx_recv s, dx_world s) = (x, (r, w)) \<and> s' = s\<lparr>dx_recv := r, dx_world := w\<rparr>)"
  by (auto simp: via_recv_world_def split: prod.splits)

lemma via_send_world_iff: "via_send_world m s = (x, s') \<longleftrightarrow>
    (\<exists>t w. m (dx_send s, dx_world s) = (x, (t, w)) \<and> s' = s\<lparr>dx_send := t, dx_world := w\<rparr>)"
  by (auto simp: via_send_world_def split: prod.splits)

lemmas via_iff = via_send_iff via_recv_iff via_world_iff via_recv_world_iff via_send_world_iff

lemma finish_Inr: "finish s = (Inr (), s') \<Longrightarrow> sent s' = sent s"
  by (auto simp: finish_def elim!: io_bind_InrE dest!: send_ctl_Inr)

lemma route_Inr:
  assumes "route pc dial st agent s = (Inr line, s')" and "dial (sock_path st) = Inr (r0, w0)"
  obtains rb kb where "enc_route pc (Route agent) = Inr rb" "length rb \<le> MAX_MSG"
    "sent (dx_send s') = sent w0 @ frame rb" "arriving r0 = frame kb @ arriving (dx_recv s')" "length kb \<le> MAX_MSG"
    "dx_world s' = dx_world s"
proof -
  from assms obtain t r where w: "write_msg (enc_route pc) (Route agent) w0 = (Inr (), t)"
    and r: "\<exists>reply. read_msg (dec_reply pc) r0 = (Inr reply, r)" and s': "s' = s\<lparr>dx_recv := r, dx_send := t\<rparr>"
    by (auto simp: route_def via_iff elim!: io_bind_InrE split: RouteReply.splits)
  from w obtain rb where rb: "enc_route pc (Route agent) = Inr rb" "sent t = sent w0 @ frame rb" "length rb \<le> MAX_MSG"
    by (rule write_msg_Inr)
  from r obtain reply where "read_msg (dec_reply pc) r0 = (Inr reply, r)" ..
  then obtain kb where "arriving r0 = frame kb @ arriving r" "length kb \<le> MAX_MSG" by (rule read_msg_InrE)
  with rb s' that show thesis by simp
qed

lemma push_file_Inr:
  assumes "push_file pc sha dial st agent local remote s = (Inr (len, sha256), s')" and "dial (sock_path st) = Inr (r0, w0)"
  obtains q c m rb pb kb ab rest where "follow (nodes (dx_world s)) local = Some q"
    "nodes (dx_world s) q = Some (File c m)" "len = word_of_nat (length c)" "sha256 = sha c"
    "enc_route pc (Route agent) = Inr rb" "length rb \<le> MAX_MSG"
    "enc_request pc (Push remote (and m 4095) len sha256) = Inr pb" "length pb \<le> MAX_MSG"
    "sent (dx_send s') = sent w0 @ frame rb @ frame pb @ c"
    "arriving r0 = frame kb @ frame ab @ rest" "length kb \<le> MAX_MSG" "length ab \<le> MAX_MSG" "dec_ack pc ab = Inr AckOk"
proof -
  from assms(1) obtain mode w1 line s2 t3 t4 w4 t5 r6 where
    1: "stat_and_hash sha local (dx_world s) = (Inr (mode, len, sha256), w1)" and
    2: "route pc dial st agent (s\<lparr>dx_world := w1\<rparr>) = (Inr line, s2)" and
    3: "write_msg (enc_request pc) (Push remote mode len sha256) (dx_send s2) = (Inr (), t3)" and
    4: "send_file_body local (t3, dx_world s2) = (Inr (), (t4, w4))" and
    5: "finish t4 = (Inr (), t5)" and
    6: "read_msg (dec_ack pc) (dx_recv s2) = (Inr AckOk, r6)" and
    s': "s' = s2\<lparr>dx_send := t5, dx_world := w4, dx_recv := r6\<rparr>"
    unfolding push_file_def
    by (auto simp: via_iff elim!: io_bind_InrE split: Ack.splits)
  obtain q c m where q: "follow (nodes (dx_world s)) local = Some q" "nodes (dx_world s) q = Some (File c m)"
      "mode = and m 4095" "len = word_of_nat (length c)" "sha256 = sha c" "touches {} (dx_world s) w1"
    using 1 by (rule stat_and_hash_Inr)
  obtain rb kb where r: "enc_route pc (Route agent) = Inr rb" "length rb \<le> MAX_MSG"
    "sent (dx_send s2) = sent w0 @ frame rb" "arriving r0 = frame kb @ arriving (dx_recv s2)" "length kb \<le> MAX_MSG"
    "dx_world s2 = w1"
    using 2 assms(2) by (rule route_Inr) simp
  obtain pb where p: "enc_request pc (Push remote mode len sha256) = Inr pb" "sent t3 = sent (dx_send s2) @ frame pb" "length pb \<le> MAX_MSG"
    using 3 by (rule write_msg_Inr)
  have "nodes w1 = nodes (dx_world s)" using touches_nodes [OF q(6)] by auto
  with 4 q(1,2) r(6) have "sent t4 = sent t3 @ c" by (auto elim!: send_file_body_Inr)
  moreover obtain ab where "dec_ack pc ab = Inr AckOk" "arriving (dx_recv s2) = frame ab @ arriving r6" "length ab \<le> MAX_MSG"
    using 6 by (rule read_msg_InrE)
  ultimately show thesis using that q r p finish_Inr [OF 5] s' by simp
qed

text \<open>The proxy: what follows the routing message reaches the agent, what the agent answers
  follows the routing reply, each possibly cut short and neither ever altered.\<close>

lemma route_local_carries:
  assumes "route_local pc c paths open_bi m r w = (x, (r', w'), Some (i, qr', qs'))"
    and "open_bi i = Inr (qr, qs)" and "sent w = []" and "sent qs = []"
    and "prefix (arriving r) (frame rb @ rest)" and "length rb \<le> MAX_MSG"
  shows "prefix (sent qs') rest" and "\<exists>kb. length kb \<le> MAX_MSG \<and> prefix (sent w') (frame kb @ arriving qr)"
proof -
  obtain y r1 where rd: "read_msg (dec_route pc) r = (y, r1)" by (metis prod.exhaust)
  from assms(1) rd obtain agent where y: "y = Inr (Route agent)"
    by (cases y) (auto simp: route_local_def io_context_def split: Route.splits intro: Route.exhaust)
  from assms(1) rd y obtain k where pk: "pick c m agent = Inr (k, i)"
    by (auto simp: route_local_def io_context_def split: sum.splits prod.splits)
  obtain p remote where sp: "session_path_report (paths i) = (p, remote)" by (metis prod.exhaust)
  obtain z w1 where wr: "write_msg (enc_reply pc) (RouteOk (show_key c k) p remote) w = (z, w1)" by (metis prod.exhaust)
  from rd y obtain rb' where "arriving r = frame rb' @ arriving r1" "length rb' \<le> MAX_MSG" by (auto elim: read_msg_InrE)
  with assms(5,6) have r1: "prefix (arriving r1) rest" by (metis append.assoc prefix_frame(2))
  from write_msg_prefix [OF wr] assms(3) obtain kb u where
    kb: "length kb \<le> MAX_MSG" "sent w1 = u" "prefix u (frame kb)" by auto
  show "prefix (sent qs') rest" and "\<exists>kb. length kb \<le> MAX_MSG \<and> prefix (sent w') (frame kb @ arriving qr)"
  proof -
    have "prefix (sent qs') rest \<and> (\<exists>kb. length kb \<le> MAX_MSG \<and> prefix (sent w') (frame kb @ arriving qr))"
    proof (cases z)
      case (Inl e)
      with assms(1,2) rd y pk sp wr have "w' = w1" "qs' = qs" by (auto simp: route_local_def io_context_def)
      with kb(1,2) assms(4) prefix_prefix [OF kb(3), of "arriving qr"] show ?thesis by auto
    next
      case (Inr _)
      with assms(1,2) rd y pk sp wr have spl: "splice_streams r1 w1 qr qs = ((r', w'), (qr', qs'))"
        by (auto simp: route_local_def io_context_def split: prod.splits)
      then have ow: "one_way r1 qs = (r', qs')" "one_way qr w1 = (qr', w')"
        by (auto simp: splice_streams_def split: prod.splits)
      from Inr wr assms(3) obtain kb' where kb': "sent w1 = frame kb'" "length kb' \<le> MAX_MSG"
        by (auto elim: write_msg_Inr)
      have "prefix (sent qs') (arriving r1)" using one_way_prefix [OF ow(1)] assms(4) by auto
      moreover have "prefix (sent w') (frame kb' @ arriving qr)" using one_way_prefix [OF ow(2)] kb' by auto
      ultimately show ?thesis using r1 kb' by (meson prefix_order.trans)
    qed
    then show "prefix (sent qs') rest" and "\<exists>kb. length kb \<le> MAX_MSG \<and> prefix (sent w') (frame kb @ arriving qr)" by auto
  qed
qed

text \<open>The agent: the request it acts on is the one that was sent.\<close>

lemma handle_request:
  assumes "handle pc sha tg a = (y, a')" and "postcard_laws pc" and "enc_request pc req = Inr pb" and "length pb \<le> MAX_MSG"
    and "prefix (arriving (dx_recv a)) (frame pb @ rest)" and "sent (dx_send a) = []" and "sent (dx_send a') \<noteq> []"
  obtains r1 where "prefix (arriving r1) rest" "broken r1 = broken (dx_recv a)"
    "(case req of Exec argv \<Rightarrow> via_send (agent_exec pc tg argv)
       | Push p mode len sha256 \<Rightarrow> handle_push pc sha p mode len sha256
       | Pull p \<Rightarrow> handle_pull pc sha p | Forward addr \<Rightarrow> handle_forward pc tg addr) (a\<lparr>dx_recv := r1\<rparr>) = (y, a')"
proof -
  obtain x r1 where rd: "read_msg (dec_request pc) (dx_recv a) = (x, r1)" by (metis prod.exhaust)
  show thesis
  proof (cases x)
    case (Inl e)
    with assms(1) rd have "dx_send a' = dx_send a"
      by (auto simp: handle_def io_bind_def io_context_def via_recv_def)
    with assms(6,7) show thesis by simp
  next
    case (Inr req')
    with rd obtain b where b: "dec_request pc b = Inr req'" "arriving (dx_recv a) = frame b @ arriving r1" "length b \<le> MAX_MSG"
        "broken r1 = broken (dx_recv a)"
      by (auto elim: read_msg_InrE)
    from prefix_frame [of b "arriving r1" pb rest] assms(4,5) b(2,3) have "b = pb" "prefix (arriving r1) rest" by simp_all
    moreover have "dec_request pc pb = Inr req" using assms(2,3) by (simp add: postcard_laws_def)
    ultimately show thesis
      using that b(1,4) assms(1) rd Inr by (simp add: handle_def io_bind_def io_context_def via_recv_def)
  qed
qed

lemma reply_prefix:
  assumes "io_bind (write_msg enc m) (\<lambda>_. send_ctl) s = (x, s')" and "sent s = []"
    and "prefix (frame b @ u) (sent s')" and "length b \<le> MAX_MSG"
  shows "enc m = Inr b"
proof -
  obtain y s1 where wr: "write_msg enc m s = (y, s1)" by (metis prod.exhaust)
  obtain x' s2 where ct: "send_ctl s1 = (x', s2)" by (metis prod.exhaust)
  have "sent s2 = sent s1" using send_all_sent_prefix [of "[]" s1 x' s2] ct by (auto simp: send_ctl_def)
  then have "sent s' = sent s1" using assms(1) wr ct by (auto simp: io_bind_def split: sum.splits)
  with write_msg_prefix [OF wr] assms(2,3) obtain c z where
    c: "length c \<le> MAX_MSG" "prefix z (frame c)" "z \<noteq> [] \<longrightarrow> enc m = Inr c" "prefix (frame b @ u) z" by auto
  then have "prefix (frame b @ u) (frame c @ [])" by (auto intro: prefix_order.trans)
  from prefix_frame(1) [OF this assms(4) c(1)] c(3,4) show ?thesis by auto
qed

lemma handle_push_acked:
  assumes "handle pc sha tg a = (y, a')" and "postcard_laws pc"
    and "enc_request pc (Push remote mode len sha256) = Inr pb" and "length pb \<le> MAX_MSG"
    and "prefix (arriving (dx_recv a)) (frame pb @ c)" and "sent (dx_send a) = []"
    and "prefix (frame ab @ rest) (sent (dx_send a'))" and "length ab \<le> MAX_MSG" and "dec_ack pc ab = Inr AckOk"
  obtains r1 r2 where "prefix (arriving r1) c"
    "recv_file_body sha (path_of remote) len sha256 mode (- 1) (r1, dx_world a) = (Inr (), (r2, dx_world a'))"
proof -
  have "sent (dx_send a') \<noteq> []" using assms(7) by auto
  from handle_request [OF assms(1-6) this] obtain r1 where r1: "prefix (arriving r1) c"
    and run: "handle_push pc sha remote mode len sha256 (a\<lparr>dx_recv := r1\<rparr>) = (y, a')" by auto
  obtain res r2 w2 where body: "recv_file_body sha (path_of remote) len sha256 mode (- 1) (r1, dx_world a) = (res, (r2, w2))"
    by (metis prod.exhaust)
  let ?ack = "case res of Inr _ \<Rightarrow> AckOk | Inl e \<Rightarrow> AckErr (render e)"
  obtain v t where rep: "io_bind (write_msg (enc_ack pc) ?ack) (\<lambda>_. send_ctl) (dx_send a) = (v, t)" by (metis prod.exhaust)
  from run body rep have a': "dx_send a' = t" "dx_world a' = w2"
    by (auto simp: handle_push_def reply_ack_def io_catch_def io_bind_def via_recv_world_def via_send_def split: prod.splits sum.splits)
  from reply_prefix [OF rep assms(6) _ assms(8)] assms(7) a' have "enc_ack pc ?ack = Inr ab" by auto
  then have "?ack = AckOk" using assms(2,9) by (simp add: postcard_laws_def)
  then have "res = Inr ()" by (cases res) auto
  with that r1 body a' show thesis by blast
qed

lemma send_loop_prefix:
  assumes "send_loop cs (s, w) = (x, (s', w'))"
  shows "\<exists>z. sent s' = sent s @ z \<and> prefix z (concat cs)"
  using assms
proof (induction cs arbitrary: s w)
  case Nil
  then show ?case
    by (auto simp: io_bind_def on_snd_def on_fst_def send_ctl_def split: prod.splits sum.splits dest!: send_all_sent_prefix)
next
  case (Cons b cs)
  obtain y w1 where h: "handle_call b w = (y, w1)" by (metis prod.exhaust)
  show ?case
  proof (cases y)
    case (Inl e)
    with Cons.prems h show ?thesis by (auto simp: io_bind_def on_snd_def)
  next
    case (Inr b')
    with h have b': "b' = b" by (auto simp: handle_call_def fs_call_def split: option.splits)
    obtain v s1 where wr: "send_all b s = (v, s1)" by (metis prod.exhaust)
    show ?thesis
    proof (cases v)
      case (Inl e)
      with Cons.prems h Inr b' wr have "s' = s1" by (auto simp: io_bind_def on_snd_def on_fst_def)
      with send_all_sent_prefix [OF wr] show ?thesis by auto
    next
      case (Inr u)
      with Cons.prems h \<open>y = Inr b'\<close> b' wr have "send_loop cs (s1, w1) = (x, (s', w'))"
        by (auto simp: io_bind_def on_snd_def on_fst_def)
      from Cons.IH [OF this] obtain z where "sent s' = sent s1 @ z" "prefix z (concat cs)" by blast
      with wr Inr send_all_Inr [of b s s1] show ?thesis by (intro exI [of _ "b @ z"]) auto
    qed
  qed
qed

lemma send_file_body_prefix:
  assumes "send_file_body p (s, w) = (x, (s', w'))" and "follow (nodes w) p = Some q" and "nodes w q = Some (File c m)"
  shows "\<exists>z. sent s' = sent s @ z \<and> prefix z c"
proof -
  obtain y w1 where o: "open_read p w = (y, w1)" by (metis prod.exhaust)
  show ?thesis
  proof (cases y)
    case (Inl e)
    with assms(1) o show ?thesis by (auto simp: send_file_body_def io_bind_def on_snd_def io_context_def)
  next
    case (Inr n)
    with o assms(2,3) have "n = File c m" by (auto elim: open_read_Inr)
    with assms(1) o Inr have "send_loop (chunks_of CHUNK c) (s, w1) = (x, (s', w'))"
      by (auto simp: send_file_body_def io_bind_def on_snd_def io_context_def)
    from send_loop_prefix [OF this] show ?thesis by simp
  qed
qed

lemma send_ctl_sent: "send_ctl s = (x, s') \<Longrightarrow> sent s' = sent s"
  using send_all_sent_prefix [of "[]" s x s'] by (auto simp: send_ctl_def)

lemma pull_reply_prefix:
  assumes "io_bind (via_send (write_msg enc m)) (\<lambda>_. io_bind (via_send_world (send_file_body p)) (\<lambda>_. via_send send_ctl)) a = (y, a')"
    and "sent (dx_send a) = []" and "follow (nodes (dx_world a)) p = Some q" and "nodes (dx_world a) q = Some (File c k)"
    and "prefix (frame b @ u) (sent (dx_send a'))" and "length b \<le> MAX_MSG"
  shows "enc m = Inr b" and "prefix u c"
proof -
  obtain v t1 where wr: "write_msg enc m (dx_send a) = (v, t1)" by (metis prod.exhaust)
  obtain x t2 w2 where body: "send_file_body p (t1, dx_world a) = (x, (t2, w2))" by (metis prod.exhaust)
  obtain z where z: "sent t2 = sent t1 @ z" "prefix z c" using send_file_body_prefix [OF body assms(3,4)] by blast
  have "enc m = Inr b \<and> prefix u c"
  proof (cases v)
    case (Inl e)
    with assms(1) wr have "dx_send a' = t1" by (auto simp: io_bind_def via_send_def)
    with write_msg_prefix [OF wr] assms(2,5) obtain b' where b': "length b' \<le> MAX_MSG" "prefix (frame b @ u) (frame b' @ [])"
      "enc m = Inr b'" by (auto intro: prefix_order.trans dest: prefix_order.trans)
    from prefix_frame [OF b'(2) assms(6) b'(1)] b'(3) show ?thesis by simp
  next
    case (Inr _)
    with assms(1) wr body have "sent (dx_send a') = sent t2"
      by (auto simp: io_bind_def via_send_def via_send_world_def split: sum.splits prod.splits dest: send_ctl_sent)
    moreover obtain b' where b': "enc m = Inr b'" "sent t1 = frame b'" "length b' \<le> MAX_MSG"
      using wr Inr assms(2) by (auto elim: write_msg_Inr)
    ultimately have "prefix (frame b @ u) (frame b' @ z)" using assms(5) z(1) by simp
    from prefix_frame [OF this assms(6) b'(3)] b'(1) z(2) show ?thesis by (auto intro: prefix_order.trans)
  qed
  then show "enc m = Inr b" "prefix u c" by simp_all
qed

lemma handle_pull_started:
  assumes "handle pc sha tg a = (y, a')" and "postcard_laws pc"
    and "enc_request pc (Pull remote) = Inr pb" and "length pb \<le> MAX_MSG"
    and "prefix (arriving (dx_recv a)) (frame pb)" and "sent (dx_send a) = []"
    and "prefix (frame sb @ u) (sent (dx_send a'))" and "length sb \<le> MAX_MSG" and "dec_pull pc sb = Inr ps"
  shows "case ps of
      PullOk mode len sha256 \<Rightarrow> (\<exists>q c m. follow (nodes (dx_world a)) (path_of remote) = Some q
        \<and> nodes (dx_world a) q = Some (File c m) \<and> mode = and m 4095 \<and> len = word_of_nat (length c)
        \<and> sha256 = sha c \<and> prefix u c)
    | PullMissing \<Rightarrow> (\<exists>e w. stat_and_hash sha (path_of remote) (dx_world a) = (Inl e, w) \<and> downcast_io e = Some NotFound)
    | PullErr t \<Rightarrow> True"
proof -
  have "sent (dx_send a') \<noteq> []" using assms(7) by auto
  from handle_request [OF assms(1-4) _ assms(6) this, of "[]"] assms(5) obtain r1 where
    run: "handle_pull pc sha remote (a\<lparr>dx_recv := r1\<rparr>) = (y, a')" by auto
  obtain res w1 where st: "stat_and_hash sha (path_of remote) (dx_world a) = (res, w1)" by (metis prod.exhaust)
  have dec: "dec_pull pc b = Inr m" if "enc_pull pc m = Inr b" for m b using assms(2) that by (simp add: postcard_laws_def)
  show ?thesis
  proof (cases res)
    case (Inl e)
    let ?m = "if downcast_io e = Some NotFound then PullMissing else PullErr (render e)"
    obtain v t where rep: "io_bind (write_msg (enc_pull pc) ?m) (\<lambda>_. send_ctl) (dx_send a) = (v, t)" by (metis prod.exhaust)
    from run st Inl rep have "dx_send a' = t"
      by (auto simp: handle_pull_def io_catch_def via_world_def via_send_def split: prod.splits)
    with reply_prefix [OF rep assms(6) _ assms(8)] assms(7) have "enc_pull pc ?m = Inr sb" by auto
    from dec [OF this] assms(9) st Inl show ?thesis by (auto split: if_splits)
  next
    case (Inr r)
    obtain mode len d where r: "r = (mode, len, d)" by (metis prod.exhaust)
    with st Inr obtain q c m where q: "follow (nodes (dx_world a)) (path_of remote) = Some q" "nodes (dx_world a) q = Some (File c m)"
      "mode = and m 4095" "len = word_of_nat (length c)" "d = sha c" "touches {} (dx_world a) w1"
      by (auto elim: stat_and_hash_Inr)
    have "nodes w1 = nodes (dx_world a)" using touches_nodes [OF q(6)] by auto
    moreover from run st Inr r have "io_bind (via_send (write_msg (enc_pull pc) (PullOk mode len d)))
      (\<lambda>_. io_bind (via_send_world (send_file_body (path_of remote))) (\<lambda>_. via_send send_ctl)) (a\<lparr>dx_recv := r1, dx_world := w1\<rparr>) = (y, a')"
      by (auto simp: handle_pull_def io_catch_def via_world_def)
    from pull_reply_prefix [OF this _ _ _ assms(7,8), of q c m] assms(6) q(1,2) calculation
    have "enc_pull pc (PullOk mode len d) = Inr sb" "prefix u c" by auto
    with dec assms(9) q show ?thesis by auto
  qed
qed

lemma pull_file_Inr:
  assumes "pull_file pc sha dial st agent remote local lim s = (Inr res, s')" and "dial (sock_path st) = Inr (r0, w0)"
  obtains rb pb kb sb r3 ps where "enc_route pc (Route agent) = Inr rb" "length rb \<le> MAX_MSG"
    "enc_request pc (Pull remote) = Inr pb" "length pb \<le> MAX_MSG"
    "sent (dx_send s') = sent w0 @ frame rb @ frame pb"
    "arriving r0 = frame kb @ frame sb @ arriving r3" "length kb \<le> MAX_MSG" "length sb \<le> MAX_MSG" "dec_pull pc sb = Inr ps"
    "case ps of PullOk mode len sha256 \<Rightarrow> res = Fetched len sha256
        \<and> (\<exists>r4. recv_file_body sha local len sha256 mode lim (r3, dx_world s) = (Inr (), (r4, dx_world s')))
      | PullMissing \<Rightarrow> res = Missing \<and> dx_world s' = dx_world s | PullErr t \<Rightarrow> False"
proof -
  from assms(1) obtain line s2 t3 t4 ps r5 where
    2: "route pc dial st agent s = (Inr line, s2)" and
    3: "write_msg (enc_request pc) (Pull remote) (dx_send s2) = (Inr (), t3)" and
    4: "finish t3 = (Inr (), t4)" and
    5: "read_msg (dec_pull pc) (dx_recv s2) = (Inr ps, r5)" and
    6: "(case ps of PullMissing \<Rightarrow> io_ok Missing
       | PullErr e \<Rightarrow> io_lift (Inl (Msg (fmt [''agent could not read '', remote, '': '', e])))
       | PullOk mode len sha256 \<Rightarrow>
         io_bind (via_recv_world (recv_file_body sha local len sha256 mode lim)) (\<lambda>_.
         io_ok (Fetched len sha256))) (s2\<lparr>dx_send := t4, dx_recv := r5\<rparr>) = (Inr res, s')"
    unfolding pull_file_def by (auto simp: via_iff elim!: io_bind_InrE)
  obtain rb kb where r: "enc_route pc (Route agent) = Inr rb" "length rb \<le> MAX_MSG"
    "sent (dx_send s2) = sent w0 @ frame rb" "arriving r0 = frame kb @ arriving (dx_recv s2)" "length kb \<le> MAX_MSG"
    "dx_world s2 = dx_world s"
    using 2 assms(2) by (rule route_Inr)
  obtain pb where p: "enc_request pc (Pull remote) = Inr pb" "sent t3 = sent (dx_send s2) @ frame pb" "length pb \<le> MAX_MSG"
    using 3 by (rule write_msg_Inr)
  obtain sb where b: "dec_pull pc sb = Inr ps" "arriving (dx_recv s2) = frame sb @ arriving r5" "length sb \<le> MAX_MSG"
    using 5 by (rule read_msg_InrE)
  have "sent (dx_send s') = sent t4" using 6 by (auto simp: via_iff elim!: io_bind_InrE split: PullStart.splits)
  moreover have "case ps of PullOk mode len sha256 \<Rightarrow> res = Fetched len sha256
        \<and> (\<exists>r4. recv_file_body sha local len sha256 mode lim (r5, dx_world s) = (Inr (), (r4, dx_world s')))
      | PullMissing \<Rightarrow> res = Missing \<and> dx_world s' = dx_world s | PullErr t \<Rightarrow> False"
    using 6 r(6) by (auto simp: via_iff elim!: io_bind_InrE split: PullStart.splits)
  ultimately show thesis using that [of rb pb kb sb r5 ps] r p b finish_Inr [OF 4] by simp
qed

section \<open>The whole way\<close>

text \<open>
  What lies between a command and the agent: the control socket, the proxy and the agent's
  stream.  \<open>up\<close> is what the command sent, \<open>r0\<close> what it is answered; \<open>a\<close> and \<open>a'\<close> are the agent's
  end before and after.
\<close>

definition relayed ::
  "postcard \<Rightarrow> 'k codec \<Rightarrow> (nat \<Rightarrow> conn_paths) \<Rightarrow> (nat \<Rightarrow> string + (reader \<times> sink)) \<Rightarrow> 'k session_map
    \<Rightarrow> reader \<Rightarrow> bytes \<Rightarrow> duplex \<Rightarrow> duplex \<Rightarrow> bool" where
  "relayed pc c paths open_bi m r0 up a a' \<longleftrightarrow>
     (\<exists>r w x r' w' i qr qs qr' qs'.
        route_local pc c paths open_bi m r w = (x, (r', w'), Some (i, qr', qs'))
      \<and> open_bi i = Inr (qr, qs) \<and> sent w = [] \<and> sent qs = [] \<and> sent (dx_send a) = []
      \<and> prefix (arriving r) up \<and> prefix (arriving (dx_recv a)) (sent qs')
      \<and> prefix (arriving qr) (sent (dx_send a')) \<and> prefix (arriving r0) (sent w'))"

lemma relayedE:
  assumes "relayed pc c paths open_bi m r0 (frame rb @ rest) a a'" and "length rb \<le> MAX_MSG"
    and "arriving r0 = frame kb @ answer" and "length kb \<le> MAX_MSG"
  shows "prefix (arriving (dx_recv a)) rest" and "prefix answer (sent (dx_send a'))" and "sent (dx_send a) = []"
proof -
  from assms(1) obtain r w x r' w' i qr qs qr' qs' where
    run: "route_local pc c paths open_bi m r w = (x, (r', w'), Some (i, qr', qs'))" "open_bi i = Inr (qr, qs)"
      "sent w = []" "sent qs = []" "prefix (arriving r) (frame rb @ rest)" and
    hops: "prefix (arriving (dx_recv a)) (sent qs')" "prefix (arriving qr) (sent (dx_send a'))"
      "prefix (arriving r0) (sent w')" "sent (dx_send a) = []"
    by (auto simp: relayed_def)
  note rl = route_local_carries [OF run assms(2)]
  from rl(1) hops(1) show "prefix (arriving (dx_recv a)) rest" by (rule prefix_order.trans [rotated])
  from rl(2) obtain kb' where kb': "length kb' \<le> MAX_MSG" "prefix (sent w') (frame kb' @ arriving qr)" by blast
  with hops(3) assms(3) have "prefix (frame kb @ answer) (frame kb' @ arriving qr)" by (metis prefix_order.trans)
  from prefix_frame(2) [OF this assms(4) kb'(1)] hops(2) show "prefix answer (sent (dx_send a'))" by (rule prefix_order.trans)
  show "sent (dx_send a) = []" by (rule hops(4))
qed

lemma stat_and_hash_NotFound:
  assumes "stat_and_hash sha p w = (Inl e, w')" and "downcast_io e = Some NotFound" and "calm w"
  shows "\<exists>q. follow (nodes w) p = Some q \<and> nodes w q = None"
proof (rule ccontr)
  assume none: "\<not> ?thesis"
  obtain x w1 where o: "open_read p w = (x, w1)" by (metis prod.exhaust)
  show False
  proof (cases x)
    case (Inl e')
    with assms o have "downcast_io e' = Some NotFound" by (auto simp: stat_and_hash_def io_bind_def io_context_def)
    with o Inl none assms(3) show False
      by (auto simp: open_read_def fs_call_calm eloop_def enxio_def enoent_def split: option.splits node.splits)
  next
    case (Inr n)
    show False
    proof (cases n)
      case (File c m)
      with o Inr obtain q where "follow (nodes w) p = Some q" "nodes w q = Some (File c m)" by (auto elim: open_read_Inr)
      from stat_and_hash_calm [OF assms(3) this, of sha] assms(1) show False by auto
    qed (use assms o Inr in \<open>auto simp: stat_and_hash_def io_bind_def io_context_def handle_call_def fs_call_def
          open_read_def split: option.splits\<close>)
  qed
qed

lemma push_delivers:
  assumes "postcard_laws pc"
    and push: "push_file pc sha dial st agent local remote s = (Inr (len, sha256), s')"
    and "dial (sock_path st) = Inr (r0, w0)" and "sent w0 = []"
    and "handle pc sha tg a = (y, a')"
    and "relayed pc c paths open_bi m r0 (sent (dx_send s')) a a'"
    and small: "\<And>q b k. follow (nodes (dx_world s)) local = Some q \<Longrightarrow> nodes (dx_world s) q = Some (File b k)
      \<Longrightarrow> length b + CHUNK < 18446744073709551616"
  shows "\<exists>q b k. follow (nodes (dx_world s)) local = Some q \<and> nodes (dx_world s) q = Some (File b k)
    \<and> nodes (dx_world a') (path_of remote) = Some (File b (and k 4095)) \<and> sha256 = sha b"
proof -
  obtain q b k rb pb kb ab rest where
    src: "follow (nodes (dx_world s)) local = Some q" "nodes (dx_world s) q = Some (File b k)"
      "len = word_of_nat (length b)" "sha256 = sha b" and
    up: "enc_route pc (Route agent) = Inr rb" "length rb \<le> MAX_MSG"
      "enc_request pc (Push remote (and k 4095) len sha256) = Inr pb" "length pb \<le> MAX_MSG"
      "sent (dx_send s') = sent w0 @ frame rb @ frame pb @ b" and
    down: "arriving r0 = frame kb @ frame ab @ rest" "length kb \<le> MAX_MSG" "length ab \<le> MAX_MSG" "dec_ack pc ab = Inr AckOk"
    using push assms(3) by (rule push_file_Inr)
  have "relayed pc c paths open_bi m r0 (frame rb @ frame pb @ b) a a'" using assms(4,6) up(5) by simp
  note hops = relayedE [OF this up(2) down(1,2)]
  obtain r1 r2 where r1: "prefix (arriving r1) b"
    and body: "recv_file_body sha (path_of remote) len sha256 (and k 4095) (- 1) (r1, dx_world a) = (Inr (), (r2, dx_world a'))"
    using assms(5,1) up(3,4) hops(1,3,2) down(3,4) by (rule handle_push_acked)
  have l: "unat len = length b" using small [OF src(1,2)] src(3) by (simp add: unat_u64_of_nat)
  then have "unat len + CHUNK < 18446744073709551616" using small [OF src(1,2)] by simp
  from recv_file_body_Inr [OF body this] have
    t: "nodes (dx_world a') (path_of remote) = Some (File (arriving r1) (and (and k 4095) 4095))" "length (arriving r1) = length b"
    by (simp_all add: l)
  from r1 t(2) have "arriving r1 = b" by (auto simp: prefix_def)
  with t(1) src show ?thesis by (auto simp: and.assoc)
qed

lemma pull_fetches:
  assumes "postcard_laws pc"
    and pull: "pull_file pc sha dial st agent remote local lim s = (Inr (Fetched len sha256), s')"
    and "dial (sock_path st) = Inr (r0, w0)" and "sent w0 = []"
    and "handle pc sha tg a = (y, a')"
    and "relayed pc c paths open_bi m r0 (sent (dx_send s')) a a'"
    and small: "\<And>q b k. follow (nodes (dx_world a)) (path_of remote) = Some q \<Longrightarrow> nodes (dx_world a) q = Some (File b k)
      \<Longrightarrow> length b + CHUNK < 18446744073709551616"
  shows "\<exists>q b k. follow (nodes (dx_world a)) (path_of remote) = Some q \<and> nodes (dx_world a) q = Some (File b k)
    \<and> nodes (dx_world s') local = Some (File b (and k 4095)) \<and> length b \<le> unat lim"
proof -
  obtain rb pb kb sb r3 ps where up: "enc_route pc (Route agent) = Inr rb" "length rb \<le> MAX_MSG"
      "enc_request pc (Pull remote) = Inr pb" "length pb \<le> MAX_MSG" "sent (dx_send s') = sent w0 @ frame rb @ frame pb" and
    down: "arriving r0 = frame kb @ frame sb @ arriving r3" "length kb \<le> MAX_MSG" "length sb \<le> MAX_MSG" "dec_pull pc sb = Inr ps" and
    res: "case ps of PullOk mode n d \<Rightarrow> Fetched len sha256 = Fetched n d
        \<and> (\<exists>r4. recv_file_body sha local n d mode lim (r3, dx_world s) = (Inr (), (r4, dx_world s')))
      | PullMissing \<Rightarrow> Fetched len sha256 = Missing \<and> dx_world s' = dx_world s | PullErr t \<Rightarrow> False"
    using pull assms(3) by (rule pull_file_Inr)
  have "relayed pc c paths open_bi m r0 (frame rb @ frame pb) a a'" using assms(4,6) up(5) by simp
  note hops = relayedE [OF this up(2) down(1,2)]
  from res obtain mode r4 where ps: "ps = PullOk mode len sha256"
    and body: "recv_file_body sha local len sha256 mode lim (r3, dx_world s) = (Inr (), (r4, dx_world s'))"
    by (auto split: PullStart.splits)
  from handle_pull_started [OF assms(5,1) up(3,4) hops(1,3,2) down(3,4)] ps obtain q b k where
    src: "follow (nodes (dx_world a)) (path_of remote) = Some q" "nodes (dx_world a) q = Some (File b k)"
      "mode = and k 4095" "len = word_of_nat (length b)" "prefix (arriving r3) b" by auto
  have l: "unat len = length b" using small [OF src(1,2)] src(4) by (simp add: unat_u64_of_nat)
  then have "unat len + CHUNK < 18446744073709551616" using small [OF src(1,2)] by simp
  from recv_file_body_Inr [OF body this] have
    t: "nodes (dx_world s') local = Some (File (arriving r3) (and mode 4095))" "length (arriving r3) = length b" "length b \<le> unat lim"
    by (simp_all add: l [symmetric] word_le_nat_alt)
  from src(5) t(2) have "arriving r3 = b" by (auto simp: prefix_def)
  with t src(1-3) show ?thesis by (auto simp: and.assoc)
qed

lemma pull_absent:
  assumes "postcard_laws pc"
    and pull: "pull_file pc sha dial st agent remote local lim s = (Inr Missing, s')"
    and "dial (sock_path st) = Inr (r0, w0)" and "sent w0 = []"
    and "handle pc sha tg a = (y, a')"
    and "relayed pc c paths open_bi m r0 (sent (dx_send s')) a a'"
    and "calm (dx_world a)"
  shows "(\<exists>q. follow (nodes (dx_world a)) (path_of remote) = Some q \<and> nodes (dx_world a) q = None)
    \<and> dx_world s' = dx_world s"
proof -
  obtain rb pb kb sb r3 ps where up: "enc_route pc (Route agent) = Inr rb" "length rb \<le> MAX_MSG"
      "enc_request pc (Pull remote) = Inr pb" "length pb \<le> MAX_MSG" "sent (dx_send s') = sent w0 @ frame rb @ frame pb" and
    down: "arriving r0 = frame kb @ frame sb @ arriving r3" "length kb \<le> MAX_MSG" "length sb \<le> MAX_MSG" "dec_pull pc sb = Inr ps" and
    res: "case ps of PullOk mode n d \<Rightarrow> Missing = Fetched n d
        \<and> (\<exists>r4. recv_file_body sha local n d mode lim (r3, dx_world s) = (Inr (), (r4, dx_world s')))
      | PullMissing \<Rightarrow> Missing = Missing \<and> dx_world s' = dx_world s | PullErr t \<Rightarrow> False"
    using pull assms(3) by (rule pull_file_Inr)
  have "relayed pc c paths open_bi m r0 (frame rb @ frame pb) a a'" using assms(4,6) up(5) by simp
  note hops = relayedE [OF this up(2) down(1,2)]
  from res have ps: "ps = PullMissing" "dx_world s' = dx_world s" by (auto split: PullStart.splits)
  from handle_pull_started [OF assms(5,1) up(3,4) hops(1,3,2) down(3,4)] ps(1) obtain e w where
    "stat_and_hash sha (path_of remote) (dx_world a) = (Inl e, w)" "downcast_io e = Some NotFound" by auto
  from stat_and_hash_NotFound [OF this assms(7)] ps(2) show ?thesis by simp
qed

section \<open>A command, the whole way\<close>

lemma exec_turn_Inr:
  assumes "exec_turn lim f (c, t, got) s = (Inr (c', t', got'), s')"
  shows "c' = exit_of c [f] \<and> sent (out s') = sent (out s) @ stdout_of [f] \<and> sent (err s') = sent (err s) @ stderr_of [f]"
proof -
  from assms have "exec_frame f (c, t) s = (Inr (c', t'), s')"
    by (auto simp: exec_turn_def elim!: io_bind_InrE split: prod.splits sum.splits)
  then show ?thesis
  proof (cases f)
    case (Stdout b)
    with \<open>exec_frame f (c, t) s = (Inr (c', t'), s')\<close> have "write_out b s = (Inr (), s')" "c' = c"
      by (auto elim!: io_bind_InrE)
    with write_out_Inr [OF this(1)] Stdout show ?thesis by simp
  next
    case (Stderr b)
    with \<open>exec_frame f (c, t) s = (Inr (c', t'), s')\<close> have "write_err b s = (Inr (), s')" "c' = c"
      by (auto elim!: io_bind_InrE)
    with write_err_Inr [OF this(1)] Stderr show ?thesis by simp
  qed auto
qed

text \<open>A stream of frames that was cut somewhere: what was made of it is what its whole frames say.\<close>

lemma exec_loop_cut:
  assumes "exec_loop unpack lim (c, t, got) r s = (Inr (c', t', got'), r', s')" and "prefix (arriving r) (frames_wire enc fs)"
    and "\<And>f. f \<in> set fs \<Longrightarrow> unpack (enc f) = Inr f \<and> length (enc f) \<le> MAX_MSG"
  shows "\<exists>gs hs. fs = gs @ hs \<and> c' = exit_of c gs \<and> sent (out s') = sent (out s) @ stdout_of gs \<and> sent (err s') = sent (err s) @ stderr_of gs"
  using assms
proof (induction fs arbitrary: c t got r s)
  case Nil
  from Nil.prems(1) show ?case
  proof (cases rule: exec_loop_cases)
    case (more frame acc1 r1 s1)
    from more(1) Nil.prems(2) show ?thesis by (auto simp: frames_wire_def elim!: read_msg_opt_SomeE)
  qed auto
next
  case (Cons f fs)
  from Cons.prems(1) show ?case
  proof (cases rule: exec_loop_cases)
    case (more g acc1 r1 s1)
    obtain b where b: "unpack b = Inr g" "arriving r = msg_header b @ b @ arriving r1" "length b \<le> MAX_MSG"
      using more(1) by (rule read_msg_opt_SomeE)
    have p: "prefix ((msg_header b @ b) @ arriving r1) ((msg_header (enc f) @ enc f) @ frames_wire enc fs)"
      using Cons.prems(2) b(2) by (simp add: frames_wire_def)
    have f: "unpack (enc f) = Inr f" "length (enc f) \<le> MAX_MSG" using Cons.prems(3) by auto
    have "b = enc f" and p1: "prefix (arriving r1) (frames_wire enc fs)" using prefix_frame [OF p b(3) f(2)] by auto
    with b(1) f(1) have g: "g = f" by simp
    obtain c1 t1 got1 where acc1: "acc1 = (c1, t1, got1)" by (cases acc1)
    have turn: "c1 = exit_of c [f] \<and> sent (out s1) = sent (out s) @ stdout_of [f] \<and> sent (err s1) = sent (err s) @ stderr_of [f]"
      by (rule exec_turn_Inr [OF more(2) [unfolded acc1 g]])
    from Cons.IH [OF more(3) [unfolded acc1] p1] Cons.prems(3) obtain gs hs where
      "fs = gs @ hs" "c' = exit_of c1 gs" "sent (out s') = sent (out s1) @ stdout_of gs" "sent (err s') = sent (err s1) @ stderr_of gs"
      by auto
    with turn show ?thesis by (intro exI [of _ "f # gs"] exI [of _ hs]) auto
  qed (auto intro: exI [of _ "[]"])
qed

lemma recv_exec_output_cut:
  assumes "recv_exec_output unpack lim (r, s) = (Inr code, (r', s'))" and "prefix (arriving r) (frames_wire enc fs)"
    and "\<And>f. f \<in> set fs \<Longrightarrow> unpack (enc f) = Inr f \<and> length (enc f) \<le> MAX_MSG"
  shows "\<exists>gs hs. fs = gs @ hs \<and> exit_of None gs = Some code \<and> sent (out s') = sent (out s) @ stdout_of gs
    \<and> sent (err s') = sent (err s) @ stderr_of gs"
proof -
  from assms(1) obtain c t got r1 s1 where loop: "exec_loop unpack lim (None, False, 0) r s = (Inr (c, t, got), r1, s1)"
    and close: "exec_close (c, t, got) s1 = (Inr code, s')"
    by (auto simp: recv_exec_output_def on_snd_def elim!: io_bind_InrE split: prod.splits)
  from close have "c = Some code" "sent (out s') = sent (out s1)" "sent (err s') = sent (err s1)"
    by (auto simp: exec_close_def ok_or_def split: if_splits option.splits elim!: io_bind_InrE dest!: write_out_Inr write_err_Inr)
  with exec_loop_cut [OF loop assms(2,3)] show ?thesis by metis
qed

lemma exec_into_Inr:
  assumes "exec_into pc dial st agent argv lim (s, t) = (Inr code, (s', t'))" and "dial (sock_path st) = Inr (r0, w0)"
  obtains rb pb kb r1 r2 where "enc_route pc (Route agent) = Inr rb" "length rb \<le> MAX_MSG"
    "enc_request pc (Exec argv) = Inr pb" "length pb \<le> MAX_MSG" "sent (dx_send s') = sent w0 @ frame rb @ frame pb"
    "arriving r0 = frame kb @ arriving r1" "length kb \<le> MAX_MSG"
    "recv_exec_output (dec_frame pc) lim (r1, t) = (Inr code, (r2, t'))"
proof -
  from assms(1) obtain line s2 t3 t4 r5 where
    2: "route pc dial st agent s = (Inr line, s2)" and
    3: "write_msg (enc_request pc) (Exec argv) (dx_send s2) = (Inr (), t3)" and
    4: "finish t3 = (Inr (), t4)" and
    5: "recv_exec_output (dec_frame pc) lim (dx_recv s2, t) = (Inr code, (r5, t'))" and
    s': "s' = s2\<lparr>dx_send := t4, dx_recv := r5\<rparr>"
    unfolding exec_into_def
    by (auto simp: via_iff on_fst_def via_output_def elim!: io_bind_InrE split: prod.splits)
  obtain rb kb where r: "enc_route pc (Route agent) = Inr rb" "length rb \<le> MAX_MSG"
    "sent (dx_send s2) = sent w0 @ frame rb" "arriving r0 = frame kb @ arriving (dx_recv s2)" "length kb \<le> MAX_MSG"
    using 2 assms(2) by (rule route_Inr)
  obtain pb where p: "enc_request pc (Exec argv) = Inr pb" "sent t3 = sent (dx_send s2) @ frame pb" "length pb \<le> MAX_MSG"
    using 3 by (rule write_msg_Inr)
  from that r p finish_Inr [OF 4] 5 s' show thesis by simp
qed

lemma exit_of_cut:
  assumes "exec_frames ch @ [Exit e] = gs @ hs" and "exit_of None gs = Some code"
  shows "hs = [] \<and> code = e"
proof -
  have none: "exit_of None fs = None" if "set fs \<subseteq> set (exec_frames ch)" for fs
    using that exec_frames_output [of _ ch] by (intro exit_of_output) blast
  show ?thesis
  proof (cases hs rule: rev_cases)
    case Nil
    with assms none [of "exec_frames ch"] show ?thesis by (auto simp: output_of_append dest: sym)
  next
    case (snoc hs' h)
    with assms(1) have "exec_frames ch = gs @ hs'" by simp
    with none [of gs] assms(2) show ?thesis by simp
  qed
qed

lemma handle_exec_sent:
  assumes "handle pc sha tg a = (y, a')" and "postcard_laws pc"
    and "enc_request pc (Exec (program # args)) = Inr pb" and "length pb \<le> MAX_MSG"
    and "prefix (arriving (dx_recv a)) (frame pb)" and "sent (dx_send a) = []" and "sent (dx_send a') \<noteq> []"
    and "tg_spawn tg program args = Inr ch" and "whole_run ch status" and "healthy (dx_send a)"
    and fits: "\<And>f. f \<in> set (exec_frames ch) \<union> {Exit (exit_code status)} \<Longrightarrow>
      enc_frame pc f = Inr (pack f) \<and> length (pack f) \<le> MAX_MSG"
  shows "\<exists>fs. fs = exec_frames ch @ [Exit (exit_code status)] \<and> sent (dx_send a') = frames_wire pack fs
    \<and> stdout_of fs = arriving (ch_stdout ch) \<and> stderr_of fs = arriving (ch_stderr ch)"
proof -
  from handle_request [OF assms(1-4) _ assms(6,7), of "[]"] assms(5) obtain r1 where
    run: "via_send (agent_exec pc tg (program # args)) (a\<lparr>dx_recv := r1\<rparr>) = (y, a')" by auto
  from agent_exec_stream [OF assms(8-10) fits] obtain s' fs where
    s': "agent_exec pc tg (program # args) (dx_send a) = (Inr (), s')" "sent s' = sent (dx_send a) @ frames_wire pack fs" and
    fs: "fs = exec_frames ch @ [Exit (exit_code status)]" "stdout_of fs = arriving (ch_stdout ch)" "stderr_of fs = arriving (ch_stderr ch)"
    by blast
  from run s' assms(6) have "sent (dx_send a') = frames_wire pack fs" by (auto simp: via_send_def)
  with fs show ?thesis by blast
qed

lemma exec_reports:
  assumes "postcard_laws pc"
    and run: "exec_into pc dial st agent (program # args) lim (s, t) = (Inr code, (s', t'))"
    and "dial (sock_path st) = Inr (r0, w0)" and "sent w0 = []"
    and "handle pc sha tg a = (y, a')"
    and "relayed pc c paths open_bi m r0 (sent (dx_send s')) a a'"
    and "tg_spawn tg program args = Inr ch" and "whole_run ch status" and "healthy (dx_send a)"
    and fits: "\<And>f. f \<in> set (exec_frames ch) \<union> {Exit (exit_code status)} \<Longrightarrow>
      enc_frame pc f = Inr (pack f) \<and> length (pack f) \<le> MAX_MSG"
  shows "code = exit_code status \<and> sent (out t') = sent (out t) @ arriving (ch_stdout ch)
    \<and> sent (err t') = sent (err t) @ arriving (ch_stderr ch)"
proof -
  obtain rb pb kb r1 r2 where up: "enc_route pc (Route agent) = Inr rb" "length rb \<le> MAX_MSG"
      "enc_request pc (Exec (program # args)) = Inr pb" "length pb \<le> MAX_MSG" "sent (dx_send s') = sent w0 @ frame rb @ frame pb" and
    down: "arriving r0 = frame kb @ arriving r1" "length kb \<le> MAX_MSG"
      "recv_exec_output (dec_frame pc) lim (r1, t) = (Inr code, (r2, t'))"
    using run assms(3) by (rule exec_into_Inr)
  have "relayed pc c paths open_bi m r0 (frame rb @ frame pb) a a'" using assms(4,6) up(5) by simp
  note hops = relayedE [OF this up(2) down(1,2)]
  have "sent (dx_send a') \<noteq> []"
  proof
    assume "sent (dx_send a') = []"
    with hops(2) recv_exec_output_cut [OF down(3), of pack "[]"] show False by (auto simp: frames_wire_def)
  qed
  from handle_exec_sent [OF assms(5,1) up(3,4) hops(1,3) this assms(7-9) fits] obtain fs where
    fs: "fs = exec_frames ch @ [Exit (exit_code status)]" and wire: "sent (dx_send a') = frames_wire pack fs" and
    whole: "stdout_of fs = arriving (ch_stdout ch)" "stderr_of fs = arriving (ch_stderr ch)" by blast
  have dec: "dec_frame pc (pack f) = Inr f \<and> length (pack f) \<le> MAX_MSG" if "f \<in> set fs" for f
    using that fits [of f] assms(1) by (auto simp: postcard_laws_def fs)
  from recv_exec_output_cut [OF down(3) hops(2) [unfolded wire] dec] obtain gs hs where
    cut: "fs = gs @ hs" "exit_of None gs = Some code" "sent (out t') = sent (out t) @ stdout_of gs"
      "sent (err t') = sent (err t) @ stderr_of gs" by blast
  from exit_of_cut [OF cut(1) [unfolded fs] cut(2)] cut whole show ?thesis by simp
qed

section \<open>When nothing fails\<close>

lemma write_msg_ok:
  assumes "enc m = Inr b" and "length b \<le> MAX_MSG" and "healthy s"
  obtains s' where "write_msg enc m s = (Inr (), s')" "healthy s'" "sent s' = sent s @ frame b"
proof -
  obtain s' where "write_msg Inr b s = (Inr (), s')" "healthy s'" using write_frame_accepts [OF assms(2,3)] by blast
  with assms(1) write_frame_Inr(1) [of b s s'] that show thesis by (simp add: write_msg_via_frames [of enc])
qed

lemma read_msg_ok:
  assumes "unpack b = Inr m" and "length b \<le> MAX_MSG" and "arriving r = frame b @ rest"
  obtains r' where "read_msg unpack r = (Inr m, r')" "arriving r' = rest" "broken r' = broken r"
  using read_msg_accepts [of unpack b m r rest] assms by auto

lemma finish_ok:
  assumes "healthy s"
  obtains s' where "finish s = (Inr (), s')" "healthy s'" "sent s' = sent s"
proof -
  obtain s1 where 1: "send_ctl s = (Inr (), s1)" "healthy s1" "sent s1 = sent s" using assms by (rule send_ctl_healthy)
  obtain s2 where "send_ctl s1 = (Inr (), s2)" "healthy s2" "sent s2 = sent s1" using 1(2) by (rule send_ctl_healthy)
  with 1 that show thesis by (simp add: finish_def io_bind_def)
qed

lemma send_loop_ok:
  assumes "calm w" and "healthy s"
  shows "\<exists>s' w'. send_loop cs (s, w) = (Inr (), (s', w')) \<and> healthy s' \<and> calm w'"
  using assms
proof (induction cs arbitrary: s w)
  case Nil
  obtain s1 where "send_ctl s = (Inr (), s1)" "healthy s1" using Nil(2) by (rule send_ctl_healthy)
  with Nil show ?case by (simp add: io_bind_def on_snd_def on_fst_def handle_call_calm)
next
  case (Cons b cs)
  obtain s1 where "send_all b s = (Inr (), s1)" "healthy s1" using Cons.prems(2) by (rule send_all_healthy)
  with Cons.prems Cons.IH [of "next_tick w" s1] show ?case by (simp add: io_bind_def on_snd_def on_fst_def handle_call_calm)
qed

lemma send_file_body_ok:
  assumes "calm w" and "healthy s" and "follow (nodes w) p = Some q" and "nodes w q = Some (File c m)"
  obtains s' w' where "send_file_body p (s, w) = (Inr (), (s', w'))" "healthy s'" "calm w'" "sent s' = sent s @ c" "touches {} w w'"
proof -
  obtain s' w' where run: "send_loop (chunks_of CHUNK c) (s, next_tick w) = (Inr (), (s', w'))" "healthy s'" "calm w'"
    using send_loop_ok [of "next_tick w" s "chunks_of CHUNK c"] assms(1,2) by auto
  have "open_read p w = (Inr (File c m), next_tick w)" using assms by (simp add: open_read_def fs_call_calm)
  moreover have "touches {} w w'" using send_loop_Inr [OF run(1)] touches_trans [OF touches_next_tick] by blast
  ultimately show thesis using run send_loop_Inr [OF run(1)] that
    by (simp add: send_file_body_def io_bind_def on_snd_def io_context_def)
qed

lemma route_ok:
  assumes "dial (sock_path st) = Inr (r0, w0)" and "enc_route pc (Route agent) = Inr rb" and "length rb \<le> MAX_MSG"
    and "healthy w0" and "dec_reply pc kb = Inr (RouteOk k p t)" and "length kb \<le> MAX_MSG" and "arriving r0 = frame kb @ rest"
  obtains line s' where "route pc dial st agent s = (Inr line, s')" "healthy (dx_send s')" "sent (dx_send s') = sent w0 @ frame rb"
    "arriving (dx_recv s') = rest" "broken (dx_recv s') = broken r0" "dx_world s' = dx_world s"
proof -
  obtain w1 where w1: "write_msg (enc_route pc) (Route agent) w0 = (Inr (), w1)" "healthy w1" "sent w1 = sent w0 @ frame rb"
    using assms(2-4) by (rule write_msg_ok)
  obtain r where r: "read_msg (dec_reply pc) r0 = (Inr (RouteOk k p t), r)" "arriving r = rest" "broken r = broken r0"
    using assms(5-7) by (rule read_msg_ok)
  obtain line where "route pc dial st agent s = (Inr line, s\<lparr>dx_recv := r, dx_send := w1\<rparr>)"
    using w1(1) r(1) assms(1) by (simp add: route_def io_bind_def via_send_def via_recv_def)
  with that w1 r show thesis by auto
qed

lemma push_file_ok:
  assumes "calm (dx_world s)" and "follow (nodes (dx_world s)) local = Some q" and "nodes (dx_world s) q = Some (File c m)"
    and "dial (sock_path st) = Inr (r0, w0)" and "enc_route pc (Route agent) = Inr rb" and "length rb \<le> MAX_MSG"
    and "healthy w0" and "dec_reply pc kb = Inr (RouteOk k p t)" and "length kb \<le> MAX_MSG"
    and "enc_request pc (Push remote (and m 4095) (word_of_nat (length c)) (sha c)) = Inr pb" and "length pb \<le> MAX_MSG"
    and "dec_ack pc ab = Inr AckOk" and "length ab \<le> MAX_MSG" and "arriving r0 = frame kb @ frame ab"
  obtains s' where "push_file pc sha dial st agent local remote s = (Inr (word_of_nat (length c), sha c), s')"
    "sent (dx_send s') = sent w0 @ frame rb @ frame pb @ c" "calm (dx_world s')" "touches {} (dx_world s) (dx_world s')"
proof -
  obtain w1 where 1: "stat_and_hash sha local (dx_world s) = (Inr (and m 4095, word_of_nat (length c), sha c), w1)"
      "calm w1" "touches {} (dx_world s) w1"
    using stat_and_hash_calm [OF assms(1-3)] by blast
  have n1: "nodes w1 = nodes (dx_world s)" using touches_nodes [OF 1(3)] by auto
  obtain line s2 where 2: "route pc dial st agent (s\<lparr>dx_world := w1\<rparr>) = (Inr line, s2)" "healthy (dx_send s2)"
      "sent (dx_send s2) = sent w0 @ frame rb" "arriving (dx_recv s2) = frame ab" "dx_world s2 = w1"
    using assms(4-9,14) by (rule route_ok [where s = "s\<lparr>dx_world := w1\<rparr>"]) simp
  obtain t3 where 3: "write_msg (enc_request pc) (Push remote (and m 4095) (word_of_nat (length c)) (sha c)) (dx_send s2) = (Inr (), t3)"
      "healthy t3" "sent t3 = sent (dx_send s2) @ frame pb"
    using assms(10,11) 2(2) by (rule write_msg_ok)
  obtain t4 w4 where 4: "send_file_body local (t3, w1) = (Inr (), (t4, w4))" "healthy t4" "sent t4 = sent t3 @ c" "calm w4"
      "touches {} w1 w4"
    using 1(2) 3(2) assms(2,3) unfolding n1 [symmetric] by (rule send_file_body_ok)
  obtain t5 where 5: "finish t4 = (Inr (), t5)" "sent t5 = sent t4" using 4(2) by (rule finish_ok)
  obtain r6 where 6: "read_msg (dec_ack pc) (dx_recv s2) = (Inr AckOk, r6)"
    using read_msg_ok [of "dec_ack pc" ab AckOk "dx_recv s2" "[]"] assms(12,13) 2(4) by auto
  have "push_file pc sha dial st agent local remote s
      = (Inr (word_of_nat (length c), sha c), s2\<lparr>dx_send := t5, dx_world := w4, dx_recv := r6\<rparr>)"
    using 1(1) 2(1,5) 3(1) 4(1) 5(1) 6
    by (simp add: push_file_def io_bind_def via_world_def via_send_def via_recv_def via_send_world_def)
  moreover have "touches {} (dx_world s) w4" using 1(3) 4(5) by (rule touches_trans)
  ultimately show thesis using that 2(3) 3(3) 4(3,4) 5(2) by simp
qed

lemma handle_push_ok:
  assumes "arriving (dx_recv a) = frame pb @ c" and "broken (dx_recv a) = None" and "dec_request pc pb = Inr (Push remote mode len (sha c))"
    and "length pb \<le> MAX_MSG" and "\<And>r. arriving r = c \<Longrightarrow> broken r = None \<Longrightarrow>
      \<exists>r' w'. recv_file_body sha (path_of remote) len (sha c) mode (- 1) (r, dx_world a) = (Inr (), (r', w'))"
    and "enc_ack pc AckOk = Inr ab" and "length ab \<le> MAX_MSG" and "healthy (dx_send a)"
  obtains a' where "handle pc sha tg a = (Inr (), a')" "sent (dx_send a') = sent (dx_send a) @ frame ab"
proof -
  obtain r1 where 1: "read_msg (dec_request pc) (dx_recv a) = (Inr (Push remote mode len (sha c)), r1)" "arriving r1 = c" "broken r1 = None"
    using read_msg_ok [of "dec_request pc" pb _ "dx_recv a" c] assms(1-4) by auto
  from assms(5) [OF 1(2,3)] obtain r2 w2 where
    2: "recv_file_body sha (path_of remote) len (sha c) mode (- 1) (r1, dx_world a) = (Inr (), (r2, w2))" by blast
  obtain t3 where 3: "write_msg (enc_ack pc) AckOk (dx_send a) = (Inr (), t3)" "healthy t3" "sent t3 = sent (dx_send a) @ frame ab"
    using assms(6-8) by (rule write_msg_ok)
  obtain t4 where 4: "send_ctl t3 = (Inr (), t4)" "sent t4 = sent t3" using 3(2) by (rule send_ctl_healthy)
  have "handle pc sha tg a = (Inr (), a\<lparr>dx_recv := r2, dx_world := w2, dx_send := t4\<rparr>)"
    using 1(1) 2 3(1) 4(1)
    by (simp add: handle_def handle_push_def reply_ack_def io_bind_def io_context_def io_catch_def via_recv_def via_recv_world_def via_send_def)
  with that 3(3) 4(2) show thesis by simp
qed

lemma route_local_ok:
  assumes "arriving r = frame rb @ rest" and "broken r = None" and "dec_route pc rb = Inr (Route agent)" and "length rb \<le> MAX_MSG"
    and "pick c m agent = Inr (k, i)" and "session_path_report (paths i) = (p, remote)" and "open_bi i = Inr (qr, qs)"
    and "enc_reply pc (RouteOk (show_key c k) p remote) = Inr kb" and "length kb \<le> MAX_MSG" and "healthy w" and "healthy qs"
    and "broken qr = None"
  obtains r' w' qr' qs' where "route_local pc c paths open_bi m r w = (Inr (), (r', w'), Some (i, qr', qs'))"
    "sent qs' = sent qs @ rest" "sent w' = sent w @ frame kb @ arriving qr"
proof -
  obtain r1 where 1: "read_msg (dec_route pc) r = (Inr (Route agent), r1)" "arriving r1 = rest" "broken r1 = None"
    using read_msg_ok [of "dec_route pc" rb _ r rest] assms(1-4) by auto
  obtain w1 where 2: "write_msg (enc_reply pc) (RouteOk (show_key c k) p remote) w = (Inr (), w1)" "healthy w1" "sent w1 = sent w @ frame kb"
    using assms(8-10) by (rule write_msg_ok)
  obtain r2 qs2 where 3: "one_way r1 qs = (r2, qs2)" by (metis prod.exhaust)
  obtain qr2 w2 where 4: "one_way qr w1 = (qr2, w2)" by (metis prod.exhaust)
  have "sent qs2 = sent qs @ rest" using one_way_whole [OF assms(11) 1(3)] 3 1(2) by simp
  moreover have "sent w2 = sent w @ frame kb @ arriving qr" using one_way_whole [OF 2(2) assms(12)] 4 2(3) by simp
  moreover have "route_local pc c paths open_bi m r w = (Inr (), (r2, w2), Some (i, qr2, qs2))"
    using 1(1) 2(1) 3 4 assms(5-7) by (simp add: route_local_def io_context_def splice_streams_def)
  ultimately show thesis using that by blast
qed

text \<open>A push of one byte, to the one connected agent.\<close>

abbreviation demo_frame :: bytes where "demo_frame \<equiv> [1, 0, 0, 0, 0]"

lemma demo_frame: "frame [0] = demo_frame"
  by (simp add: msg_header_def u32_to_le_def)

definition demo_disk :: world where
  "demo_disk = blank_world\<lparr>nodes := [[Normal ''l''] \<mapsto> File [7] 420]\<rparr>"

lemma demo_disk_file: "calm demo_disk" "follow (nodes demo_disk) [Normal ''l''] = Some [Normal ''l'']"
    "nodes demo_disk [Normal ''l''] = Some (File [7] 420)"
  using follow_self [of "nodes demo_disk" "[Normal ''l'']"] by (simp_all add: demo_disk_def calm_def)

lemma demo_pick:
  "pick two_keys [(True, \<lparr>s_conn = 4, s_id = 4, s_since = 0\<rparr>)] ''any'' = Inr (True, 4)"
proof -
  have "to_lowercase (trim ''any'') = ''any''" by code_simp
  then show ?thesis by (simp add: pick_def matches_def)
qed

abbreviation no_target :: target where
  "no_target \<equiv> \<lparr>tg_spawn = (\<lambda>_ _. Inl ''no''), tg_connect = (\<lambda>_. Inl ''no'')\<rparr>"

lemma demo_relayed:
  assumes "dec_route pc [0] = Inr (Route ''any'')" and "enc_reply pc (RouteOk ''t'' Unknown ''no open path'') = Inr [0]"
    and "arriving (dx_recv a) = rest" and "sent (dx_send a') = answer" and "sent (dx_send a) = []"
  shows "relayed pc two_keys (\<lambda>_. []) (\<lambda>_. Inr (reader_of answer, fresh_sink)) [(True, \<lparr>s_conn = 4, s_id = 4, s_since = 0\<rparr>)]
        (reader_of (demo_frame @ answer)) (demo_frame @ rest) a a'"
proof -
  have t: "show_key two_keys True = ''t''" by (simp add: two_keys_def)
  obtain r' w' qr' qs' where rl: "route_local pc two_keys (\<lambda>_. []) (\<lambda>_. Inr (reader_of answer, fresh_sink))
      [(True, \<lparr>s_conn = 4, s_id = 4, s_since = 0\<rparr>)] (reader_of (demo_frame @ rest)) fresh_sink
      = (Inr (), (r', w'), Some (4, qr', qs'))" "sent qs' = sent fresh_sink @ rest"
      "sent w' = sent fresh_sink @ frame [0] @ arriving (reader_of answer)"
    by (rule route_local_ok [where r = "reader_of (demo_frame @ rest)" and rb = "[0]" and pc = pc and agent = "''any''"
        and w = fresh_sink and qs = fresh_sink and qr = "reader_of answer" and rest = rest and c = two_keys and k = True
        and i = 4 and p = Unknown and remote = "''no open path''" and kb = "[0]" and paths = "\<lambda>_. []"
        and open_bi = "\<lambda>_. Inr (reader_of answer, fresh_sink)" and m = "[(True, \<lparr>s_conn = 4, s_id = 4, s_since = 0\<rparr>)]"])
      (use assms(1,2) demo_pick t in \<open>simp_all add: demo_frame MAX_MSG_def session_path_report_def session_path_def\<close>)
  then show ?thesis
    using assms(3-5) unfolding relayed_def
    by (intro exI [of _ "reader_of (demo_frame @ rest)"] exI [of _ fresh_sink] exI [of _ "Inr ()"] exI [of _ r'] exI [of _ w']
        exI [of _ 4] exI [of _ "reader_of answer"] exI [of _ fresh_sink] exI [of _ qr'] exI [of _ qs'])
      (simp add: demo_frame)
qed

lemma pull_start_ok:
  assumes "dial (sock_path st) = Inr (r0, w0)" and "enc_route pc (Route agent) = Inr rb" and "length rb \<le> MAX_MSG"
    and "healthy w0" and "dec_reply pc kb = Inr (RouteOk k p t)" and "length kb \<le> MAX_MSG"
    and "enc_request pc (Pull remote) = Inr pb" and "length pb \<le> MAX_MSG"
    and "dec_pull pc sb = Inr ps" and "length sb \<le> MAX_MSG" and "arriving r0 = frame kb @ frame sb @ rest" and "broken r0 = None"
  obtains s' where "arriving (dx_recv s') = rest" "broken (dx_recv s') = None" "dx_world s' = dx_world s"
    "sent (dx_send s') = sent w0 @ frame rb @ frame pb"
    "pull_file pc sha dial st agent remote local lim s =
      (case ps of PullMissing \<Rightarrow> io_ok Missing
       | PullErr e \<Rightarrow> io_lift (Inl (Msg (fmt [''agent could not read '', remote, '': '', e])))
       | PullOk mode len sha256 \<Rightarrow>
           io_bind (via_recv_world (recv_file_body sha local len sha256 mode lim)) (\<lambda>_.
           io_ok (Fetched len sha256))) s'"
proof -
  obtain line s2 where 2: "route pc dial st agent s = (Inr line, s2)" "healthy (dx_send s2)"
      "sent (dx_send s2) = sent w0 @ frame rb" "arriving (dx_recv s2) = frame sb @ rest" "broken (dx_recv s2) = broken r0"
      "dx_world s2 = dx_world s"
    using assms(1-6,11) by (rule route_ok [where s = s])
  obtain t3 where 3: "write_msg (enc_request pc) (Pull remote) (dx_send s2) = (Inr (), t3)" "healthy t3" "sent t3 = sent (dx_send s2) @ frame pb"
    using assms(7,8) 2(2) by (rule write_msg_ok)
  obtain t4 where 4: "finish t3 = (Inr (), t4)" "sent t4 = sent t3" using 3(2) by (rule finish_ok)
  obtain r5 where 5: "read_msg (dec_pull pc) (dx_recv s2) = (Inr ps, r5)" "arriving r5 = rest" "broken r5 = broken (dx_recv s2)"
    using assms(9,10) 2(4) by (rule read_msg_ok)
  show thesis
    by (rule that [of "s2\<lparr>dx_send := t4, dx_recv := r5\<rparr>"])
      (use 2 3 4 5 assms(12) in \<open>simp_all add: pull_file_def io_bind_def via_send_def via_recv_def\<close>)
qed

lemma handle_pull_ok:
  assumes "arriving (dx_recv a) = frame pb" and "dec_request pc pb = Inr (Pull remote)" and "length pb \<le> MAX_MSG"
    and "calm (dx_world a)" and "follow (nodes (dx_world a)) (path_of remote) = Some q" and "nodes (dx_world a) q = Some (File c m)"
    and "enc_pull pc (PullOk (and m 4095) (word_of_nat (length c)) (sha c)) = Inr sb" and "length sb \<le> MAX_MSG" and "healthy (dx_send a)"
  obtains a' where "handle pc sha tg a = (Inr (), a')" "sent (dx_send a') = sent (dx_send a) @ frame sb @ c"
proof -
  obtain r1 where 1: "read_msg (dec_request pc) (dx_recv a) = (Inr (Pull remote), r1)"
    using read_msg_ok [of "dec_request pc" pb _ "dx_recv a" "[]"] assms(1-3) by auto
  obtain w2 where 2: "stat_and_hash sha (path_of remote) (dx_world a) = (Inr (and m 4095, word_of_nat (length c), sha c), w2)"
      "calm w2" "touches {} (dx_world a) w2"
    using stat_and_hash_calm [OF assms(4-6)] by blast
  have n2: "nodes w2 = nodes (dx_world a)" using touches_nodes [OF 2(3)] by auto
  obtain t3 where 3: "write_msg (enc_pull pc) (PullOk (and m 4095) (word_of_nat (length c)) (sha c)) (dx_send a) = (Inr (), t3)"
      "healthy t3" "sent t3 = sent (dx_send a) @ frame sb"
    using assms(7-9) by (rule write_msg_ok)
  obtain t4 w4 where 4: "send_file_body (path_of remote) (t3, w2) = (Inr (), (t4, w4))" "healthy t4" "sent t4 = sent t3 @ c"
    using 2(2) 3(2) assms(5,6) unfolding n2 [symmetric] by (rule send_file_body_ok)
  obtain t5 where 5: "send_ctl t4 = (Inr (), t5)" "sent t5 = sent t4" using 4(2) by (rule send_ctl_healthy)
  have "handle pc sha tg a = (Inr (), a\<lparr>dx_recv := r1, dx_world := w4, dx_send := t5\<rparr>)"
    using 1(1) 2(1) 3(1) 4(1) 5(1)
    by (simp add: handle_def handle_pull_def io_bind_def io_context_def io_catch_def via_recv_def via_world_def via_send_def via_send_world_def)
  with that 3(3) 4(3) 5(2) show thesis by simp
qed

lemma handle_pull_none:
  assumes "arriving (dx_recv a) = frame pb" and "dec_request pc pb = Inr (Pull remote)" and "length pb \<le> MAX_MSG"
    and "calm (dx_world a)" and "follow (nodes (dx_world a)) (path_of remote) = Some q" and "nodes (dx_world a) q = None"
    and "enc_pull pc PullMissing = Inr sb" and "length sb \<le> MAX_MSG" and "healthy (dx_send a)"
  obtains a' where "handle pc sha tg a = (Inr (), a')" "sent (dx_send a') = sent (dx_send a) @ frame sb"
proof -
  obtain r1 where 1: "read_msg (dec_request pc) (dx_recv a) = (Inr (Pull remote), r1)"
    using read_msg_ok [of "dec_request pc" pb _ "dx_recv a" "[]"] assms(1-3) by auto
  obtain e w2 where 2: "stat_and_hash sha (path_of remote) (dx_world a) = (Inl e, w2)" "downcast_io e = Some NotFound"
    using stat_and_hash_missing [OF assms(4-6), of sha] by blast
  obtain t3 where 3: "write_msg (enc_pull pc) PullMissing (dx_send a) = (Inr (), t3)" "healthy t3" "sent t3 = sent (dx_send a) @ frame sb"
    using assms(7-9) by (rule write_msg_ok)
  obtain t5 where 5: "send_ctl t3 = (Inr (), t5)" "sent t5 = sent t3" using 3(2) by (rule send_ctl_healthy)
  have "handle pc sha tg a = (Inr (), a\<lparr>dx_recv := r1, dx_world := w2, dx_send := t5\<rparr>)"
    using 1(1) 2 3(1) 5(1)
    by (simp add: handle_def handle_pull_def io_bind_def io_context_def io_catch_def via_recv_def via_world_def via_send_def)
  with that 3(3) 5(2) show thesis by simp
qed

lemma exec_into_ok:
  assumes "dial (sock_path st) = Inr (r0, w0)" and "enc_route pc (Route agent) = Inr rb" and "length rb \<le> MAX_MSG"
    and "healthy w0" and "dec_reply pc kb = Inr (RouteOk k p t)" and "length kb \<le> MAX_MSG" and "arriving r0 = frame kb @ rest"
    and "broken r0 = None" and "enc_request pc (Exec argv) = Inr pb" and "length pb \<le> MAX_MSG"
    and "\<And>r. arriving r = rest \<Longrightarrow> broken r = None \<Longrightarrow> \<exists>r' o'. recv_exec_output (dec_frame pc) lim (r, ou) = (Inr code, (r', o'))"
  obtains s' o' where "exec_into pc dial st agent argv lim (s, ou) = (Inr code, (s', o'))"
    "sent (dx_send s') = sent w0 @ frame rb @ frame pb"
proof -
  obtain line s2 where 2: "route pc dial st agent s = (Inr line, s2)" "healthy (dx_send s2)"
      "sent (dx_send s2) = sent w0 @ frame rb" "arriving (dx_recv s2) = rest" "broken (dx_recv s2) = broken r0"
    using assms(1-7) by (rule route_ok [where s = s])
  obtain t3 where 3: "write_msg (enc_request pc) (Exec argv) (dx_send s2) = (Inr (), t3)" "healthy t3" "sent t3 = sent (dx_send s2) @ frame pb"
    using assms(9,10) 2(2) by (rule write_msg_ok)
  obtain t4 where 4: "finish t3 = (Inr (), t4)" "sent t4 = sent t3" using 3(2) by (rule finish_ok)
  obtain r5 o' where 5: "recv_exec_output (dec_frame pc) lim (dx_recv s2, ou) = (Inr code, (r5, o'))"
    using assms(11) [of "dx_recv s2"] 2(4,5) assms(8) by auto
  show thesis
    by (rule that [of "s2\<lparr>dx_send := t4, dx_recv := r5\<rparr>" o'])
      (use 2 3 4 5 in \<open>simp_all add: exec_into_def io_bind_def via_send_def on_fst_def via_output_def\<close>)
qed

lemma handle_exec_ok:
  assumes "arriving (dx_recv a) = frame pb" and "dec_request pc pb = Inr (Exec argv)" and "length pb \<le> MAX_MSG"
    and "agent_exec pc tg argv (dx_send a) = (Inr (), s')"
  obtains a' where "handle pc sha tg a = (Inr (), a')" "dx_send a' = s'"
proof -
  obtain r1 where 1: "read_msg (dec_request pc) (dx_recv a) = (Inr (Exec argv), r1)"
    using read_msg_ok [of "dec_request pc" pb _ "dx_recv a" "[]"] assms(1-3) by auto
  have "handle pc sha tg a = (Inr (), a\<lparr>dx_recv := r1, dx_send := s'\<rparr>)"
    using 1 assms(4) by (simp add: handle_def io_bind_def io_context_def via_recv_def via_send_def)
  with that show thesis by simp
qed

lemma path_of_l: "path_of ''l'' = [Normal ''l'']"
  by (simp add: path_of_def starts_with_def component_of_def)

section \<open>The exit code of status\<close>

definition running :: "world \<Rightarrow> Status \<Rightarrow> bool" where
  "running w s \<longleftrightarrow> fst (writer_alive s w) = Inr True"

lemma writer_alive_calm: "calm w \<Longrightarrow> calm w' \<Longrightarrow> nodes w' = nodes w \<Longrightarrow> writer_alive s w' = (Inr (running w s), next_tick w')"
  by (simp add: writer_alive_def running_def path_exists_def split: option.split)

lemma status_cmd_reads:
  assumes "calm w" and "nodes w (status_path st) = Some (File b k)"
    and "status_from_json c b = Inr s" and "status_to_json c s = Inr b"
  shows "\<exists>ls w'. status_cmd c st json w =
    (Inr (if dialable s = Some True \<and> running w s then 0 else EXIT_UNDIALABLE, ls), w')"
proof -
  have "read_status c st w = (Inr s, next_tick w)"
    using assms by (simp add: read_status_def io_bind_def io_context_def read_bytes_calm_file)
  then show ?thesis
    using assms(1,4) writer_alive_calm [OF assms(1), of "next_tick w" s]
      writer_alive_calm [OF assms(1), of "next_tick (next_tick w)" s]
    by (simp add: status_cmd_def io_bind_def Let_def)
qed

lemma write_status_calm:
  assumes "calm w" and "state_ready st w" and "is_dir (nodes w) (root st)"
    and "nodes w (unique_tmp (pid w) (status_path st)) = None" and "\<And>k. nodes w (status_path st) \<noteq> Some (Dir k)"
    and "status_to_json c s = Inr b"
  shows "\<exists>w' k. write_status c st s w = (Inr (), w') \<and> calm w' \<and> nodes w' (status_path st) = Some (File b k)"
proof -
  have p: "status_path st = root st @ [Normal ''status.json'']"
    using assms(2) by (simp add: state_ready_def status_path_def join_def)
  have d: "parent_is_dir (nodes w) (status_path st)"
    using assms(2,3) p by (auto simp: parent_is_dir_def parent_path_def state_ready_def)
  have "\<exists>w'. write_atomic (status_path st) b w = (Inr (), w')
      \<and> nodes w' = (nodes w)(status_path st \<mapsto> File b (and 438 (not (umask w)))) \<and> tick w' = tick w + 3 \<and> fault w' = fault w"
    using assms(1) by (intro write_atomic_fresh [OF _ p assms(4) d assms(5)]) simp
  with assms(1,6) show ?thesis by (auto simp: write_status_def calm_def)
qed

lemma probe_publishes:
  assumes "serve_step c st restart_after s (Probed r) s'" and "calm (sv_world s)" and "state_ready st (sv_world s)"
    and "is_dir (nodes (sv_world s)) (root st)"
    and "nodes (sv_world s) (unique_tmp (pid (sv_world s)) (status_path st)) = None"
    and "\<And>k. nodes (sv_world s) (status_path st) \<noteq> Some (Dir k)" and "status_to_json c (sv_status s') = Inr b"
  shows "dialable (sv_status s') = Some (\<not> isl r)" and "calm (sv_world s')"
    and "\<exists>k. nodes (sv_world s') (status_path st) = Some (File b k)"
proof -
  define w where "w = next_tick (if isl r then sv_world s else next_tick (sv_world s))"
  have w: "calm w" "state_ready st w" "is_dir (nodes w) (root st)"
      "nodes w (unique_tmp (pid w) (status_path st)) = None" "\<And>k. nodes w (status_path st) \<noteq> Some (Dir k)"
    using assms(2-6) by (simp_all add: w_def state_ready_def stage_clear_def next_tick_def calm_def)
  obtain w' k where w': "write_status c st (sv_status s') w = (Inr (), w')" "calm w'"
      "nodes w' (status_path st) = Some (File b k)"
    using write_status_calm [OF w assms(7)] by blast
  from assms(1) have *: "dialable (sv_status s') = Some (\<not> isl r)
      \<and> sv_world s' = snd (write_status c st (sv_status s') w)"
    by (cases r) (auto elim!: serve_stepE simp: canary_turn_def status_update_def canary_ok_def canary_err_def
        wall_clock_def pure_update_def put_status_def w_def Let_def split: prod.splits)
  then show "dialable (sv_status s') = Some (\<not> isl r)" by simp
  from * w' show "calm (sv_world s')" "\<exists>k. nodes (sv_world s') (status_path st) = Some (File b k)" by auto
qed

end
