(* ===== verification/Recipe.thy ===== *)
theory Recipe
  imports End_To_End
begin

text \<open>
  The ssh recipe over the whole way: what its pull and its push of \<open>authorized_keys\<close> leave on the
  target, and under which conditions it runs the local ssh client.
\<close>

section \<open>Installing the key\<close>

lemma install_Inr:
  assumes "install_authorized_key pc sha dials st cfg blob line scratch s = (Inr (), s')"
  obtains p s1 existing s2 w3 w4 len sha256 where
    "pull_file pc sha (dials 0) st (sh_agent cfg) (sh_authorized_keys cfg) (join scratch ''authorized_keys'')
       KEY_FILE_MAX_BYTES s = (Inr p, s1)"
    "case p of Missing \<Rightarrow> existing = None \<and> s2 = s1
       | Fetched _ _ \<Rightarrow> \<exists>n r w w'. existing = Some r \<and> open_read (join scratch ''authorized_keys'') (dx_world s1) = (Inr n, w)
           \<and> file_reader n w = (Inr r, w') \<and> s2 = s1\<lparr>dx_world := w'\<rparr>"
    "create_new (join scratch ''authorized_keys.merged'') 384 (dx_world s2) = (Inr (), w3)"
    "merge_into (join scratch ''authorized_keys.merged'') existing blob line w3 = (Inr (), w4)"
    "push_file pc sha (dials 1) st (sh_agent cfg) (join scratch ''authorized_keys.merged'') (sh_authorized_keys cfg)
       (s2\<lparr>dx_world := w4\<rparr>) = (Inr (len, sha256), s')"
proof -
  let ?pulled = "join scratch ''authorized_keys''" and ?merged = "join scratch ''authorized_keys.merged''"
  from assms obtain p s1 existing s2 w3 w4 x where
    1: "pull_file pc sha (dials 0) st (sh_agent cfg) (sh_authorized_keys cfg) ?pulled KEY_FILE_MAX_BYTES s = (Inr p, s1)" and
    2: "(case p of Fetched _ _ \<Rightarrow> via_world (io_bind (open_read ?pulled) (\<lambda>n. io_bind (file_reader n) (\<lambda>r. io_ok (Some r))))
         | Missing \<Rightarrow> io_ok None) s1 = (Inr existing, s2)" and
    3: "create_new ?merged 384 (dx_world s2) = (Inr (), w3)" and
    4: "merge_into ?merged existing blob line w3 = (Inr (), w4)" and
    5: "push_file pc sha (dials 1) st (sh_agent cfg) ?merged (sh_authorized_keys cfg) (s2\<lparr>dx_world := w4\<rparr>) = (Inr x, s')"
    by (auto simp: install_authorized_key_def Let_def via_world_def io_context_def io_ok_def with_context_def
        elim!: io_bind_InrE split: prod.splits sum.splits)
  from 2 have "case p of Missing \<Rightarrow> existing = None \<and> s2 = s1
       | Fetched _ _ \<Rightarrow> \<exists>n r w w'. existing = Some r \<and> open_read ?pulled (dx_world s1) = (Inr n, w)
           \<and> file_reader n w = (Inr r, w') \<and> s2 = s1\<lparr>dx_world := w'\<rparr>"
    by (cases p) (auto simp: via_world_def io_ok_def elim!: io_bind_InrE split: prod.splits)
  with that 1 3 4 5 show thesis by (cases x) blast
qed

text \<open>What the target's file held before, as the pull found it.\<close>

definition held :: "nodemap \<Rightarrow> path \<Rightarrow> bytes \<Rightarrow> bool" where
  "held m p old \<longleftrightarrow>
     (\<exists>q. follow m p = Some q \<and> (case m q of None \<Rightarrow> old = [] | Some (File b k) \<Rightarrow> old = b | Some _ \<Rightarrow> False))"

lemma install_merges:
  assumes "install_authorized_key pc sha dials st cfg blob line scratch s = (Inr (), s')"
    and pull: "pull_file pc sha (dials 0) st (sh_agent cfg) (sh_authorized_keys cfg) (join scratch ''authorized_keys'')
       KEY_FILE_MAX_BYTES s = (Inr p, s1)"
    and fetched: "\<And>len d. p = Fetched len d \<Longrightarrow> \<exists>k. nodes (dx_world s1) (join scratch ''authorized_keys'') = Some (File old k)"
    and missing: "p = Missing \<Longrightarrow> old = []"
  obtains t k u len sha256 where
    "push_file pc sha (dials 1) st (sh_agent cfg) (join scratch ''authorized_keys.merged'') (sh_authorized_keys cfg) t = (Inr (len, sha256), s')"
    "nodes (dx_world t) (join scratch ''authorized_keys.merged'') = Some (File (concat (others blob old) @ as_bytes line @ [lf]) k)"
    "k = and 384 u"
proof -
  let ?pulled = "join scratch ''authorized_keys''" and ?merged = "join scratch ''authorized_keys.merged''"
  obtain existing s2 w3 w4 len sha256 where
    2: "case p of Missing \<Rightarrow> existing = None \<and> s2 = s1
       | Fetched _ _ \<Rightarrow> \<exists>n r w w'. existing = Some r \<and> open_read ?pulled (dx_world s1) = (Inr n, w)
           \<and> file_reader n w = (Inr r, w') \<and> s2 = s1\<lparr>dx_world := w'\<rparr>" and
    3: "create_new ?merged 384 (dx_world s2) = (Inr (), w3)" and
    4: "merge_into ?merged existing blob line w3 = (Inr (), w4)" and
    5: "push_file pc sha (dials 1) st (sh_agent cfg) ?merged (sh_authorized_keys cfg) (s2\<lparr>dx_world := w4\<rparr>) = (Inr (len, sha256), s')"
    using assms(1) pull by (elim install_Inr) auto
  from 3 obtain u where w3: "nodes w3 ?merged = Some (File [] (and 384 u))"
    by (auto simp: create_new_def fs_call_def split: option.splits if_splits)
  note m = merge_into_Inr [OF 4 w3]
  have "(case existing of None \<Rightarrow> [] | Some r \<Rightarrow> arriving r) = old"
  proof (cases p)
    case (Fetched n d)
    with fetched obtain k where f: "nodes (dx_world s1) ?pulled = Some (File old k)" by blast
    from Fetched 2 obtain nd r w w' where r: "existing = Some r" "open_read ?pulled (dx_world s1) = (Inr nd, w)" "file_reader nd w = (Inr r, w')"
      by auto
    from r(2) f follow_self [of "nodes (dx_world s1)" ?pulled] have "nd = File old k"
      by (auto simp: open_read_def fs_call_def split: option.splits)
    with file_reader_Inr(1) [OF r(3)] m(3) r(1) show ?thesis by simp
  qed (use 2 missing in auto)
  with m(1) 5 that [of "s2\<lparr>dx_world := w4\<rparr>"] show thesis by simp
qed

lemma installs_key:
  assumes "postcard_laws pc"
    and inst: "install_authorized_key pc sha dials st cfg blob line scratch s = (Inr (), s')"
    and pull: "pull_file pc sha (dials 0) st (sh_agent cfg) (sh_authorized_keys cfg) (join scratch ''authorized_keys'')
       KEY_FILE_MAX_BYTES s = (Inr p, s1)"
    and "dials 0 (sock_path st) = Inr (r0, w0)" and "sent w0 = []" and "dials 1 (sock_path st) = Inr (r1, w1)" and "sent w1 = []"
    and "handle pc sha tg a = (y, a')" and "relayed pc c paths open_bi m r0 (sent (dx_send s1)) a a'"
    and "handle pc sha tg b = (z, b')" and "relayed pc c' paths' open_bi' m' r1 (sent (dx_send s')) b b'"
    and "calm (dx_world a)" and "length line < 4294967296"
    and small: "\<And>q b k. follow (nodes (dx_world a)) (path_of (sh_authorized_keys cfg)) = Some q \<Longrightarrow> nodes (dx_world a) q = Some (File b k)
      \<Longrightarrow> length b + CHUNK < 18446744073709551616"
  shows "\<exists>old u. held (nodes (dx_world a)) (path_of (sh_authorized_keys cfg)) old
    \<and> nodes (dx_world b') (path_of (sh_authorized_keys cfg)) =
        Some (File (concat (others blob old) @ as_bytes line @ [lf]) (and 384 u))"
proof -
  let ?ak = "sh_authorized_keys cfg" and ?pulled = "join scratch ''authorized_keys''" and ?merged = "join scratch ''authorized_keys.merged''"
  have "\<exists>old. held (nodes (dx_world a)) (path_of ?ak) old \<and> length old \<le> 1048576
      \<and> (case p of Missing \<Rightarrow> old = [] | Fetched _ _ \<Rightarrow> \<exists>k. nodes (dx_world s1) ?pulled = Some (File old k))"
  proof (cases p)
    case (Fetched n d)
    have "\<exists>q b k. follow (nodes (dx_world a)) (path_of ?ak) = Some q \<and> nodes (dx_world a) q = Some (File b k)
        \<and> nodes (dx_world s1) ?pulled = Some (File b (and k 4095)) \<and> length b \<le> unat KEY_FILE_MAX_BYTES"
      by (rule pull_fetches [OF assms(1) pull [unfolded Fetched] assms(4,5,8,9)]) (rule small)
    with Fetched show ?thesis by (auto simp: held_def KEY_FILE_MAX_BYTES_def)
  next
    case Missing
    from pull_absent [OF assms(1) pull [unfolded Missing] assms(4,5,8,9,12)] Missing show ?thesis
      by (auto simp: held_def)
  qed
  then obtain old where old: "held (nodes (dx_world a)) (path_of ?ak) old" "length old \<le> 1048576"
    "case p of Missing \<Rightarrow> old = [] | Fetched _ _ \<Rightarrow> \<exists>k. nodes (dx_world s1) ?pulled = Some (File old k)" by blast
  obtain t k u len sha256 where
    push: "push_file pc sha (dials 1) st (sh_agent cfg) ?merged ?ak t = (Inr (len, sha256), s')" and
    f: "nodes (dx_world t) ?merged = Some (File (concat (others blob old) @ as_bytes line @ [lf]) k)" and k: "k = and 384 u"
    using inst pull by (rule install_merges [where old = old]) (use old(3) in auto)
  have fw: "follow (nodes (dx_world t)) ?merged = Some ?merged" using f by (intro follow_self) simp
  have "\<exists>q b k. follow (nodes (dx_world t)) ?merged = Some q \<and> nodes (dx_world t) q = Some (File b k)
    \<and> nodes (dx_world b') (path_of ?ak) = Some (File b (and k 4095)) \<and> sha256 = sha b"
    using assms(1) push assms(6,7,10,11)
  proof (rule push_delivers)
    fix q b k assume "follow (nodes (dx_world t)) ?merged = Some q" "nodes (dx_world t) q = Some (File b k)"
    with f fw have "b = concat (others blob old) @ as_bytes line @ [lf]" by auto
    with length_others [of blob old] old(2) assms(13) show "length b + CHUNK < 18446744073709551616"
      by (simp add: CHUNK_def)
  qed
  with f fw k old(1) show ?thesis by (auto simp: and.assoc)
qed

section \<open>A run of the recipe\<close>

lemma pull_missing_ok:
  assumes "dial (sock_path st) = Inr (r0, w0)" and "enc_route pc (Route agent) = Inr rb" and "length rb \<le> MAX_MSG"
    and "healthy w0" and "dec_reply pc kb = Inr (RouteOk k p t)" and "length kb \<le> MAX_MSG"
    and "enc_request pc (Pull remote) = Inr pb" and "length pb \<le> MAX_MSG"
    and "dec_pull pc sb = Inr PullMissing" and "length sb \<le> MAX_MSG" and "arriving r0 = frame kb @ frame sb" and "broken r0 = None"
  obtains s' where "pull_file pc sha dial st agent remote local lim s = (Inr Missing, s')" "dx_world s' = dx_world s"
    "sent (dx_send s') = sent w0 @ frame rb @ frame pb"
proof -
  have "arriving r0 = frame kb @ frame sb @ []" using assms(11) by simp
  with assms(1-10) show thesis
    by (rule pull_start_ok [where dial = dial and st = st and s = s and sha = sha and local = local and lim = lim])
      (use assms(12) that in simp_all)
qed

lemma pull_fetched_ok:
  assumes "dial (sock_path st) = Inr (r0, w0)" and "enc_route pc (Route agent) = Inr rb" and "length rb \<le> MAX_MSG"
    and "healthy w0" and "dec_reply pc kb = Inr (RouteOk k p t)" and "length kb \<le> MAX_MSG"
    and "enc_request pc (Pull remote) = Inr pb" and "length pb \<le> MAX_MSG"
    and "dec_pull pc sb = Inr (PullOk mode len sha256)" and "length sb \<le> MAX_MSG" and "arriving r0 = frame kb @ frame sb @ body" and "broken r0 = None"
    and "\<And>r. arriving r = body \<Longrightarrow> broken r = None \<Longrightarrow>
      \<exists>r' w'. recv_file_body sha local len sha256 mode lim (r, dx_world s) = (Inr (), (r', w'))"
  obtains s' r r' where "pull_file pc sha dial st agent remote local lim s = (Inr (Fetched len sha256), s')" "arriving r = body"
    "recv_file_body sha local len sha256 mode lim (r, dx_world s) = (Inr (), (r', dx_world s'))"
proof -
  obtain s1 where 1: "arriving (dx_recv s1) = body" "broken (dx_recv s1) = None" "dx_world s1 = dx_world s"
    "pull_file pc sha dial st agent remote local lim s =
       io_bind (via_recv_world (recv_file_body sha local len sha256 mode lim)) (\<lambda>_. io_ok (Fetched len sha256)) s1"
    using assms(1-12)
    by (rule pull_start_ok [where dial = dial and st = st and s = s and sha = sha and local = local and lim = lim]) simp
  from assms(13) [OF 1(1,2)] obtain r' w' where "recv_file_body sha local len sha256 mode lim (dx_recv s1, dx_world s) = (Inr (), (r', w'))"
    by blast
  with 1 that [of "s1\<lparr>dx_recv := r', dx_world := w'\<rparr>" "dx_recv s1" r'] show thesis
    by (simp add: io_bind_def via_recv_world_def)
qed

lemma tokio_write_calm:
  "calm w \<Longrightarrow> nodes w p = Some (File c k) \<Longrightarrow>
     tokio_write p b None w = (Inr (), None, put_node p (Some (File (c @ b) k)) (next_tick w))"
  by (simp add: tokio_write_def write_all_def)

lemma merge_into_calm:
  assumes "calm w" and "nodes w p = Some (File [] k)"
  shows "\<exists>w'. merge_into p None blob line w = (Inr (), w')"
  using assms
  by (simp add: merge_into_def merge_authorized_keys_def io_bind_def file_put_def file_flush_def tokio_flush_def
      tokio_write_calm put_node_def put_nodes_def handle_call_calm calm_def)

definition recipe_disk :: world where
  "recipe_disk = blank_world\<lparr>nodes := [[Normal ''s''] \<mapsto> Dir 448, [Normal ''s'', Normal ''ssh''] \<mapsto> Dir 448,
     [Normal ''s'', Normal ''ssh'', Normal ''id_ed25519''] \<mapsto> File [1] 384,
     [Normal ''s'', Normal ''ssh'', Normal ''id_ed25519.pub''] \<mapsto> File (as_bytes ''k b'') 420,
     [Normal ''x''] \<mapsto> Dir 448]\<rparr>"

definition recipe_config :: ssh_config where
  "recipe_config = \<lparr>sh_agent = ''any'', sh_user = ''root'', sh_authorized_keys = ''a'', sh_host_key_pub = ''h'',
     sh_sshd_argv = [''sshd''], sh_keygen_argv = [''ssh-keygen''], sh_target_addr = ''127.0.0.1:22'', sh_local_port = 0,
     sh_ssh_argv = [], sh_key_options = ''o'', sh_key_ttl = 600\<rparr>"

definition recipe_line :: string where
  "recipe_line = authorized_line ''o'' 600 ''k b''"

definition recipe_body :: bytes where
  "recipe_body = as_bytes recipe_line @ [lf]"

definition recipe_postcard :: postcard where
  "recipe_postcard = listed_postcard
     [Pull ''a'', Push ''a'' 384 (word_of_nat (length recipe_body)) recipe_body, Pull ''h'']
     [PullMissing, PullOk 420 3 (as_bytes ''h b'')] (Route ''any'') (RouteOk ''t'' Unknown ''no open path'')"

definition recipe_dials :: "nat \<Rightarrow> dial" where
  "recipe_dials i p =
     (if i < 2 then Inr (reader_of (frame [0] @ frame [0]), fresh_sink)
      else Inr (reader_of (frame [0] @ frame [1, 0] @ as_bytes ''h b''), fresh_sink))"

lemmas recipe_codec = recipe_postcard_def listed_postcard_def demo_postcard_def only_enc_def only_dec_def MAX_MSG_def

abbreviation demo_scratch :: path where "demo_scratch \<equiv> [Normal ''x'']"

lemma recipe_disk_nodes:
  "calm recipe_disk" "nodes recipe_disk demo_scratch = Some (Dir 448)"
  "take 1 p = demo_scratch \<Longrightarrow> length p = 2 \<Longrightarrow> nodes recipe_disk p = None"
  by (auto simp: recipe_disk_def calm_def)

lemma demo_install:
  assumes "dx_world s = w" and "calm w" and "nodes w = nodes recipe_disk" and "umask w = 18"
  shows "\<exists>s1 s'. pull_file recipe_postcard id (recipe_dials 0) demo_dir ''any'' ''a'' (join demo_scratch ''authorized_keys'')
        KEY_FILE_MAX_BYTES s = (Inr Missing, s1) \<and> sent (dx_send s1) = frame [0] @ frame [0]
    \<and> install_authorized_key recipe_postcard id recipe_dials demo_dir recipe_config ''b'' recipe_line demo_scratch s = (Inr (), s')
    \<and> sent (dx_send s') = frame [0] @ frame [1, 0] @ recipe_body
    \<and> calm (dx_world s') \<and> touches {join demo_scratch ''authorized_keys.merged''} w (dx_world s')"
proof -
  let ?pulled = "join demo_scratch ''authorized_keys''" and ?merged = "join demo_scratch ''authorized_keys.merged''"
  obtain s1 where 1: "pull_file recipe_postcard id (recipe_dials 0) demo_dir ''any'' ''a'' ?pulled KEY_FILE_MAX_BYTES s = (Inr Missing, s1)"
      "dx_world s1 = dx_world s" "sent (dx_send s1) = sent fresh_sink @ frame [0] @ frame [0]"
    by (rule pull_missing_ok [where dial = "recipe_dials 0" and st = demo_dir and ?r0.0 = "reader_of (frame [0] @ frame [0])"
        and ?w0.0 = fresh_sink and pc = recipe_postcard and agent = "''any''" and rb = "[0]" and kb = "[0]" and k = "''t''"
        and p = Unknown and t = "''no open path''" and remote = "''a''" and pb = "[0]" and sb = "[0]" and s = s and sha = id
        and local = ?pulled and lim = KEY_FILE_MAX_BYTES])
      (simp_all add: recipe_codec recipe_dials_def)
  have dirx: "is_dir m demo_scratch" if "m demo_scratch = Some (Dir 448)" for m
    using that follow_self [of m demo_scratch] by (simp add: is_dir_def)
  define w3 where "w3 = put_node ?merged (Some (File [] 384)) (next_tick w)"
  have par: "parent_path ?merged = Some demo_scratch" by (simp add: join_def parent_path_def)
  have 3: "create_new ?merged 384 w = (Inr (), w3)"
    using assms recipe_disk_nodes dirx par
    by (simp add: create_new_def fs_call_calm w3_def parent_is_dir_def join_def)
  have c3: "calm w3" "nodes w3 ?merged = Some (File [] 384)" using assms(2) by (simp_all add: w3_def)
  obtain w4 where 4: "merge_into ?merged None ''b'' recipe_line w3 = (Inr (), w4)" using merge_into_calm [OF c3] by blast
  note m = merge_into_Inr [OF 4 c3(2)]
  have n4: "nodes w4 ?merged = Some (File recipe_body 384)"
    using m(1) by (simp add: recipe_body_def others_def raw_lines.simps)
  have c4: "calm w4" using touches_calm [OF m(2)] c3(1) by simp
  obtain s' where 5: "push_file recipe_postcard id (recipe_dials 1) demo_dir ''any'' ?merged ''a'' (s1\<lparr>dx_world := w4\<rparr>)
        = (Inr (word_of_nat (length recipe_body), id recipe_body), s')"
      "sent (dx_send s') = sent fresh_sink @ frame [0] @ frame [1, 0] @ recipe_body" "calm (dx_world s')"
      "touches {} w4 (dx_world s')"
    by (rule push_file_ok [where s = "s1\<lparr>dx_world := w4\<rparr>" and local = ?merged and q = ?merged and c = recipe_body and m = 384
        and dial = "recipe_dials 1" and st = demo_dir and ?r0.0 = "reader_of (frame [0] @ frame [0])" and ?w0.0 = fresh_sink
        and pc = recipe_postcard and agent = "''any''" and rb = "[0]" and kb = "[0]" and k = "''t''" and p = Unknown
        and t = "''no open path''" and remote = "''a''" and sha = id and pb = "[1, 0]" and ab = "[0]"])
      (use c4 n4 follow_self [of "nodes w4" ?merged] in \<open>simp_all add: recipe_codec recipe_dials_def\<close>)
  have "touches {?merged} w w3" unfolding w3_def by (rule touches_trans [OF touches_next_tick touches_put_node]) simp
  from touches_trans [OF touches_trans [OF this m(2)] touches_mono [OF 5(4)]] have t: "touches {?merged} w (dx_world s')" by simp
  have "install_authorized_key recipe_postcard id recipe_dials demo_dir recipe_config ''b'' recipe_line demo_scratch s = (Inr (), s')"
    using 1(1,2) 3 4 5(1) assms(1)
    by (simp add: install_authorized_key_def recipe_config_def Let_def io_bind_def via_world_def io_context_def)
  with 1(1,3) 5(2,3) t show ?thesis by auto
qed

lemma demo_host_key:
  assumes "calm w" and "\<And>p. p \<noteq> join demo_scratch ''authorized_keys.merged'' \<Longrightarrow> nodes w p = nodes recipe_disk p"
    and "dx_world s = w" and "vfs w = vfs blank_world"
  shows "\<exists>s'. fetch_host_key recipe_postcard id recipe_dials demo_dir recipe_config demo_scratch s = (Inr ''h b'', s')
    \<and> calm (dx_world s') \<and> (\<forall>p. take 1 p \<noteq> demo_scratch \<longrightarrow> nodes (dx_world s') p = nodes recipe_disk p)"
proof -
  let ?pulled = "join demo_scratch ''host_key.pub''"
  have par: "body_dir ?pulled = demo_scratch" "dir_names ?pulled = {demo_scratch}" "file_name ?pulled \<noteq> None"
    by (simp_all add: join_def body_dir_def parent_path_def file_name_def ancestors_def)
  have below: "take 1 p = demo_scratch \<and> length p = 2 \<and> p \<noteq> join demo_scratch ''authorized_keys.merged''"
    if "p \<in> part_names ?pulled \<or> p = ?pulled" for p
    using that by (auto simp: part_names_def part_name_def with_file_name_def join_def file_name_def)
  have nx: "nodes w demo_scratch = Some (Dir 448)" using assms(2) [of demo_scratch] recipe_disk_nodes(2) by (simp add: join_def)
  have free: "nodes w p = None" if "p \<in> part_names ?pulled \<or> p = ?pulled" for p
    using below [OF that] assms(2) recipe_disk_nodes(3) by metis
  have lands: "\<exists>r' w'. recv_file_body id ?pulled 3 (as_bytes ''h b'') 420 KEY_FILE_MAX_BYTES (r, w) = (Inr (), (r', w'))"
    if "arriving r = as_bytes ''h b''" "broken r = None" for r
  proof (rule recv_file_body_lands)
    show "\<forall>a \<in> dir_names ?pulled. is_dir (nodes w) a \<or> nodes w a = None"
      using par nx follow_self [of "nodes w" demo_scratch] by (simp add: is_dir_def)
    show "\<forall>p \<in> part_names ?pulled. nodes w p = None" "\<And>m. nodes w ?pulled \<noteq> Some (Dir m)" using free by auto
  qed (use assms par that in \<open>simp_all add: KEY_FILE_MAX_BYTES_def CHUNK_def\<close>)
  obtain s1 r r1 where pull: "pull_file recipe_postcard id (recipe_dials 2) demo_dir ''any'' ''h'' ?pulled KEY_FILE_MAX_BYTES s
        = (Inr (Fetched 3 (as_bytes ''h b'')), s1)" "arriving r = as_bytes ''h b''"
      "recv_file_body id ?pulled 3 (as_bytes ''h b'') 420 KEY_FILE_MAX_BYTES (r, dx_world s) = (Inr (), (r1, dx_world s1))"
    by (rule pull_fetched_ok [where dial = "recipe_dials 2" and st = demo_dir and ?w0.0 = fresh_sink and pc = recipe_postcard
        and ?r0.0 = "reader_of (frame [0] @ frame [1, 0] @ as_bytes ''h b'')" and agent = "''any''" and rb = "[0]" and kb = "[0]"
        and k = "''t''" and p = Unknown and t = "''no open path''" and remote = "''h''" and pb = "[1, 1, 0]" and sb = "[1, 0]"
        and s = s and sha = id and local = ?pulled and lim = KEY_FILE_MAX_BYTES and mode = 420 and len = 3
        and ?sha256.0 = "as_bytes ''h b''" and body = "as_bytes ''h b''"])
      (use lands assms(3) in \<open>simp_all add: recipe_codec recipe_dials_def\<close>)
  have three: "unat (3 :: u64) + CHUNK < 18446744073709551616" by (simp add: CHUNK_def)
  have f: "nodes (dx_world s1) ?pulled = Some (File (as_bytes ''h b'') 420)"
    using recv_file_body_Inr [OF pull(3) three] pull(2) by simp
  have t: "touches (dir_names ?pulled \<union> {p \<in> part_names ?pulled. nodes w p = None} \<union> {?pulled}) w (dx_world s1)"
    using recv_file_body_frame [OF pull(3) three par(3)] assms(3) by simp
  have c: "calm (dx_world s1)" using touches_calm [OF t] assms(1) by simp
  have keep: "nodes (dx_world s1) p = nodes recipe_disk p" if p: "take 1 p \<noteq> demo_scratch" for p
  proof -
    have "p \<noteq> ?pulled" "p \<notin> part_names ?pulled" using below [of p] p by blast+
    moreover have "p \<noteq> demo_scratch" using p by auto
    ultimately have "nodes (dx_world s1) p = nodes w p" unfolding par(2) by (intro touches_nodes [OF t [unfolded par(2)]]) blast
    moreover have "p \<noteq> join demo_scratch ''authorized_keys.merged''" using p by (auto simp: join_def)
    ultimately show ?thesis using assms(2) by simp
  qed
  have o: "open_read ?pulled (dx_world s1) = (Inr (File (as_bytes ''h b'') 420), next_tick (dx_world s1))"
    using c f follow_self [of "nodes (dx_world s1)" ?pulled] by (simp add: open_read_def fs_call_calm)
  have r: "file_reader (File (as_bytes ''h b'') 420) (next_tick (dx_world s1))
      = (Inr \<lparr>chunks = [as_bytes ''h b''], broken = None\<rparr>, next_tick (next_tick (dx_world s1)))"
    using c by (simp add: file_reader_def)
  have l: "fst (read_until lf \<lparr>chunks = [as_bytes ''h b''], broken = None\<rparr>) = Inr (as_bytes ''h b'')" by code_simp
  have sp: "split_whitespace (from_utf8_lossy (as_bytes ''h b'')) = [''h'', ''b'']" by code_simp
  have "fetch_host_key recipe_postcard id recipe_dials demo_dir recipe_config demo_scratch s
      = (Inr ''h b'', s1\<lparr>dx_world := next_tick (next_tick (dx_world s1))\<rparr>)"
    using pull(1) o r l sp
    by (simp add: fetch_host_key_def read_host_key_def recipe_config_def Let_def io_bind_def via_world_def fmt_def)
  with c keep show ?thesis by auto
qed

lemma demo_session:
  "\<exists>s'. ssh_session recipe_postcard id recipe_dials (\<lambda>_ w. (Inr (Exited 0), w))
      (\<lambda>_. Inr \<lparr>ls_local_addr = Inr (SocketV4 2130706433 4000), ls_accepts = []\<rparr>) (\<lambda>_. Some (as_bytes ''SSH-2''))
      demo_dir recipe_config demo_scratch (idle recipe_disk) = (Inr 0, s')"
proof -
  let ?s = "idle recipe_disk" and ?key = "[Normal ''s'', Normal ''ssh'', Normal ''id_ed25519'']"
  let ?pub = "[Normal ''s'', Normal ''ssh'', Normal ''id_ed25519.pub'']" and ?kh = "[Normal ''s'', Normal ''ssh'', Normal ''known_hosts'']"
  have p: "ssh_key_path demo_dir = ?key" "ssh_pub_path demo_dir = ?pub" "known_hosts_path demo_dir = ?kh"
    by (simp_all add: ssh_key_path_def ssh_pub_path_def known_hosts_path_def ssh_dir_def join_def)
  have nk: "nodes recipe_disk ?key = Some (File [1] 384)" "nodes recipe_disk ?pub = Some (File (as_bytes ''k b'') 420)"
      "nodes recipe_disk [Normal ''s'', Normal ''ssh''] = Some (Dir 448)" "nodes recipe_disk ?kh = None"
    by (simp_all add: recipe_disk_def)
  define w1 where "w1 = next_tick recipe_disk"
  have 1: "ensure_local_key (\<lambda>_ w. (Inr (Exited 0), w)) ?key recipe_disk = (Inr (), w1)"
    using nk(1) recipe_disk_nodes(1) follow_self [of "nodes recipe_disk" ?key]
    by (simp add: ensure_local_key_def io_bind_def path_exists_def w1_def)
  have u: "from_utf8 (as_bytes ''k b'') = Some ''k b''" by code_simp
  have 2: "read_to_string ?pub w1 = (Inr ''k b'', next_tick w1)"
    using nk(2) recipe_disk_nodes(1) u by (simp add: read_to_string_calm w1_def)
  have tr: "trim ''k b'' = ''k b''" "key_blob ''k b'' = Some ''b''" by code_simp+
  define s3 where "s3 = ?s\<lparr>dx_world := next_tick (next_tick w1)\<rparr>"
  have ck: "clock w1 t = 0" for t by (simp add: w1_def recipe_disk_def blank_world_def next_tick_def)
  have s3': "\<lparr>dx_recv = reader_of [], dx_send = fresh_sink, dx_world = next_tick (next_tick w1), dx_tcp = None\<rparr> = s3"
    by (simp add: s3_def idle_def)
  have s3: "calm (dx_world s3)" "nodes (dx_world s3) = nodes recipe_disk" "umask (dx_world s3) = 18" "vfs (dx_world s3) = vfs blank_world"
    using recipe_disk_nodes(1) by (simp_all add: s3_def w1_def) (simp_all add: next_tick_def recipe_disk_def)
  obtain s4 where 4: "install_authorized_key recipe_postcard id recipe_dials demo_dir recipe_config ''b'' recipe_line demo_scratch s3 = (Inr (), s4)"
      "calm (dx_world s4)" "touches {join demo_scratch ''authorized_keys.merged''} (dx_world s3) (dx_world s4)"
    using demo_install [OF refl s3(1-3)] by blast
  obtain s5 where 5: "fetch_host_key recipe_postcard id recipe_dials demo_dir recipe_config demo_scratch s4 = (Inr ''h b'', s5)"
      "calm (dx_world s5)" "\<forall>p. take 1 p \<noteq> demo_scratch \<longrightarrow> nodes (dx_world s5) p = nodes recipe_disk p"
    using demo_host_key [OF 4(2) _ refl] touches_nodes [OF 4(3)] s3(2,4) touches_env(6) [OF 4(3)] by auto
  have b: "banner (Some (as_bytes ''SSH-2'')) \<noteq> None" by code_simp
  have par: "parent_is_dir (nodes (dx_world s5)) ?kh"
    using 5(3) nk(3) follow_self [of "nodes (dx_world s5)" "[Normal ''s'', Normal ''ssh'']"]
    by (simp add: parent_is_dir_def parent_path_def is_dir_def)
  have "\<exists>w'. fs_write ?kh e (dx_world s5) = (Inr (), w')" for e
    using fs_write_fresh [of "dx_world s5" ?kh e] 5(2,3) nk(4) par by auto
  then obtain w6 where 6: "fs_write ?kh (as_bytes (fmt [known_host (SocketV4 2130706433 4000), '' '', ''h b'', nl])) (dx_world s5) = (Inr (), w6)"
    by blast
  have line: "authorized_line (sh_key_options recipe_config) (sh_key_ttl recipe_config) ''k b'' = recipe_line"
    by (simp add: recipe_config_def recipe_line_def)
  show ?thesis
    using 1 2 4(1) 5(1) b 6
    by (simp add: ssh_session_def p Let_def io_bind_def via_world_def io_context_def idle_def tr ck s3'
        line ensure_sshd_def forward_listener_def)
qed

lemma recipe_postcard_laws: "postcard_laws recipe_postcard"
  unfolding recipe_postcard_def by (rule listed_postcard_laws)

lemma path_of_a: "path_of ''a'' = [Normal ''a'']"
  by (simp add: path_of_def starts_with_def component_of_def)

lemma length_recipe_line: "length recipe_line = 33"
  by code_simp

section \<open>What the recipe guarantees\<close>

text \<open>C10. After the recipe has installed its key, the target's \<open>authorized_keys\<close> is the file the
  target had (or an empty one where it had none) with every line that carried this key taken out,
  every other line kept in its order, and the new line at the end; nobody but its owner can read or
  write it. The statement spans both transfers: the pull of the old file and the push of the merged
  one, each over its control socket, the proxy and the agent's stream.\<close>

theorem ssh_installs_key:
  assumes "postcard_laws pc"
    and "install_authorized_key pc sha dials st cfg blob line scratch s = (Inr (), s')"
    and "pull_file pc sha (dials 0) st (sh_agent cfg) (sh_authorized_keys cfg) (join scratch ''authorized_keys'')
       KEY_FILE_MAX_BYTES s = (Inr p, s1)"
    and "dials 0 (sock_path st) = Inr (r0, w0)" and "sent w0 = []" and "dials 1 (sock_path st) = Inr (r1, w1)" and "sent w1 = []"
    and "handle pc sha tg a = (y, a')" and "relayed pc c paths open_bi m r0 (sent (dx_send s1)) a a'"
    and "handle pc sha tg b = (z, b')" and "relayed pc c' paths' open_bi' m' r1 (sent (dx_send s')) b b'"
    and "calm (dx_world a)" and "length line < 4294967296"
    and "\<And>q b k. follow (nodes (dx_world a)) (path_of (sh_authorized_keys cfg)) = Some q \<Longrightarrow> nodes (dx_world a) q = Some (File b k)
      \<Longrightarrow> length b + CHUNK < 18446744073709551616"
  shows "\<exists>old u. held (nodes (dx_world a)) (path_of (sh_authorized_keys cfg)) old
    \<and> nodes (dx_world b') (path_of (sh_authorized_keys cfg)) =
        Some (File (concat (others blob old) @ as_bytes line @ [lf]) (and 384 u))"
  using assms by (rule installs_key)

theorem ssh_installs_key_witness:
  "\<exists>s' b b' y u. install_authorized_key recipe_postcard id recipe_dials demo_dir recipe_config ''b'' recipe_line demo_scratch (idle recipe_disk)
      = (Inr (), s')
    \<and> dx_world b = blank_world \<and> handle recipe_postcard id no_target b = (y, b')
    \<and> nodes (dx_world b') [Normal ''a''] = Some (File (as_bytes recipe_line @ [lf]) (and 384 u))"
proof -
  let ?ak = "join demo_scratch ''authorized_keys''" and ?m = "[(True, \<lparr>s_conn = 4, s_id = 4, s_since = 0\<rparr>)]"
  let ?a = "\<lparr>dx_recv = reader_of (frame [0]), dx_send = fresh_sink, dx_world = blank_world, dx_tcp = None\<rparr>"
  let ?b = "\<lparr>dx_recv = reader_of (frame [1, 0] @ recipe_body), dx_send = fresh_sink, dx_world = blank_world, dx_tcp = None\<rparr>"
  obtain s1 s' where pull: "pull_file recipe_postcard id (recipe_dials 0) demo_dir ''any'' ''a'' ?ak KEY_FILE_MAX_BYTES (idle recipe_disk) = (Inr Missing, s1)"
      and s1: "sent (dx_send s1) = frame [0] @ frame [0]"
      and inst: "install_authorized_key recipe_postcard id recipe_dials demo_dir recipe_config ''b'' recipe_line demo_scratch (idle recipe_disk) = (Inr (), s')"
      and s': "sent (dx_send s') = frame [0] @ frame [1, 0] @ recipe_body"
    using demo_install [of "idle recipe_disk" recipe_disk] recipe_disk_nodes(1) by (auto simp: idle_def recipe_disk_def)
  obtain a' where a: "handle recipe_postcard id no_target ?a = (Inr (), a')" "sent (dx_send a') = sent (dx_send ?a) @ frame [0]"
    by (rule handle_pull_none [where a = ?a and pb = "[0]" and q = "[Normal ''a'']" and pc = recipe_postcard
        and remote = "''a''" and sb = "[0]" and sha = id and tg = no_target])
      (simp_all add: recipe_codec path_of_a follow_self)
  have len: "length recipe_body = 34" by (simp add: recipe_body_def length_recipe_line)
  obtain b' where b: "handle recipe_postcard id no_target ?b = (Inr (), b')" "sent (dx_send b') = sent (dx_send ?b) @ frame [0]"
  proof (rule handle_push_ok [where a = ?b and pb = "[1, 0]" and c = recipe_body and pc = recipe_postcard and remote = "''a''" and mode = 384
        and len = "word_of_nat (length recipe_body)" and ab = "[0]" and sha = id and tg = no_target])
    fix r :: reader assume r: "arriving r = recipe_body" "broken r = None"
    show "\<exists>r' w'. recv_file_body id (path_of ''a'') (word_of_nat (length recipe_body)) (id recipe_body) 384 (- 1) (r, dx_world ?b) = (Inr (), (r', w'))"
      unfolding path_of_a by (rule recv_file_body_lands) (use r len in \<open>simp_all add: file_name_def CHUNK_def\<close>)
  qed (simp_all add: recipe_codec)
  have d: "recipe_dials 0 (sock_path demo_dir) = Inr (reader_of (demo_frame @ demo_frame), fresh_sink)"
      "recipe_dials 1 (sock_path demo_dir) = Inr (reader_of (demo_frame @ demo_frame), fresh_sink)"
    by (simp_all add: recipe_dials_def demo_frame)
  have ra: "relayed recipe_postcard two_keys (\<lambda>_. []) (\<lambda>_. Inr (reader_of demo_frame, fresh_sink)) ?m
        (reader_of (demo_frame @ demo_frame)) (sent (dx_send s1)) ?a a'"
    unfolding s1 demo_frame by (rule demo_relayed) (use a(2) in \<open>simp_all add: recipe_codec demo_frame\<close>)
  have rb: "relayed recipe_postcard two_keys (\<lambda>_. []) (\<lambda>_. Inr (reader_of demo_frame, fresh_sink)) ?m
        (reader_of (demo_frame @ demo_frame)) (sent (dx_send s')) ?b b'"
    unfolding s' demo_frame by (rule demo_relayed) (use b(2) in \<open>simp_all add: recipe_codec demo_frame\<close>)
  have cfg: "sh_agent recipe_config = ''any''" "sh_authorized_keys recipe_config = ''a''" by (simp_all add: recipe_config_def)
  have "\<exists>old u. held (nodes (dx_world ?a)) (path_of (sh_authorized_keys recipe_config)) old
    \<and> nodes (dx_world b') (path_of (sh_authorized_keys recipe_config)) =
        Some (File (concat (others ''b'' old) @ as_bytes recipe_line @ [lf]) (and 384 u))"
    by (rule ssh_installs_key [OF recipe_postcard_laws inst pull [folded cfg] d(1) _ d(2) _ a(1) ra b(1) rb])
      (simp_all add: length_recipe_line path_of_a cfg)
  then have "\<exists>u. nodes (dx_world b') [Normal ''a''] = Some (File (as_bytes recipe_line @ [lf]) (and 384 u))"
    by (auto simp: held_def path_of_a cfg others_def raw_lines.simps follow_self split: option.splits)
  with inst b(1) show ?thesis by (intro exI [of _ s'] exI [of _ ?b] exI [of _ b'] exI [of _ "Inr ()"]) simp
qed



end
