(* ===== verification/Access_Link.thy ===== *)
theory Access_Link
  imports State_Dir File_Transfer Process
begin

text \<open>
  \<open>src/link.rs\<close>: the access point a target hosts when no network will have it.  Its name, key,
  addresses and port are derived from the controller's node id, and printed in four forms;
  \<open>join\<close> takes the controller onto it and off it again.

  SHA-256 is an argument, of which a digest of 32 bytes is used.  So are the programs \<open>join\<close>
  runs, the answers of \<open>/sys\<close>, and what ends the wait.
\<close>

section \<open>The derivation\<close>

definition PREFIX_LEN :: u8 where "PREFIX_LEN = 16"

text \<open>In milliseconds.\<close>

definition JOIN_WAIT :: nat where "JOIN_WAIT = 60000"

record link =
  lk_ssid :: string
  lk_psk :: string
  lk_target :: u32
  lk_controller :: u32
  lk_port :: u16

definition link_hash :: "(bytes \<Rightarrow> bytes) \<Rightarrow> string \<Rightarrow> bytes \<Rightarrow> bytes" where
  "link_hash sha label nid = sha (as_bytes label @ nid)"

definition host_octet :: "u8 \<Rightarrow> u8" where
  "host_octet b = 1 + b mod 254"

text \<open>\<open>Ipv4Addr::new\<close> and \<open>u16::from_be_bytes\<close>.\<close>

definition ipv4 :: "u8 \<Rightarrow> u8 \<Rightarrow> u8 \<Rightarrow> u8 \<Rightarrow> u32" where
  "ipv4 a b c d = word_of_nat (((unat a * 256 + unat b) * 256 + unat c) * 256 + unat d)"

definition u16_from_be :: "u8 \<Rightarrow> u8 \<Rightarrow> u16" where
  "u16_from_be a b = word_of_nat (unat a * 256 + unat b)"

definition derive :: "(bytes \<Rightarrow> bytes) \<Rightarrow> bytes \<Rightarrow> link" where
  "derive sha nid =
     (let ssid = link_hash sha ''egdod-link-ssid'' nid;
          psk = link_hash sha ''egdod-link-psk'' nid;
          a = link_hash sha ''egdod-link-addr'' nid;
          x = host_octet (a ! 0);
          y = host_octet (a ! 1);
          z = host_octet (a ! 2);
          z = (if z = y then host_octet z else z)
      in \<lparr>lk_ssid = fmt [''egdod-'', hex (take 4 ssid)],
          lk_psk = hex psk,
          lk_target = ipv4 169 254 x y,
          lk_controller = ipv4 169 254 x z,
          lk_port = 49152 + u16_from_be (a ! 3) (a ! 4) mod 16384\<rparr>)"

section \<open>Its printed forms\<close>

definition hostapd_conf :: "link \<Rightarrow> string \<Rightarrow> string" where
  "hostapd_conf l iface =
     fmt [''interface='', iface, nl, ''driver=nl80211'', nl, ''ssid='', lk_ssid l, nl, ''hw_mode=g'', nl, ''channel=6'', nl,
          ''wpa=2'', nl, ''wpa_key_mgmt=WPA-PSK'', nl, ''rsn_pairwise=CCMP'', nl, ''wpa_psk='', lk_psk l, nl]"

definition supplicant_conf :: "link \<Rightarrow> string" where
  "supplicant_conf l =
     fmt [''network={'', nl, [tab], ''ssid='', [quote], lk_ssid l, [quote], nl, [tab], ''psk='', lk_psk l, nl,
          [tab], ''key_mgmt=WPA-PSK'', nl, ''}'', nl]"

definition link_lines :: "link \<Rightarrow> string" where
  "link_lines l =
     fmt [''ssid='', lk_ssid l, nl, ''psk='', lk_psk l, nl, ''target='', show_v4 (lk_target l), nl,
          ''controller='', show_v4 (lk_controller l), nl, ''prefix='', dec (unat PREFIX_LEN), nl,
          ''port='', dec (unat (lk_port l)), nl]"

datatype Show = Lines | Json | Hostapd string | Supplicant

text \<open>\<open>show\<close> prints this text; the JSON printer is an argument.\<close>

definition show_link :: "(bytes \<Rightarrow> bytes) \<Rightarrow> (link \<Rightarrow> string result) \<Rightarrow> bytes \<Rightarrow> Show \<Rightarrow> string result" where
  "show_link sha to_json nid what =
     (let link = derive sha nid in
      case what of
        Lines \<Rightarrow> Inr (link_lines link)
      | Json \<Rightarrow> (case to_json link of Inl e \<Rightarrow> Inl e | Inr j \<Rightarrow> Inr (fmt [j, nl]))
      | Hostapd iface \<Rightarrow> Inr (hostapd_conf link iface)
      | Supplicant \<Rightarrow> Inr (supplicant_conf link))"

section \<open>Joining\<close>

text \<open>The state of \<open>join\<close>: the disk, and what was done to other processes, in order.\<close>

datatype link_event = Ran "string list" | Started "string list" | Killed

record link_run =
  lr_world :: world
  lr_log :: "link_event list"

definition log_event :: "link_event \<Rightarrow> (link_run, unit) io" where
  "log_event e s = (Inr (), s\<lparr>lr_log := lr_log s @ [e]\<rparr>)"

definition lr_io :: "(world, 'a) io \<Rightarrow> (link_run, 'a) io" where
  "lr_io m s = (case m (lr_world s) of (x, w') \<Rightarrow> (x, s\<lparr>lr_world := w'\<rparr>))"

fun joined :: "string list \<Rightarrow> string" where
  "joined [] = []"
| "joined [w] = w"
| "joined (w # ws) = fmt [w, '' '', joined ws]"

definition ip :: "spawn \<Rightarrow> string list \<Rightarrow> (link_run, unit) io" where
  "ip spawn args =
     io_bind (log_event (Ran (''ip'' # args))) (\<lambda>_.
     io_bind (io_context (fmt [''running ip '', joined args]) (lr_io (spawn (''ip'' # args)))) (\<lambda>status.
     io_lift (ensure (exit_success status) (fmt [''ip '', joined args, '' failed with '', show_ExitStatus status]))))"

text \<open>The answer of \<open>/sys\<close> to the \<open>i\<close>-th reading of a file is an argument.\<close>

definition carrier :: "(string \<Rightarrow> nat \<Rightarrow> string result) \<Rightarrow> string \<Rightarrow> nat \<Rightarrow> bool" where
  "carrier sysfs iface i =
     (case sysfs (fmt [''/sys/class/net/'', iface, ''/carrier'']) i of
        Inr s \<Rightarrow> trim s = ''1''
      | Inl e \<Rightarrow> False)"

text \<open>The loop that waits for a carrier. \<open>polls i\<close> is what the \<open>i\<close>-th \<open>try_wait\<close> finds of the
  supplicant; \<open>slack i\<close> is by how many milliseconds the \<open>i\<close>-th turn took longer than its sleep of
  one second.\<close>

function await_carrier ::
  "(nat \<Rightarrow> bool) \<Rightarrow> (nat \<Rightarrow> ExitStatus option result) \<Rightarrow> (nat \<Rightarrow> nat) \<Rightarrow> string \<Rightarrow> nat \<Rightarrow> nat \<Rightarrow> nat \<Rightarrow> unit result" where
  "await_carrier has_carrier polls slack ssid deadline i now =
     (if has_carrier i then Inr ()
      else if deadline < now then Inl (Msg (fmt [ssid, '' not in range within '', ''60s'']))
      else
        (case polls i of
           Inl e \<Rightarrow> Inl e
         | Inr (Some status) \<Rightarrow> Inl (Msg (fmt [''wpa_supplicant exited with '', show_ExitStatus status]))
         | Inr None \<Rightarrow> await_carrier has_carrier polls slack ssid deadline (Suc i) (now + 1000 + slack i)))"
  by pat_completeness auto
termination
  by (relation "measure (\<lambda>(_, _, _, _, deadline, _, now). Suc deadline - now)") auto

declare await_carrier.simps [simp del]

text \<open>What ends the time on the link.\<close>

datatype ending = CtrlC "unit result" | ChildExit "ExitStatus result"

record join_env =
  je_sysfs :: "string \<Rightarrow> nat \<Rightarrow> string result"
  je_start :: "string list \<Rightarrow> unit result"
  je_polls :: "nat \<Rightarrow> ExitStatus option result"
  je_slack :: "nat \<Rightarrow> nat"
  je_ending :: ending

definition join_outcome :: "join_env \<Rightarrow> string \<Rightarrow> string \<Rightarrow> unit result" where
  "join_outcome env ssid iface =
     (case await_carrier (carrier (je_sysfs env) iface) (je_polls env) (je_slack env) ssid JOIN_WAIT 0 0 of
        Inl e \<Rightarrow> Inl e
      | Inr _ \<Rightarrow>
          (case je_ending env of
             CtrlC r \<Rightarrow> with_context ''waiting for ctrl-c'' r
           | ChildExit (Inl e) \<Rightarrow> Inl e
           | ChildExit (Inr status) \<Rightarrow> Inl (Msg (fmt [''wpa_supplicant exited with '', show_ExitStatus status]))))"

definition link_conf_path :: "StateDir \<Rightarrow> path" where
  "link_conf_path st = join (root st) ''link.conf''"

definition cidr_of :: "link \<Rightarrow> string" where
  "cidr_of l = fmt [show_v4 (lk_controller l), ''/'', dec (unat PREFIX_LEN)]"

definition wpa_argv :: "StateDir \<Rightarrow> string \<Rightarrow> string list" where
  "wpa_argv st iface = [''wpa_supplicant'', ''-i'', iface, ''-c'', show_path (link_conf_path st)]"

definition join_link ::
  "(bytes \<Rightarrow> bytes) \<Rightarrow> (bytes \<Rightarrow> 'sk) \<Rightarrow> ('sk \<Rightarrow> bytes) \<Rightarrow> spawn \<Rightarrow> join_env \<Rightarrow> StateDir \<Rightarrow> string \<Rightarrow> (link_run, unit) io" where
  "join_link sha from_bytes public spawn env st iface =
     io_bind (lr_io (load_key from_bytes st)) (\<lambda>k.
     let link = derive sha (public k); cidr = cidr_of link; conf = link_conf_path st in
     io_bind (ip spawn [''link'', ''set'', ''dev'', iface, ''up'']) (\<lambda>_.
     io_bind (ip spawn [''addr'', ''replace'', cidr, ''dev'', iface]) (\<lambda>_.
     io_bind (io_context (fmt [''writing '', show_path conf]) (lr_io (fs_write conf (as_bytes (supplicant_conf link))))) (\<lambda>_.
     io_bind (io_lift (with_context ''spawning wpa_supplicant'' (je_start env (wpa_argv st iface)))) (\<lambda>_.
     io_bind (log_event (Started (wpa_argv st iface))) (\<lambda>_.
     let outcome = join_outcome env (lk_ssid link) iface in
     io_bind (log_event Killed) (\<lambda>_.
     io_catch (ip spawn [''addr'', ''del'', cidr, ''dev'', iface]) (\<lambda>_.
     io_catch (lr_io (remove_file conf)) (\<lambda>_.
     io_lift outcome)))))))))"

section \<open>Every derived link is usable\<close>

lemma four_octets:
  "a < 256 \<Longrightarrow> b < 256 \<Longrightarrow> c < 256 \<Longrightarrow> d < 256 \<Longrightarrow> ((a * 256 + b) * 256 + c) * 256 + d < (4294967296 :: nat)"
  by simp

lemma four_octets_split:
  fixes a b c d :: nat
  assumes "a < 256" and "b < 256" and "c < 256" and "d < 256"
  defines "n \<equiv> ((a * 256 + b) * 256 + c) * 256 + d"
  shows "n div 16777216 mod 256 = a" "n div 65536 mod 256 = b" "n div 256 mod 256 = c" "n mod 256 = d"
proof -
  have low: "(m * 256 + k) div 256 = m" "(m * 256 + k) mod 256 = k" if "k < 256" for m k :: nat using that by simp_all
  note one = low [OF assms(4), of "(a * 256 + b) * 256 + c", folded n_def]
  have "n div 65536 = n div 256 div 256" by (simp add: div_mult2_eq [symmetric])
  with one assms(3) have two: "n div 65536 = a * 256 + b" by simp
  have "n div 16777216 = n div 65536 div 256" by (simp add: div_mult2_eq [symmetric])
  with two assms(2) have "n div 16777216 = a" by simp
  with one two assms(1,2) show "n div 16777216 mod 256 = a" "n div 65536 mod 256 = b" "n mod 256 = d" by simp_all
  show "n div 256 mod 256 = c" unfolding one(1) by (rule low(2) [OF assms(3)])
qed

lemma octet4_ipv4:
  "octet4 0 (ipv4 a b c d) = unat a" "octet4 1 (ipv4 a b c d) = unat b"
  "octet4 2 (ipv4 a b c d) = unat c" "octet4 3 (ipv4 a b c d) = unat d"
proof -
  have w: "unat (word_of_nat n :: u32) = n" if "n < 4294967296" for n using that by (simp add: unat_of_nat)
  have u: "unat (ipv4 a b c d) = ((unat a * 256 + unat b) * 256 + unat c) * 256 + unat d"
    unfolding ipv4_def by (rule w [OF four_octets]) (rule unat_u8_less)+
  note s = four_octets_split [OF unat_u8_less unat_u8_less unat_u8_less unat_u8_less, of a b c d, folded u]
  show "octet4 0 (ipv4 a b c d) = unat a" "octet4 1 (ipv4 a b c d) = unat b"
      "octet4 2 (ipv4 a b c d) = unat c" "octet4 3 (ipv4 a b c d) = unat d"
    using s by (simp_all add: octet4_def)
qed

lemma unat_host_octet: "unat (host_octet b) = 1 + unat b mod 254"
proof -
  have "unat b mod 254 < 254" by simp
  then show ?thesis unfolding host_octet_def by (simp add: unat_word_ariths)
qed

lemma host_octet_bumped: "host_octet (host_octet b) \<noteq> host_octet b"
proof
  assume "host_octet (host_octet b) = host_octet b"
  then have "unat (host_octet (host_octet b)) = unat (host_octet b)" by simp
  then have "(1 + unat b mod 254) mod 254 = unat b mod 254" by (simp add: unat_host_octet)
  moreover have "unat b mod 254 < 254" by simp
  ultimately show False by (cases "unat b mod 254 = 253") auto
qed

definition link_wf :: "link \<Rightarrow> bool" where
  "link_wf l \<longleftrightarrow>
     length (lk_ssid l) = 14 \<and> set (lk_ssid l) \<subseteq> set ''egdod-'' \<union> lower_hex
   \<and> length (lk_psk l) = 64 \<and> set (lk_psk l) \<subseteq> lower_hex
   \<and> (\<forall>a \<in> {lk_target l, lk_controller l}. is_link_local4 a \<and> octet4 2 a \<in> {1..254} \<and> octet4 3 a \<in> {1..254})
   \<and> octet4 2 (lk_target l) = octet4 2 (lk_controller l) \<and> lk_target l \<noteq> lk_controller l
   \<and> 49152 \<le> unat (lk_port l)"

lemma derive_wf:
  assumes "\<And>x. length (sha x) = 32"
  shows "link_wf (derive sha nid)"
proof -
  define a where "a = link_hash sha ''egdod-link-addr'' nid"
  define y where "y = host_octet (a ! 1)"
  define z where "z = (if host_octet (a ! 2) = y then host_octet (host_octet (a ! 2)) else host_octet (a ! 2))"
  have r: "unat (host_octet b) \<in> {1..254}" for b
  proof -
    have "unat b mod 254 < 254" by simp
    then show ?thesis unfolding unat_host_octet atLeastAtMost_iff by linarith
  qed
  have z: "unat z \<in> {1..254}" "unat y \<in> {1..254}" using r by (auto simp: z_def y_def)
  have ne: "y \<noteq> z" using host_octet_bumped [of "a ! 2"] by (auto simp: z_def)
  have d: "derive sha nid = \<lparr>lk_ssid = ''egdod-'' @ hex (take 4 (link_hash sha ''egdod-link-ssid'' nid)),
      lk_psk = hex (link_hash sha ''egdod-link-psk'' nid),
      lk_target = ipv4 169 254 (host_octet (a ! 0)) y, lk_controller = ipv4 169 254 (host_octet (a ! 0)) z,
      lk_port = 49152 + u16_from_be (a ! 3) (a ! 4) mod 16384\<rparr>"
    by (simp add: derive_def Let_def fmt_def a_def y_def z_def)
  have port: "49152 \<le> unat (49152 + p mod 16384 :: u16)" for p
  proof -
    have "unat p mod 16384 < 16384" by simp
    then show ?thesis by (simp add: unat_word_ariths)
  qed
  have "ipv4 169 254 x y \<noteq> ipv4 169 254 x z" for x
    using ne octet4_ipv4(4) [of 169 254 x] by (metis word_unat_eq_iff)
  with z r [of "a ! 0"] port set_hex show ?thesis
    by (auto simp: d link_wf_def octet4_ipv4 octet4_ipv4 [unfolded One_nat_def] is_link_local4_def length_hex link_hash_def assms)
qed

lemma link_local_lan: "is_link_local4 v \<Longrightarrow> classify_ip (V4 v) = DirectLan"
  by (simp add: classify_ip_def is_link_local4_def)

text \<open>C27. Whatever the digest, the derived link can be used: the SSID has 14 bytes of letters, digits
  and a dash and the key 64 hexadecimal digits; both addresses are link-local, outside the reserved
  blocks and no network or broadcast address, on one /24 and distinct, so that a session over the
  link is labelled \<open>direct-lan\<close>; and the port is a dynamic one.\<close>

theorem derive_usable:
  assumes "\<And>x. length (sha x) = 32"
  shows "link_wf (derive sha nid)
    \<and> classify_ip (V4 (lk_target (derive sha nid))) = DirectLan
    \<and> classify_ip (V4 (lk_controller (derive sha nid))) = DirectLan"
  using derive_wf [of sha nid, OF assms] link_local_lan by (simp add: link_wf_def)

theorem derive_usable_witness:
  "link_wf (derive (\<lambda>_. replicate 32 0) [1])
    \<and> classify_ip (V4 (lk_target (derive (\<lambda>_. replicate 32 0) [1]))) = DirectLan"
  using derive_usable [of "\<lambda>_. replicate 32 0" "[1]"] by simp

section \<open>Joining and leaving\<close>

lemma await_carrier_Inr:
  "await_carrier has_carrier polls slack ssid deadline i now = Inr () \<Longrightarrow>
     \<exists>j \<ge> i. has_carrier j \<and> (j = i \<or> now + 1000 * (j - i) \<le> deadline + 1000)"
proof (induction has_carrier polls slack ssid deadline i now rule: await_carrier.induct)
  case (1 has_carrier polls slack ssid deadline i now)
  show ?case
  proof (cases "has_carrier i \<or> deadline < now")
    case True
    with "1.prems" show ?thesis by (subst (asm) await_carrier.simps) (auto split: if_splits)
  next
    case False
    with "1.prems" have p: "polls i = Inr None"
      "await_carrier has_carrier polls slack ssid deadline (Suc i) (now + 1000 + slack i) = Inr ()"
      by (subst (asm) await_carrier.simps, auto split: sum.splits option.splits)+
    from "1.IH" [OF _ _ p(1) _ p(2)] False obtain j where
      "Suc i \<le> j" "has_carrier j" "j = Suc i \<or> now + 1000 + slack i + 1000 * (j - Suc i) \<le> deadline + 1000" by auto
    with False show ?thesis by (intro exI [of _ j]) auto
  qed
qed

lemma join_outcome_Inr:
  assumes "join_outcome env ssid iface = Inr ()"
  shows "\<exists>j \<le> 61. carrier (je_sysfs env) iface j" and "je_ending env = CtrlC (Inr ())"
proof -
  let ?a = "await_carrier (carrier (je_sysfs env) iface) (je_polls env) (je_slack env) ssid JOIN_WAIT 0 0"
  from assms have a: "?a = Inr ()" and e: "je_ending env = CtrlC (Inr ())"
    by (auto simp: join_outcome_def with_context_def split: sum.splits ending.splits)
  from await_carrier_Inr [OF a] obtain j where j: "carrier (je_sysfs env) iface j" "j = 0 \<or> 1000 * j \<le> 61000"
    by (auto simp: JOIN_WAIT_def)
  then have "j \<le> 61" by auto
  with j(1) show "\<exists>j \<le> 61. carrier (je_sysfs env) iface j" by blast
  show "je_ending env = CtrlC (Inr ())" by (rule e)
qed

text \<open>A file just written, and then left alone, can be removed again.\<close>

lemma remove_written:
  assumes "fs_write p b w = (Inr (), w1)" and "nodes w2 = nodes w1" and "calm w2" and "remove_file p w2 = (x, w3)"
  shows "nodes w3 p = None"
proof -
  from fs_write_follow [OF assms(1)] obtain q k where q: "follow (nodes w1) p = Some q" "nodes w1 q = Some (File b k)" by blast
  have "nodes w1 p \<noteq> None \<and> (\<forall>m. nodes w1 p \<noteq> Some (Dir m))"
    using q follow_self [of "nodes w1" p] by auto
  with assms(2-4) show ?thesis
    by (auto simp: remove_file_def fs_call_calm put_node_def put_nodes_def split: option.splits node.splits)
qed

lemma load_key_touches: "io_respects (touches S) (load_key from_bytes st)"
  unfolding load_key_def by (intro io_respects_bind transp_touches read_key_touches io_respects_lift reflp_touches)

text \<open>Programs that leave the files of this model alone.\<close>

definition quiet :: "spawn \<Rightarrow> bool" where
  "quiet spawn \<longleftrightarrow> (\<forall>argv w. touches {} w (snd (spawn argv w)))"

lemma ip_frame:
  assumes "ip spawn args s = (x, s')" and "quiet spawn"
  shows "lr_log s' = lr_log s @ [Ran (''ip'' # args)] \<and> touches {} (lr_world s) (lr_world s')"
  using assms(1) assms(2) [unfolded quiet_def, rule_format, of "lr_world s" "''ip'' # args"]
  by (auto simp: ip_def io_bind_def io_context_def log_event_def lr_io_def io_lift_def split: prod.splits sum.splits)

lemma join_link_cases:
  assumes "join_link sha from_bytes public spawn env st iface s = (r, s')" and "quiet spawn"
  obtains (early) e where "r = Inl e" "\<And>v. Started v \<in> set (lr_log s') \<Longrightarrow> Started v \<in> set (lr_log s)"
  | (started) k l w3 w4 w5 x6 where "l = derive sha (public k)" "touches {} (lr_world s) w3"
      "fs_write (link_conf_path st) (as_bytes (supplicant_conf l)) w3 = (Inr (), w4)" "touches {} w4 w5"
      "remove_file (link_conf_path st) w5 = (x6, lr_world s')"
      "lr_log s' = lr_log s @ [Ran [''ip'', ''link'', ''set'', ''dev'', iface, ''up''],
         Ran [''ip'', ''addr'', ''replace'', cidr_of l, ''dev'', iface], Started (wpa_argv st iface), Killed,
         Ran [''ip'', ''addr'', ''del'', cidr_of l, ''dev'', iface]]"
      "r = join_outcome env (lk_ssid l) iface"
proof -
  from assms(1) show thesis unfolding join_link_def
  proof (cases rule: io_bind_cases)
    case (fails e)
    then show thesis by (auto simp: lr_io_def split: prod.splits intro: early)
  next
    case (continues k s1)
    define l where "l = derive sha (public k)"
    from continues(1) have k: "load_key from_bytes st (lr_world s) = (Inr k, lr_world s1)" "lr_log s1 = lr_log s"
      by (auto simp: lr_io_def split: prod.splits)
    note t = io_respectsD [OF load_key_touches [of "{}"] k(1)]
    from continues(2) [unfolded Let_def, folded l_def] k(2) show thesis
      by (auto simp: log_event_def lr_io_def io_lift_def io_context_def io_catch_def dest!: ip_frame [OF _ assms(2)]
          elim!: io_bind_cases split: prod.splits intro: early)
        (rule early, assumption, force, rule early, assumption, force,
          rule started [OF l_def touches_trans [OF touches_trans [OF t]]], assumption+, simp_all)
  qed
qed


definition link_disk :: world where
  "link_disk = blank_world\<lparr>nodes := [[Normal ''s''] \<mapsto> Dir 448, [Normal ''s'', Normal ''controller.key''] \<mapsto> File (replicate 32 1) 384]\<rparr>"


definition link_env :: join_env where
  "link_env = \<lparr>je_sysfs = (\<lambda>_ _. Inr ''1''), je_start = (\<lambda>_. Inr ()), je_polls = (\<lambda>_. Inr None), je_slack = (\<lambda>_. 0),
     je_ending = CtrlC (Inr ())\<rparr>"

lemma link_env_outcome: "join_outcome link_env ssid iface = Inr ()"
proof -
  have "trim ''1'' = ''1''" by code_simp
  then show ?thesis by (simp add: join_outcome_def await_carrier.simps carrier_def link_env_def)
qed

lemma demo_join:
  "\<exists>s'. join_link (\<lambda>_. replicate 32 0) id id (\<lambda>_ w. (Inr (Exited 0), w)) link_env demo_dir ''w''
     \<lparr>lr_world = link_disk, lr_log = []\<rparr> = (Inr (), s') \<and> Started (wpa_argv demo_dir ''w'') \<in> set (lr_log s')"
proof -
  let ?k = "[Normal ''s'', Normal ''controller.key'']" and ?c = "[Normal ''s'', Normal ''link.conf'']"
  have p: "key_path demo_dir = ?k" "link_conf_path demo_dir = ?c"
    by (simp_all add: key_path_def link_conf_path_def join_def)
  have d: "calm link_disk" "nodes link_disk ?k = Some (File (replicate 32 1) 384)" "nodes link_disk ?c = None"
      "nodes link_disk [Normal ''s''] = Some (Dir 448)" by (simp_all add: link_disk_def calm_def)
  obtain w1 where k: "read_key id ?k link_disk = (Inr (Some (replicate 32 1)), w1)" and t: "touches {} link_disk w1"
    using read_key_file [OF d(1,2), of id] by auto
  have c1: "calm w1" and n1: "nodes w1 = nodes link_disk" using touches_calm [OF t] d(1) touches_nodes [OF t] by auto
  have par: "parent_is_dir (nodes w1) ?c"
    using n1 d(4) follow_self [of "nodes w1" "[Normal ''s'']"] by (simp add: parent_is_dir_def parent_path_def is_dir_def)
  have "\<exists>w4. fs_write ?c b w1 = (Inr (), w4)" for b using fs_write_fresh [of w1 ?c b] c1 n1 d(3) par by auto
  then obtain w4 where w: "fs_write ?c (as_bytes (supplicant_conf (derive (\<lambda>_. replicate 32 0) (replicate 32 1)))) w1 = (Inr (), w4)"
    by blast
  have "je_start link_env v = Inr ()" for v by (simp add: link_env_def)
  with k w show ?thesis
    by (simp add: join_link_def load_key_def p io_bind_def lr_io_def ip_def log_event_def io_context_def io_catch_def
        exit_success_def Let_def link_env_outcome split: prod.split)
qed


end
