(* ===== verification/Boot_Init.thy ===== *)
theory Boot_Init
  imports Access_Link
begin

text \<open>
  \<open>src/boot/init.c\<close>: process 1 of the boot image.  Its readers of text: the words of the kernel
  command line, the lines of what \<open>egdod link\<close> prints, and the command lines it makes of them.
  A C string is its bytes up to the terminator.
\<close>

section \<open>The kernel command line\<close>

definition blank :: char where "blank = CHR '' ''"

text \<open>\<open>arg\<close> and \<open>flag\<close> answer for the first word that matches; \<open>arg\<close> with the rest of the line
  behind the equals sign.\<close>

definition next_word :: "string \<Rightarrow> string option" where
  "next_word p = (case dropWhile (\<lambda>c. c \<noteq> blank) p of [] \<Rightarrow> None | _ # r \<Rightarrow> Some r)"

lemma next_word_shorter: "next_word p = Some r \<Longrightarrow> length r < length p"
  unfolding next_word_def using length_dropWhile_le [of "\<lambda>c. c \<noteq> blank" p]
  by (auto split: list.splits simp: less_eq_Suc_le)

function arg :: "string \<Rightarrow> string \<Rightarrow> string option" where
  "arg p key =
     (if p = [] then None
      else
        (let q = dropWhile (\<lambda>c. c = blank) p in
         if starts_with q (key @ ''='') then Some (drop (length key + 1) q)
         else (case next_word q of None \<Rightarrow> None | Some r \<Rightarrow> arg r key)))"
  by pat_completeness auto
termination
  by (relation "measure (\<lambda>(p, _). length p)")
    (auto dest!: next_word_shorter intro: less_le_trans [OF _ length_dropWhile_le])

function flag :: "string \<Rightarrow> string \<Rightarrow> bool" where
  "flag p key =
     (if p = [] then False
      else
        (let q = dropWhile (\<lambda>c. c = blank) p in
         if starts_with q key
           \<and> (case drop (length key) q of [] \<Rightarrow> True | c # _ \<Rightarrow> c = blank \<or> c = newline) then True
         else (case next_word q of None \<Rightarrow> False | Some r \<Rightarrow> flag r key)))"
  by pat_completeness auto
termination
  by (relation "measure (\<lambda>(p, _). length p)")
    (auto dest!: next_word_shorter intro: less_le_trans [OF _ length_dropWhile_le])

declare arg.simps [simp del] and flag.simps [simp del]

definition dup_word :: "string \<Rightarrow> string" where
  "dup_word s = takeWhile (\<lambda>c. c \<noteq> blank \<and> c \<noteq> newline) s"

section \<open>The derivation, as init reads it\<close>

text \<open>\<open>capture\<close>: the output of a program that exits with 0, as far as it fits the buffer.\<close>

definition capture :: "(string list \<Rightarrow> ExitStatus \<times> string) \<Rightarrow> string list \<Rightarrow> nat \<Rightarrow> string option" where
  "capture prog av cap =
     (case prog av of (status, text) \<Rightarrow> if exit_success status then Some (take (cap - 1) text) else None)"

function field :: "string \<Rightarrow> string \<Rightarrow> nat \<Rightarrow> string option" where
  "field p key cap =
     (if p = [] then None
      else if starts_with p (key @ ''='') then
        (let v = takeWhile (\<lambda>c. c \<noteq> newline) (drop (length key + 1) p) in
         if cap \<le> length v then None else Some v)
      else (case dropWhile (\<lambda>c. c \<noteq> newline) p of [] \<Rightarrow> None | _ # r \<Rightarrow> field r key cap))"
  by pat_completeness auto
termination
proof (relation "measure (\<lambda>(p, _). length p)", goal_cases)
  case (2 p key cap c r)
  with length_dropWhile_le [of "\<lambda>c. c \<noteq> newline" p] show ?case by auto
qed simp

declare field.simps [simp del]

text \<open>The first half of \<open>access_point\<close>: what it takes from the two runs of \<open>egdod link\<close>. The
  dial address is cut to its buffer of 64 bytes, the name of the device to its 16; \<open>atoi\<close> reads the prefix length.\<close>

record ap_link =
  ap_ssid :: string
  ap_target :: string
  ap_mask :: u32
  ap_dial :: string
  ap_conf :: string

definition atoi_digits :: "string \<Rightarrow> nat" where
  "atoi_digits s = foldl (\<lambda>n c. 10 * n + (of_char c - 48)) 0 (takeWhile (\<lambda>c. c \<in> set ''0123456789'') s)"

definition ap_fields :: "string \<Rightarrow> string \<Rightarrow> ap_link option" where
  "ap_fields text conf =
     (case (field text ''ssid'' 64, field text ''target'' 32, field text ''controller'' 32, field text ''port'' 8,
            field text ''prefix'' 4) of
        (Some ssid, Some target, Some controller, Some port, Some plen) \<Rightarrow>
          Some \<lparr>ap_ssid = ssid, ap_target = target,
            ap_mask = push_bit (32 - atoi_digits plen) (- 1),
            ap_dial = take 63 (fmt [controller, '':'', port]), ap_conf = conf\<rparr>
      | _ \<Rightarrow> None)"

definition ap_link_of :: "(string list \<Rightarrow> ExitStatus \<times> string) \<Rightarrow> string \<Rightarrow> string \<Rightarrow> ap_link option" where
  "ap_link_of prog cmdline wireless =
     (case arg cmdline ''egdod.controller'' of
        None \<Rightarrow> None
      | Some nid \<Rightarrow>
          (if wireless = [] then None
           else
             (let dev = take 15 wireless; idw = dup_word nid in
              case (capture prog [''/egdod'', ''link'', idw] 1024,
                    capture prog [''/egdod'', ''link'', idw, ''--hostapd'', dev] 1024) of
                (Some text, Some conf) \<Rightarrow> ap_fields text conf
              | _ \<Rightarrow> None)))"

section \<open>The agent's command line\<close>

datatype link_kind = NONE | WIRED | STATION | AP | BLE

definition agent_argv :: "string \<Rightarrow> link_kind \<Rightarrow> string \<Rightarrow> string list" where
  "agent_argv cmdline kind dial =
     [''/egdod'', ''agent'', ''--controller'',
      (case arg cmdline ''egdod.controller'' of None \<Rightarrow> [] | Some c \<Rightarrow> dup_word c),
      ''--key-file'', ''/agent.key''] @
     (if kind = AP then [''--no-relay'', ''--direct'', dial]
      else
        (if flag cmdline ''egdod.norelay'' then [''--no-relay''] else [])
        @ (case arg cmdline ''egdod.relay'' of None \<Rightarrow> [] | Some r \<Rightarrow> [''--relay'', dup_word r])
        @ (case arg cmdline ''egdod.direct'' of None \<Rightarrow> [] | Some d \<Rightarrow> [''--direct'', dup_word d]))"

section \<open>Words of the command line\<close>

fun words_line :: "string list \<Rightarrow> string" where
  "words_line [] = []"
| "words_line [w] = w"
| "words_line (w # ws) = w @ blank # words_line ws"

definition is_word :: "string \<Rightarrow> bool" where
  "is_word w \<longleftrightarrow> w \<noteq> [] \<and> blank \<notin> set w \<and> newline \<notin> set w"

definition value_of :: "string \<Rightarrow> string list \<Rightarrow> string option" where
  "value_of key ws = map_option (drop (length key + 1)) (find (\<lambda>w. starts_with w (key @ ''='')) ws)"

lemma starts_with_append:
  assumes "c \<notin> set p"
  shows "starts_with (u @ c # t) p \<longleftrightarrow> starts_with u p"
proof (cases "length u < length p")
  case True
  then have "c \<in> set (take (length p) (u @ c # t))" by (simp add: take_Cons')
  with assms have "\<not> starts_with (u @ c # t) p" unfolding starts_with_def by metis
  with True show ?thesis by (auto simp: starts_with_def)
qed (simp add: starts_with_def)

lemma next_word_append: "blank \<notin> set u \<Longrightarrow> next_word (u @ blank # t) = Some t"
proof -
  assume "blank \<notin> set u"
  then have "dropWhile (\<lambda>c. c \<noteq> blank) (u @ blank # t) = blank # t"
    by (subst dropWhile_append2) auto
  then show ?thesis by (simp add: next_word_def)
qed

lemma next_word_last: "blank \<notin> set u \<Longrightarrow> next_word u = None"
proof -
  assume "blank \<notin> set u"
  then have "dropWhile (\<lambda>c. c \<noteq> blank) u = []" by (auto simp: dropWhile_eq_Nil_conv)
  then show ?thesis unfolding next_word_def by (simp only: list.case)
qed

text \<open>The kernel command line is read word by word: whatever words are on it, \<open>arg\<close> with
  \<open>dup_word\<close> gives the value of the first one that has the form \<open>key=value\<close>, whole, and nothing
  when there is none.\<close>

theorem arg_words:
  assumes "\<forall>w \<in> set ws. is_word w" and "blank \<notin> set key"
  shows "map_option dup_word (arg (words_line ws) key) = value_of key ws"
  using assms
proof (induction ws rule: words_line.induct)
  case 1
  then show ?case by (simp add: arg.simps value_of_def)
next
  case (2 w)
  then have w: "w \<noteq> []" "dropWhile (\<lambda>c. c = blank) w = w" "blank \<notin> set w" "newline \<notin> set w"
    by (auto simp: is_word_def dropWhile_eq_self_iff dest: hd_in_set)
  have "dup_word (drop n w) = drop n w" for n
    using w(3,4) by (auto simp: dup_word_def takeWhile_eq_all_conv dest: in_set_dropD)
  with w show ?case by (subst arg.simps) (simp add: value_of_def next_word_last)
next
  case (3 w v ws)
  let ?t = "words_line (v # ws)"
  from 3 have w: "w \<noteq> []" "dropWhile (\<lambda>c. c = blank) (w @ blank # ?t) = w @ blank # ?t" "blank \<notin> set w" "newline \<notin> set w"
    by (auto simp: is_word_def dropWhile_eq_self_iff dest: hd_in_set)
  have s: "starts_with (w @ blank # ?t) (key @ ''='') \<longleftrightarrow> starts_with w (key @ ''='')"
    using 3(3) by (intro starts_with_append) (simp add: blank_def)
  have "dup_word (drop (Suc (length key)) w @ blank # ?t) = drop (Suc (length key)) w" 
    using w(3,4) by (auto simp: dup_word_def takeWhile_tail dest: in_set_dropD)
  moreover have "Suc (length key) \<le> length w" if "starts_with w (key @ ''='')"
    using that arg_cong [OF that [unfolded starts_with_def], of length] by simp
  ultimately show ?case using w s 3
    by (subst words_line.simps, subst arg.simps) (auto simp: value_of_def next_word_append)
qed


theorem arg_words_witness:
  "map_option dup_word (arg (words_line [''a'', ''k=v'', ''k=w'']) ''k'') = Some ''v''"
proof -
  have "\<forall>w \<in> set [''a'', ''k=v'', ''k=w'']. is_word w" "blank \<notin> set ''k''" by code_simp+
  from arg_words [OF this] show ?thesis by (simp add: value_of_def starts_with_def)
qed

section \<open>Reading the derivation\<close>

definition key_line :: "string \<times> string \<Rightarrow> string" where
  "key_line kv = fst kv @ ''='' @ snd kv @ nl"

lemma newline_other: "newline \<noteq> CHR ''=''" "newline \<noteq> CHR ''.''" by code_simp+

lemma key_line_starts:
  assumes "CHR ''='' \<notin> set k" and "CHR ''='' \<notin> set key"
  shows "starts_with (k @ ''='' @ v) (key @ ''='') \<longleftrightarrow> k = key"
proof
  assume "starts_with (k @ ''='' @ v) (key @ ''='')"
  then obtain t where t: "k @ ''='' @ v = key @ ''='' @ t"
    unfolding starts_with_def by (metis append.assoc append_take_drop_id)
  then have "takeWhile (\<lambda>c. c \<noteq> CHR ''='') (k @ ''='' @ v) = takeWhile (\<lambda>c. c \<noteq> CHR ''='') (key @ ''='' @ t)" by simp
  with assms show "k = key" by (simp add: takeWhile_tail)
qed (simp add: starts_with_def)

text \<open>On lines of the form \<open>key=value\<close>, \<open>field\<close> is the look-up of the first one that fits.\<close>

lemma field_key_lines:
  assumes "\<forall>(k, v) \<in> set kvs. newline \<notin> set k \<and> newline \<notin> set v \<and> CHR ''='' \<notin> set k" and "CHR ''='' \<notin> set key" and "newline \<notin> set key"
  shows "field (concat (map key_line kvs)) key cap =
    (case map_of kvs key of Some v \<Rightarrow> if length v < cap then Some v else None | None \<Rightarrow> None)"
  using assms(1)
proof (induction kvs)
  case Nil
  then show ?case by (simp add: field.simps)
next
  case (Cons kv kvs)
  obtain k v where kv: "kv = (k, v)" by (cases kv)
  let ?t = "concat (map key_line kvs)"
  from Cons.prems kv have p: "newline \<notin> set k" "newline \<notin> set v" "CHR ''='' \<notin> set k" by auto
  have line: "concat (map key_line (kv # kvs)) = (k @ ''='' @ v) @ newline # ?t" by (simp add: key_line_def kv)
  have s: "starts_with ((k @ ''='' @ v) @ newline # ?t) (key @ ''='') \<longleftrightarrow> k = key"
    using starts_with_append [of newline "key @ ''=''"] key_line_starts [OF p(3) assms(2)] assms(3) newline_other(1) by simp
  show ?case
  proof (cases "k = key")
    case True
    with s p(2) show ?thesis unfolding line by (subst field.simps) (simp add: kv takeWhile_tail Let_def not_less)
  next
    case False
    have "dropWhile (\<lambda>c. c \<noteq> newline) ((k @ ''='' @ v) @ newline # ?t) = newline # ?t"
      using p newline_other(1) by (subst dropWhile_append2) auto
    with s False Cons show ?thesis unfolding line by (subst field.simps) (simp add: kv)
  qed
qed

lemma newline_plain: "newline \<notin> lower_hex" "newline \<notin> set ''egdod-''" "newline \<notin> set (dec n)"
proof -
  show "newline \<notin> lower_hex" "newline \<notin> set ''egdod-''" by code_simp+
  have "newline \<noteq> digit_char d" if "d < 10" for d
  proof
    assume "newline = digit_char d"
    then have "(of_char newline :: nat) = of_char (digit_char d)" by simp
    with that show False by (simp add: newline_def digit_char_def)
  qed
  then show "newline \<notin> set (dec n)" by (induction n rule: dec.induct) (subst dec.simps, auto)
qed

lemma newline_show_v4: "newline \<notin> set (show_v4 a)"
  using newline_plain(3) newline_other(2) by (auto simp: show_v4_def)

lemma length_show_v4: "length (show_v4 a) \<le> 15"
proof -
  have "length (dec (octet4 i a)) \<le> 3" for i
  proof (rule length_dec)
    have "octet4 i a < 256" by (simp add: octet4_def)
    then show "octet4 i a < 10 ^ 3" by simp
  qed simp
  from this [of 0] this [of 1] this [of 2] this [of 3] show ?thesis by (simp add: show_v4_def)
qed

lemma link_wf_text:
  assumes "link_wf l"
  shows "newline \<notin> set (lk_ssid l)" "newline \<notin> set (lk_psk l)" "length (dec (unat (lk_port l))) \<le> 5"
proof -
  show "newline \<notin> set (lk_ssid l)" "newline \<notin> set (lk_psk l)"
    using assms newline_plain(1,2) by (auto simp: link_wf_def)
  have "unat (lk_port l) < 65536" using unsigned_less [of "lk_port l"] by simp
  then show "length (dec (unat (lk_port l))) \<le> 5" by (intro length_dec) simp_all
qed

lemma length_link_lines: "link_wf l \<Longrightarrow> length (link_lines l) < 256"
  using link_wf_text(3) [of l] length_show_v4 [of "lk_target l"] length_show_v4 [of "lk_controller l"]
  by (simp add: link_lines_def fmt_def link_wf_def PREFIX_LEN_def dec.simps)

lemma link_lines_fields:
  assumes "link_wf l"
  shows "field (link_lines l) ''ssid'' 64 = Some (lk_ssid l)"
    and "field (link_lines l) ''target'' 32 = Some (show_v4 (lk_target l))"
    and "field (link_lines l) ''controller'' 32 = Some (show_v4 (lk_controller l))"
    and "field (link_lines l) ''port'' 8 = Some (dec (unat (lk_port l)))"
    and "field (link_lines l) ''prefix'' 4 = Some ''16''"
proof -
  let ?kvs = "[(''ssid'', lk_ssid l), (''psk'', lk_psk l), (''target'', show_v4 (lk_target l)),
    (''controller'', show_v4 (lk_controller l)), (''prefix'', ''16''), (''port'', dec (unat (lk_port l)))]"
  have 16: "dec 16 = ''16''" by code_simp
  have l: "link_lines l = concat (map key_line ?kvs)"
    by (simp add: link_lines_def key_line_def fmt_def PREFIX_LEN_def 16)
  have ok: "\<forall>(k, v) \<in> set ?kvs. newline \<notin> set k \<and> newline \<notin> set v \<and> CHR ''='' \<notin> set k"
    using link_wf_text(1,2) [OF assms] newline_show_v4 newline_plain(3) by (simp add: control_chars)
  note f = field_key_lines [OF ok, folded l]
  have len: "length (lk_ssid l) < 64" "length (show_v4 a) < 32" "length (dec (unat (lk_port l))) < 8" for a
    using assms length_show_v4 [of a] link_wf_text(3) [OF assms] by (simp_all add: link_wf_def)
  show "field (link_lines l) ''ssid'' 64 = Some (lk_ssid l)"
      "field (link_lines l) ''target'' 32 = Some (show_v4 (lk_target l))"
      "field (link_lines l) ''controller'' 32 = Some (show_v4 (lk_controller l))"
      "field (link_lines l) ''port'' 8 = Some (dec (unat (lk_port l)))"
      "field (link_lines l) ''prefix'' 4 = Some ''16''"
    using len by (simp_all add: f control_chars)
qed

lemma hostapd_conf_fields:
  assumes "link_wf l" and "newline \<notin> set dev"
  shows "field (hostapd_conf l dev) ''ssid'' 64 = Some (lk_ssid l)" and "field (hostapd_conf l dev) ''wpa_psk'' 65 = Some (lk_psk l)"
proof -
  let ?kvs = "[(''interface'', dev), (''driver'', ''nl80211''), (''ssid'', lk_ssid l), (''hw_mode'', ''g''), (''channel'', ''6''),
    (''wpa'', ''2''), (''wpa_key_mgmt'', ''WPA-PSK''), (''rsn_pairwise'', ''CCMP''), (''wpa_psk'', lk_psk l)]"
  have c: "hostapd_conf l dev = concat (map key_line ?kvs)" by (simp add: hostapd_conf_def key_line_def fmt_def)
  have ok: "\<forall>(k, v) \<in> set ?kvs. newline \<notin> set k \<and> newline \<notin> set v \<and> CHR ''='' \<notin> set k"
    using link_wf_text(1,2) [OF assms(1)] assms(2) by (simp add: control_chars)
  show "field (hostapd_conf l dev) ''ssid'' 64 = Some (lk_ssid l)" "field (hostapd_conf l dev) ''wpa_psk'' 65 = Some (lk_psk l)"
    using assms(1) by (simp_all add: field_key_lines [OF ok, folded c] control_chars link_wf_def)
qed

text \<open>From what \<open>egdod link\<close> prints, process 1 takes the whole derivation into its fixed buffers.\<close>

lemma access_point_reads:
  assumes "link_wf l" and "arg cmdline ''egdod.controller'' = Some c" and "wireless \<noteq> []"
    and "prog [''/egdod'', ''link'', dup_word c] = (Exited 0, link_lines l)"
    and "prog [''/egdod'', ''link'', dup_word c, ''--hostapd'', take 15 wireless] = (Exited 0, hostapd_conf l (take 15 wireless))"
    and "newline \<notin> set wireless"
  obtains ap where "ap_link_of prog cmdline wireless = Some ap"
    "ap_ssid ap = lk_ssid l" "ap_target ap = show_v4 (lk_target l)" "ap_mask ap = 0xffff0000"
    "field (ap_conf ap) ''ssid'' 64 = Some (lk_ssid l)" "field (ap_conf ap) ''wpa_psk'' 65 = Some (lk_psk l)"
    "agent_argv cmdline AP (ap_dial ap) =
        [''/egdod'', ''agent'', ''--controller'', dup_word c, ''--key-file'', ''/agent.key'', ''--no-relay'', ''--direct'',
         show_SocketAddr (SocketV4 (lk_controller l) (lk_port l))]"
proof -
  let ?dev = "take 15 wireless"
  have 1: "take 1023 (link_lines l) = link_lines l" using length_link_lines [OF assms(1)] by simp
  have 2: "take 1023 (hostapd_conf l ?dev) = hostapd_conf l ?dev" using assms(1) by (simp add: hostapd_conf_def fmt_def link_wf_def)
  have d: "take 63 (show_v4 (lk_controller l) @ CHR '':'' # dec (unat (lk_port l))) = show_v4 (lk_controller l) @ CHR '':'' # dec (unat (lk_port l))"
    using length_show_v4 [of "lk_controller l"] link_wf_text(3) [OF assms(1)] by simp
  have m: "push_bit (32 - atoi_digits ''16'') (- 1) = (0xffff0000 :: u32)" by code_simp
  have n: "newline \<notin> set ?dev" using assms(6) by (meson in_set_takeD)
  have "ap_link_of prog cmdline wireless = Some \<lparr>ap_ssid = lk_ssid l, ap_target = show_v4 (lk_target l), ap_mask = 0xffff0000,
      ap_dial = show_SocketAddr (SocketV4 (lk_controller l) (lk_port l)), ap_conf = hostapd_conf l ?dev\<rparr>"
    using assms(2-5) 1 2 d m link_lines_fields [OF assms(1)]
    by (simp add: ap_link_of_def capture_def exit_success_def ap_fields_def fmt_def Let_def)
  with hostapd_conf_fields [OF assms(1) n] assms(2) that show thesis by (simp add: agent_argv_def)
qed

end
