(* ===== verification/Ble.thy ===== *)
theory Ble
  imports Atomic_File Streams File_Transfer
begin

text \<open>
  \<open>src/ble.rs\<close>, the pieces of a provisioning exchange over Bluetooth: the messages and their
  proofs of identity, the session key, the network configuration that is handed over, its
  installation on the target, and the frames on the characteristic.

  The primitives (\<open>iroh\<close>'s Ed25519 keys, \<open>x25519_dalek\<close>, \<open>chacha20poly1305\<close>, \<open>sha2\<close>) are not part
  of the source: they are the fields of the record \<open>ble_crypto\<close>, an argument of the operations.
  What is used of them is \<open>ble_laws\<close>: the lengths of keys, signatures and boxes, that a signature
  verifies under the key that made it, that both ends of a key agreement get the same secret, and
  that a sealed box opens to what was sealed.
\<close>

section \<open>Constants and primitives\<close>

definition SERVER_LABEL :: bytes where "SERVER_LABEL = as_bytes ''egdod-ble-server-v1''"
definition CLIENT_LABEL :: bytes where "CLIENT_LABEL = as_bytes ''egdod-ble-client-v1''"
definition KEY_LABEL :: bytes where "KEY_LABEL = as_bytes ''egdod-ble-key-v1''"
definition START :: u8 where "START = 1"
definition MAX_FRAME :: nat where "MAX_FRAME = 64 * 1024"

text \<open>Keys are their bytes: a node id is the 32 bytes of \<open>EndpointId::as_bytes\<close>.\<close>

record ble_crypto =
  bc_public :: "bytes \<Rightarrow> bytes"
  bc_id :: "bytes \<Rightarrow> bytes result"
  bc_sign :: "bytes \<Rightarrow> bytes \<Rightarrow> bytes"
  bc_verify :: "bytes \<Rightarrow> bytes \<Rightarrow> bytes \<Rightarrow> unit result"
  bc_xpublic :: "bytes \<Rightarrow> bytes"
  bc_shared :: "bytes \<Rightarrow> bytes \<Rightarrow> bytes"
  bc_seal :: "bytes \<Rightarrow> bytes \<Rightarrow> bytes \<Rightarrow> bytes \<Rightarrow> bytes option"
  bc_open :: "bytes \<Rightarrow> bytes \<Rightarrow> bytes \<Rightarrow> bytes \<Rightarrow> bytes option"
  bc_sha :: "bytes \<Rightarrow> bytes"

definition ble_laws :: "ble_crypto \<Rightarrow> bool" where
  "ble_laws c \<longleftrightarrow>
     (\<forall>k. length (bc_public c k) = 32 \<and> bc_id c (bc_public c k) = Inr (bc_public c k))
   \<and> (\<forall>k m. length (bc_sign c k m) = 64 \<and> bc_verify c (bc_public c k) m (bc_sign c k m) = Inr ())
   \<and> (\<forall>s. length (bc_xpublic c s) = 32)
   \<and> (\<forall>s t. bc_shared c s (bc_xpublic c t) = bc_shared c t (bc_xpublic c s))
   \<and> (\<forall>k n a m b. bc_seal c k n a m = Some b \<longrightarrow> bc_open c k n a b = Some m \<and> length b = length m + 16)
   \<and> (\<forall>k n a m. length m < 65536 \<longrightarrow> bc_seal c k n a m \<noteq> None)"

section \<open>Messages\<close>

record ServerHello =
  sh_hello_agent :: bytes
  sh_ephemeral :: bytes
  sh_signature :: bytes

definition identity_message :: "bytes \<Rightarrow> bytes \<Rightarrow> bytes \<Rightarrow> bytes list \<Rightarrow> bytes" where
  "identity_message label controller agent keys = label @ controller @ agent @ concat keys"

definition server_hello :: "ble_crypto \<Rightarrow> bytes \<Rightarrow> bytes \<Rightarrow> bytes \<Rightarrow> bytes" where
  "server_hello c key controller ephemeral =
     (let agent = bc_public c key;
          signature = bc_sign c key (identity_message SERVER_LABEL controller agent [ephemeral])
      in agent @ ephemeral @ signature)"

text \<open>\<open>bytes[i..j]\<close>.\<close>

definition slice :: "nat \<Rightarrow> nat \<Rightarrow> bytes \<Rightarrow> bytes" where
  "slice i j b = take (j - i) (drop i b)"

definition parse_server_hello :: "ble_crypto \<Rightarrow> bytes \<Rightarrow> ServerHello result" where
  "parse_server_hello c b =
     (if length b \<noteq> 128 then Inl (Msg (fmt [''BLE server hello is '', dec (length b), '' bytes, expected 128'']))
      else
        (case with_context ''BLE agent node id'' (bc_id c (slice 0 32 b)) of
           Inl e \<Rightarrow> Inl e
         | Inr agent \<Rightarrow>
             Inr \<lparr>sh_hello_agent = agent, sh_ephemeral = slice 32 64 b, sh_signature = slice 64 128 b\<rparr>))"

definition verify_server_hello :: "ble_crypto \<Rightarrow> bytes \<Rightarrow> bytes \<Rightarrow> bytes \<Rightarrow> ServerHello result" where
  "verify_server_hello c b controller expected_agent =
     (case parse_server_hello c b of
        Inl e \<Rightarrow> Inl e
      | Inr hello \<Rightarrow>
          if sh_hello_agent hello \<noteq> expected_agent
          then Inl (Msg ''BLE target node id does not match the requested agent'')
          else
            (case with_context ''verifying BLE target identity''
               (bc_verify c expected_agent
                 (identity_message SERVER_LABEL controller expected_agent [sh_ephemeral hello]) (sh_signature hello)) of
               Inl e \<Rightarrow> Inl e
             | Inr _ \<Rightarrow> Inr hello))"

definition verify_client_hello :: "ble_crypto \<Rightarrow> bytes \<Rightarrow> bytes \<Rightarrow> bytes \<Rightarrow> bytes \<Rightarrow> bytes result" where
  "verify_client_hello c b controller agent server_ephemeral =
     (if length b < 128 + 16 then Inl (Msg ''BLE credential request is too short'')
      else
        (case with_context ''BLE controller node id'' (bc_id c (slice 0 32 b)) of
           Inl e \<Rightarrow> Inl e
         | Inr claimed_controller \<Rightarrow>
             if claimed_controller \<noteq> controller
             then Inl (Msg ''BLE write came from a controller other than the one baked into the image'')
             else
               (let client_ephemeral = slice 32 64 b; signature = slice 64 128 b in
                case with_context ''verifying BLE controller identity''
                  (bc_verify c controller
                    (identity_message CLIENT_LABEL controller agent [server_ephemeral, client_ephemeral]) signature) of
                  Inl e \<Rightarrow> Inl e
                | Inr _ \<Rightarrow> Inr client_ephemeral)))"

text \<open>The controller's side of the request, up to the sealed configuration; in the source it is
  part of \<open>provision\<close>.\<close>

definition client_hello :: "ble_crypto \<Rightarrow> bytes \<Rightarrow> bytes \<Rightarrow> bytes \<Rightarrow> bytes \<Rightarrow> bytes" where
  "client_hello c controller_key expected_agent server_ephemeral client_ephemeral =
     (let controller = bc_public c controller_key;
          signature = bc_sign c controller_key
            (identity_message CLIENT_LABEL controller expected_agent [server_ephemeral, client_ephemeral])
      in controller @ client_ephemeral @ signature)"

definition session_key :: "ble_crypto \<Rightarrow> bytes \<Rightarrow> bytes \<Rightarrow> bytes" where
  "session_key c shared transcript = bc_sha c (KEY_LABEL @ shared @ transcript)"

definition nonce :: "u8 \<Rightarrow> bytes" where
  "nonce n = (replicate 12 0)[11 := n]"

definition crypt :: "ble_crypto \<Rightarrow> bytes \<Rightarrow> u8 \<Rightarrow> bytes \<Rightarrow> bytes \<Rightarrow> bytes result" where
  "crypt c key n aad clear = ok_or (bc_seal c key (nonce n) aad clear) ''BLE encryption failed''"

definition decrypt :: "ble_crypto \<Rightarrow> bytes \<Rightarrow> u8 \<Rightarrow> bytes \<Rightarrow> bytes \<Rightarrow> bytes result" where
  "decrypt c key n aad cipher = ok_or (bc_open c key (nonce n) aad cipher) ''BLE credential authentication failed''"

section \<open>The network configuration\<close>

definition en_dash :: string where "en_dash = map char_of [226, 128, 147 :: nat]"

definition forbidden :: "char set" where
  "forbidden = {newline, carriage_return, nul, quote, backslash}"

definition is_ascii_hexdigit :: "char \<Rightarrow> bool" where
  "is_ascii_hexdigit ch \<longleftrightarrow> ch \<in> set ''0123456789abcdefABCDEF''"

definition raw_psk :: "string \<Rightarrow> bool" where
  "raw_psk psk \<longleftrightarrow> length psk = 64 \<and> (\<forall>ch \<in> set psk. is_ascii_hexdigit ch)"

definition network_conf :: "string \<Rightarrow> string \<Rightarrow> string result" where
  "network_conf ssid psk =
     (if ssid = [] \<or> 32 < length ssid \<or> set ssid \<inter> forbidden \<noteq> {}
      then Inl (Msg (fmt [''SSID must be 1'', en_dash, ''32 bytes without a quote, backslash, line break or NUL'']))
      else if \<not> (8 \<le> length psk \<and> length psk \<le> 63 \<or> raw_psk psk) \<or> set psk \<inter> forbidden \<noteq> {}
      then Inl (Msg (fmt [''PSK must be 8'', en_dash,
        ''63 bytes or 64 hexadecimal digits without a quote, backslash, line break or NUL'']))
      else
        (let psk_line = (if raw_psk psk then fmt [''psk='', psk] else fmt [''psk='', [quote], psk, [quote]]) in
         Inr (fmt [''network={'', nl, [tab], ''ssid='', hex (as_bytes ssid), nl, [tab], psk_line, nl,
           [tab], ''key_mgmt=WPA-PSK'', nl, ''}'', nl])))"

section \<open>Installing it\<close>

text \<open>The staging name: the path's text with a suffix.\<close>

definition ble_tmp :: "u32 \<Rightarrow> path \<Rightarrow> path" where
  "ble_tmp my_pid p =
     (let suffix = ''.ble.tmp.'' @ dec (unat my_pid) in
      case rev p of
        Normal s # r \<Rightarrow> rev r @ [Normal (s @ suffix)]
      | ParentDir # r \<Rightarrow> rev r @ [Normal (''..'' @ suffix)]
      | CurDir # r \<Rightarrow> rev r @ [Normal (''.'' @ suffix)]
      | _ \<Rightarrow> p @ [Normal suffix])"

definition install :: "path \<Rightarrow> bytes \<Rightarrow> (world, unit) io" where
  "install p b w =
     (let tmp = ble_tmp (pid w) p in
      io_bind (io_context (fmt [''creating '', show_path tmp]) (create_new tmp 384)) (\<lambda>_.
      io_catch
        (io_bind (io_context ''writing BLE credentials'' (write_all tmp b)) (\<lambda>_.
         io_bind (io_context ''flushing BLE credentials'' (handle_call ())) (\<lambda>_.
         io_context (fmt [''installing '', show_path p]) (rename tmp p)))) (\<lambda>result.
      case result of
        Inr _ \<Rightarrow> io_ok ()
      | Inl e \<Rightarrow> io_catch (remove_file tmp) (\<lambda>_. io_lift (Inl e)))) w)"

section \<open>Frames\<close>

definition frame_size :: "nat \<Rightarrow> unit result" where
  "frame_size n = ensure (n \<le> MAX_FRAME) (fmt [''BLE frame exceeds '', dec MAX_FRAME, '' bytes''])"

definition write_frame :: "bytes \<Rightarrow> (sink, unit) io" where
  "write_frame b =
     io_bind (io_lift (frame_size (length b))) (\<lambda>_.
     io_bind (send_all (u32_to_be (word_of_nat (length b)))) (\<lambda>_.
     io_bind (send_all b) (\<lambda>_.
     send_ctl)))"

definition read_frame :: "(reader, bytes) io" where
  "read_frame =
     io_bind (read_exact 4) (\<lambda>h.
     let n = unat (u32_from_be h) in
     io_bind (io_lift (with_context (fmt [''BLE frame declares '', dec n, '' bytes'']) (frame_size n))) (\<lambda>_.
     read_exact n))"

definition ble_header :: "bytes \<Rightarrow> bytes" where
  "ble_header b = u32_to_be (word_of_nat (length b))"

section \<open>Frames are a framing\<close>

lemma unat_frame_len: "n \<le> MAX_FRAME \<Longrightarrow> unat (word_of_nat n :: u32) = n"
  by (simp add: MAX_FRAME_def unat_u32_of_nat)

lemma write_frame_sends:
  "write_frame b s = (Inr (), s') \<Longrightarrow> sent s' = sent s @ ble_header b @ b"
  by (auto simp: write_frame_def ble_header_def frame_size_def ensure_def split: if_splits
      elim!: io_bind_InrE dest!: send_all_Inr send_ctl_Inr)

lemma write_frame_takes:
  assumes "length b \<le> MAX_FRAME" and "healthy s"
  shows "\<exists>s'. write_frame b s = (Inr (), s') \<and> healthy s'"
proof -
  obtain s1 where 1: "send_all (u32_to_be (word_of_nat (length b))) s = (Inr (), s1)" "healthy s1"
    using assms(2) by (rule send_all_healthy)
  obtain s2 where 2: "send_all b s1 = (Inr (), s2)" "healthy s2" using 1(2) by (rule send_all_healthy)
  obtain s3 where 3: "send_ctl s2 = (Inr (), s3)" "healthy s3" using 2(2) by (rule send_ctl_healthy)
  show ?thesis using assms(1) 1 2 3 by (simp add: write_frame_def frame_size_def io_simps)
qed

lemma read_frame_takes:
  assumes "length b \<le> MAX_FRAME" and "arriving r = ble_header b @ b @ rest"
  shows "\<exists>r'. read_frame r = (Inr b, r') \<and> arriving r' = rest \<and> broken r' = broken r"
proof -
  obtain r1 where 1: "read_exact 4 r = (Inr (ble_header b), r1)" "arriving r1 = b @ rest" "broken r1 = broken r"
    using assms(2) by (rule read_exact_ok) (simp add: ble_header_def)
  obtain r2 where 2: "read_exact (length b) r1 = (Inr b, r2)" "arriving r2 = rest" "broken r2 = broken r1"
    using 1(2) by (rule read_exact_ok) simp
  have "unat (u32_from_be (ble_header b)) = length b" using assms(1) by (simp add: ble_header_def unat_frame_len)
  with assms(1) 1 2 show ?thesis by (simp add: read_frame_def frame_size_def io_simps)
qed

lemma read_frame_consumes:
  assumes "read_frame r = (Inr b, r')"
  shows "arriving r = ble_header b @ b @ arriving r'" and "length b \<le> MAX_FRAME" and "broken r' = broken r"
proof -
  from assms obtain h r1 where h: "read_exact 4 r = (Inr h, r1)" "unat (u32_from_be h) \<le> MAX_FRAME"
      "read_exact (unat (u32_from_be h)) r1 = (Inr b, r')"
    by (auto simp: read_frame_def frame_size_def ensure_def Let_def split: if_splits elim!: io_bind_InrE)
  note r = read_exact_Inr [OF h(1)] read_exact_Inr [OF h(3)]
  have "ble_header b = h" using r by (simp add: ble_header_def u32_to_from_be)
  with r h(2) show "arriving r = ble_header b @ b @ arriving r'" "length b \<le> MAX_FRAME" "broken r' = broken r" by simp_all
qed

interpretation gatt: framing write_frame read_frame ble_header MAX_FRAME
proof
  fix b s s' r r' rest
  show "write_frame b s = (Inr (), s') \<Longrightarrow> sent s' = sent s @ ble_header b @ b" by (rule write_frame_sends)
  show "length b \<le> MAX_FRAME \<Longrightarrow> healthy s \<Longrightarrow> \<exists>s'. write_frame b s = (Inr (), s') \<and> healthy s'" by (rule write_frame_takes)
  show "MAX_FRAME < length b \<Longrightarrow> \<exists>e. write_frame b s = (Inl e, s)"
    by (simp add: write_frame_def frame_size_def ensure_def)
  show "length b \<le> MAX_FRAME \<Longrightarrow> arriving r = ble_header b @ b @ rest \<Longrightarrow>
      \<exists>r'. read_frame r = (Inr b, r') \<and> arriving r' = rest \<and> broken r' = broken r" by (rule read_frame_takes)
  show "read_frame r = (Inr b, r') \<Longrightarrow> arriving r = ble_header b @ b @ arriving r' \<and> length b \<le> MAX_FRAME \<and> broken r' = broken r"
    using read_frame_consumes by blast
qed

section \<open>Installing is an atomic replacement\<close>

lemma ble_tmp_apart: "ble_tmp n p \<noteq> p"
proof (cases p rule: rev_cases)
  case (snoc r x)
  then show ?thesis by (cases x) (auto simp: ble_tmp_def Let_def)
qed (simp add: ble_tmp_def)

lemma install_eq:
  "install p b w =
     (let tmp = ble_tmp (pid w) p in
      io_bind (io_context (fmt [''creating '', show_path tmp]) (create_new tmp 384)) (\<lambda>_.
      io_catch
        (fill_and_rename ''writing BLE credentials'' ''flushing BLE credentials'' (fmt [''installing '', show_path p]) tmp p b)
        (\<lambda>result. case result of Inr _ \<Rightarrow> io_ok () | Inl e \<Rightarrow> io_catch (remove_file tmp) (\<lambda>_. io_lift (Inl e)))) w)"
  by (simp add: install_def fill_and_rename_def)

lemma install_cases:
  assumes "install p b w = (x, w')"
  obtains (blocked) e where "x = Inl e" "w' = next_tick w"
  | (landed) w1 where "create_new (ble_tmp (pid w) p) 384 w = (Inr (), w1)"
      "fill_and_rename ''writing BLE credentials'' ''flushing BLE credentials'' (fmt [''installing '', show_path p])
         (ble_tmp (pid w) p) p b w1 = (Inr (), w')" "x = Inr ()"
  | (undone) w1 e w2 y where "create_new (ble_tmp (pid w) p) 384 w = (Inr (), w1)"
      "fill_and_rename ''writing BLE credentials'' ''flushing BLE credentials'' (fmt [''installing '', show_path p])
         (ble_tmp (pid w) p) p b w1 = (Inl e, w2)" "remove_file (ble_tmp (pid w) p) w2 = (y, w')" "x = Inl e"
  using assms unfolding install_eq Let_def
proof (cases rule: io_bind_cases)
  case (fails e)
  from fails(1) obtain r0 where r0: "create_new (ble_tmp (pid w) p) 384 w = (r0, w')"
      "Inl e = with_context (fmt [''creating '', show_path (ble_tmp (pid w) p)]) r0" by (rule io_context_cases)
  then obtain e0 where "r0 = Inl e0" by (cases r0) auto
  with r0(1) fails(2) show thesis by (auto dest!: create_new_Inl intro: blocked)
next
  case (continues u w1)
  then have c: "create_new (ble_tmp (pid w) p) 384 w = (Inr (), w1)" by (auto elim!: io_context_cases)
  from continues(2) show thesis
    by (cases rule: io_catch_cases) (auto simp: io_catch_def split: sum.splits prod.splits intro: landed [OF c] undone [OF c])
qed

lemma install_staged:
  assumes "install p b w = (x, w')"
  shows "staged_run (ble_tmp (pid w) p) p b w x w'"
  using assms
proof (cases rule: install_cases)
  case (undone w1 e w2 y)
  have "touches {ble_tmp (pid w) p} w2 w'" using io_respectsD [OF remove_file_touches undone(3)] by simp
  with staged_run_cleanup [OF fill_and_rename_staged [OF undone(1,2)]] undone(4) show ?thesis by simp
next
  case (landed w1)
  with fill_and_rename_staged show ?thesis by blast
qed (auto simp: staged_run_def touches_next_tick)

interpretation conf_file: atomic_replace install "\<lambda>w. ble_tmp (pid w)" "\<lambda>_ _. True"
proof
  fix w w' :: world and p b x e m
  show "ble_tmp (pid w) p \<noteq> p" by (rule ble_tmp_apart)
  note laws = staged_run_laws [OF install_staged ble_tmp_apart]
  show "install p b w = (x, w') \<Longrightarrow> touches {ble_tmp (pid w) p, p} w w'" by (rule laws(1))
  show "install p b w = (Inr (), w') \<Longrightarrow> contents (nodes w') p = Some b" using laws(2) by blast
  show "install p b w = (Inl e, w') \<Longrightarrow> nodes w' p = nodes w p" using laws(3) by (metis sum.disc(1))
  show "install p b w = (x, w') \<Longrightarrow> m \<in> observed w w' \<Longrightarrow> m p = nodes w p \<or> contents m p = Some b"
    using laws(4) by blast
qed simp

lemma fill_and_rename_unfinished:
  assumes "create_new tmp 384 w = (Inr (), w1)" and "fill_and_rename u v n tmp p b w1 = (Inl e, w2)"
  shows "\<exists>c k. nodes w2 tmp = Some (File c k)" and "calm w2 = calm w"
proof -
  obtain y w3 where wr: "write_all tmp b w1 = (y, w3)" by (metis prod.exhaust)
  note n1 = write_all_file [OF _ wr]
  have t: "touches {tmp} w w3"
    using io_respectsD [OF create_new_touches assms(1)] io_respectsD [OF write_all_touches wr] touches_trans by blast
  have "nodes w2 = nodes w3 \<and> calm w2 = calm w3"
    using assms(2) wr
    by (auto simp: fill_and_rename_def io_context_def calm_def with_context_def split: prod.splits sum.splits
        elim!: io_bind_cases dest!: handle_call_world rename_Inl)
  with n1 t create_new_Inr(2) [OF assms(1)] touches_calm [OF t]
  show "\<exists>c k. nodes w2 tmp = Some (File c k)" "calm w2 = calm w" by auto
qed

text \<open>The configuration the target installs is never seen half written: whatever fails, whoever
  looks at the file, and after any crash, there is the old file or the complete new one; success
  means the new one, readable by root only, with no staging file left; and a failure after the
  staging file was made removes that file unless the removal itself fails.\<close>

theorem install_atomic:
  assumes "install p b w = (x, w')"
  shows "(\<forall>m \<in> observed w w'. m p = nodes w p \<or> contents m p = Some b)
    \<and> touches {ble_tmp (pid w) p, p} w w'
    \<and> (x = Inr () \<longrightarrow> nodes w' p = Some (File b (and 384 (not (umask w)))) \<and> nodes w' (ble_tmp (pid w) p) = None)
    \<and> (isl x \<longrightarrow> nodes w' p = nodes w p \<and> (calm w \<longrightarrow> nodes w' (ble_tmp (pid w) p) = nodes w (ble_tmp (pid w) p)))"
proof -
  let ?tmp = "ble_tmp (pid w) p"
  have fail: "nodes w' p = nodes w p" if "isl x" using conf_file.replace_failure [OF TrueI] assms that by (metis isl_def)
  have rest: "(x = Inr () \<longrightarrow> nodes w' p = Some (File b (and 384 (not (umask w)))) \<and> nodes w' ?tmp = None)
    \<and> (isl x \<longrightarrow> calm w \<longrightarrow> nodes w' ?tmp = nodes w ?tmp)"
    using assms
  proof (cases rule: install_cases)
    case (landed w1)
    with fill_and_rename_private [OF landed(1,2)] ble_tmp_apart show ?thesis by auto
  next
    case (undone w1 e w2 y)
    have n: "nodes w ?tmp = None" using create_new_Inr(1) [OF undone(1)] .
    from fill_and_rename_unfinished [OF undone(1,2)] obtain c k where "nodes w2 ?tmp = Some (File c k)" "calm w \<Longrightarrow> calm w2" by blast
    with undone(3,4) n show ?thesis by (auto simp: remove_file_def fs_call_calm)
  qed auto
  show ?thesis using conf_file.replace_atomic [OF TrueI assms] conf_file.replace_frame [OF TrueI assms] rest fail by blast
qed

theorem install_atomic_witness:
  "\<exists>x w'. install [Normal ''c''] [5] blank_world = (x, w')
     \<and> (\<forall>m \<in> observed blank_world w'. m [Normal ''c''] = None \<or> contents m [Normal ''c''] = Some [5])"
proof -
  obtain x w' where run: "install [Normal ''c''] [5] blank_world = (x, w')" by (metis prod.exhaust)
  from install_atomic [OF run] run show ?thesis by auto
qed

section \<open>Proofs of identity\<close>

lemma ble_laws_lengths:
  assumes "ble_laws c"
  shows "length (bc_public c k) = 32" "length (bc_sign c k m) = 64" "length (bc_xpublic c s) = 32"
  using assms by (simp_all add: ble_laws_def)

lemma label_lengths: "length SERVER_LABEL = 19" "length CLIENT_LABEL = 19" "SERVER_LABEL \<noteq> CLIENT_LABEL"
  by code_simp+

lemma slice_parts:
  assumes "length a = 32" and "length e = 32" and "length s = 64"
  shows "slice 0 32 (a @ e @ s @ t) = a" "slice 32 64 (a @ e @ s @ t) = e" "slice 64 128 (a @ e @ s @ t) = s"
  using assms by (simp_all add: slice_def)

lemma verify_server_hello_ok:
  assumes "ble_laws c" and "length ephemeral = 32"
  shows "\<exists>h. verify_server_hello c (server_hello c key controller ephemeral) controller (bc_public c key) = Inr h
    \<and> sh_ephemeral h = ephemeral"
  using assms slice_parts [of "bc_public c key" ephemeral _ "[]"]
  by (simp add: verify_server_hello_def parse_server_hello_def server_hello_def Let_def ble_laws_def)

lemma verify_client_hello_ok:
  assumes "ble_laws c" and "length client_ephemeral = 32" and "16 \<le> length box"
  shows "verify_client_hello c (client_hello c key agent server_ephemeral client_ephemeral @ box) (bc_public c key) agent server_ephemeral
    = Inr client_ephemeral"
  using assms slice_parts [of "bc_public c key" client_ephemeral _ box]
  by (simp add: verify_client_hello_def client_hello_def Let_def ble_laws_def)

lemma concat_parts_inject:
  assumes "\<forall>k \<in> set ks. length k = n" and "\<forall>k \<in> set ls. length k = n" and "0 < n" and "concat ks = concat ls"
  shows "ks = ls"
  using assms
proof (induction ks arbitrary: ls)
  case Nil
  then show ?case by (cases ls) auto
next
  case (Cons k ks)
  from Cons.prems obtain l ls' where ls: "ls = l # ls'" by (cases ls) auto
  with Cons.prems have "k = l \<and> concat ks = concat ls'" by (simp add: append_eq_append_conv)
  with Cons.IH [of ls'] Cons.prems ls show ?case by simp
qed

lemma identity_message_inject:
  assumes "identity_message l c a ks = identity_message l' c' a' ks'" and "length l = length l'" and "length c = length c'"
    and "length a = length a'" and "\<forall>k \<in> set ks. length k = 32" and "\<forall>k \<in> set ks'. length k = 32"
  shows "l = l' \<and> c = c' \<and> a = a' \<and> ks = ks'"
  using assms concat_parts_inject [OF assms(5,6)] by (auto simp: identity_message_def append_eq_append_conv)

text \<open>What the owner of a key has signed: \<open>offers\<close> are the triples of controller, agent and key
  for which an agent has made a hello, \<open>requests\<close> those of agent and the two keys for which a
  controller has made a request.  Nobody but the owner makes a signature that verifies.\<close>

definition signed_by ::
  "bytes \<Rightarrow> (bytes \<times> bytes) set \<Rightarrow> (bytes \<times> bytes \<times> bytes) set \<Rightarrow> bytes \<Rightarrow> bool" where
  "signed_by owner offers requests m \<longleftrightarrow>
     (\<exists>(controller, e) \<in> offers. length controller = 32 \<and> length e = 32 \<and> m = identity_message SERVER_LABEL controller owner [e])
   \<or> (\<exists>(agent, x, y) \<in> requests. length agent = 32 \<and> length x = 32 \<and> length y = 32
        \<and> m = identity_message CLIENT_LABEL owner agent [x, y])"

lemma signed_server:
  assumes "signed_by owner offers requests (identity_message SERVER_LABEL controller owner [e])"
    and "length owner = 32" and "length controller = 32" and "length e = 32"
  shows "(controller, e) \<in> offers"
proof -
  from assms(1) consider
    (offer) d f where "(d, f) \<in> offers" "length d = 32" "length f = 32"
      "identity_message SERVER_LABEL controller owner [e] = identity_message SERVER_LABEL d owner [f]"
    | (request) a x y where "length a = 32" "length x = 32" "length y = 32"
      "identity_message SERVER_LABEL controller owner [e] = identity_message CLIENT_LABEL owner a [x, y]"
    unfolding signed_by_def by auto
  then show ?thesis
  proof cases
    case offer
    from identity_message_inject [OF offer(4)] offer assms show ?thesis by simp
  next
    case request
    from identity_message_inject [OF request(4)] request assms label_lengths show ?thesis by simp
  qed
qed

lemma signed_client:
  assumes "signed_by owner offers requests (identity_message CLIENT_LABEL owner agent [x, y])"
    and "length owner = 32" and "length agent = 32" and "length x = 32" and "length y = 32"
  shows "(agent, x, y) \<in> requests"
proof -
  from assms(1) consider
    (offer) d f where "length d = 32" "length f = 32"
      "identity_message CLIENT_LABEL owner agent [x, y] = identity_message SERVER_LABEL d owner [f]"
    | (request) a u v where "(a, u, v) \<in> requests" "length a = 32" "length u = 32" "length v = 32"
      "identity_message CLIENT_LABEL owner agent [x, y] = identity_message CLIENT_LABEL owner a [u, v]"
    unfolding signed_by_def by auto
  then show ?thesis
  proof cases
    case offer
    from identity_message_inject [OF offer(3)] offer assms label_lengths show ?thesis by simp
  next
    case request
    from identity_message_inject [OF request(5)] request assms show ?thesis by simp
  qed
qed

lemma verify_client_hello_signed:
  assumes "\<And>m s. bc_verify c owner m s = Inr () \<Longrightarrow> signed_by owner offers requests m" and "length owner = 32"
    and "length peer = 32" and "length e = 32" and "verify_client_hello c b owner peer e = Inr y"
  shows "(peer, e, y) \<in> requests"
proof -
  from assms(5) obtain s where y: "y = slice 32 64 b" "128 + 16 \<le> length b"
    and v: "bc_verify c owner (identity_message CLIENT_LABEL owner peer [e, y]) s = Inr ()"
    by (auto simp: verify_client_hello_def Let_def with_context_def split: if_splits sum.splits)
  from y have "length y = 32" by (simp add: slice_def)
  with signed_client [OF assms(1) [OF v]] assms(2-4) show ?thesis by simp
qed

lemma verify_server_hello_signed:
  assumes "\<And>m s. bc_verify c owner m s = Inr () \<Longrightarrow> signed_by owner offers requests m" and "length owner = 32"
    and "length peer = 32" and "verify_server_hello c b peer owner = Inr h"
  shows "(peer, sh_ephemeral h) \<in> offers"
proof -
  from assms(4) obtain s where h: "sh_ephemeral h = slice 32 64 b" "length b = 128"
    and v: "bc_verify c owner (identity_message SERVER_LABEL peer owner [sh_ephemeral h]) s = Inr ()"
    by (auto simp: verify_server_hello_def parse_server_hello_def with_context_def split: if_splits sum.splits)
  from h have "length (sh_ephemeral h) = 32" by (simp add: slice_def)
  with signed_server [OF assms(1) [OF v]] assms(2,3) show ?thesis by simp
qed

text \<open>Neither end can be talked into anything by a third party, by replay or by reflection: a
  target accepts a request only if its controller has made it for this very target and this very
  hello, and a controller accepts a hello only if the target it asked for has made it for this
  controller.\<close>

theorem hellos_bind:
  assumes "\<And>m s. bc_verify c owner m s = Inr () \<Longrightarrow> signed_by owner offers requests m" and "length owner = 32"
    and "length peer = 32" and "length e = 32"
  shows "(verify_client_hello c b owner peer e = Inr y \<longrightarrow> (peer, e, y) \<in> requests)
    \<and> (verify_server_hello c b peer owner = Inr h \<longrightarrow> (peer, sh_ephemeral h) \<in> offers)"
proof (intro conjI impI)
  show "(peer, e, y) \<in> requests" if "verify_client_hello c b owner peer e = Inr y"
    using assms that by (rule verify_client_hello_signed)
  show "(peer, sh_ephemeral h) \<in> offers" if "verify_server_hello c b peer owner = Inr h"
    using assms(1-3) that by (rule verify_server_hello_signed)
qed

text \<open>An instance of the primitives, for witnesses.\<close>

definition pad :: "bytes \<Rightarrow> bytes" where
  "pad b = take 32 (b @ replicate 32 0)"

definition demo_crypto :: ble_crypto where
  "demo_crypto = \<lparr>bc_public = pad, bc_id = Inr, bc_sign = (\<lambda>_ _. replicate 64 0), bc_verify = (\<lambda>_ _ _. Inr ()), bc_xpublic = pad,
     bc_shared = (\<lambda>_ _. replicate 32 0), bc_seal = (\<lambda>_ _ _ m. Some (m @ replicate 16 0)),
     bc_open = (\<lambda>_ _ _ b. if 16 \<le> length b then Some (take (length b - 16) b) else None), bc_sha = (\<lambda>_. replicate 32 0)\<rparr>"

lemma demo_crypto_laws: "ble_laws demo_crypto"
  by (auto simp: ble_laws_def demo_crypto_def pad_def min_def)

theorem hellos_bind_witness:
  "\<exists>c b. verify_client_hello c b (replicate 32 1) (replicate 32 2) (replicate 32 3) = Inr (replicate 32 4)
     \<and> (replicate 32 2, replicate 32 3, replicate 32 4) \<in> {(replicate 32 2, replicate 32 3, replicate 32 (4 :: u8))}"
proof -
  let ?m = "identity_message CLIENT_LABEL (replicate 32 1) (replicate 32 2) [replicate 32 3, replicate 32 4]"
  let ?c = "demo_crypto\<lparr>bc_verify := (\<lambda>_ m _. if m = ?m then Inr () else Inl (Msg []))\<rparr>"
  let ?b = "replicate 32 1 @ replicate 32 4 @ replicate 64 0 @ replicate 16 0"
  have v: "verify_client_hello ?c ?b (replicate 32 1) (replicate 32 2) (replicate 32 3) = Inr (replicate 32 4)"
    by (simp add: verify_client_hello_def slice_parts demo_crypto_def Let_def)
  have "signed_by (replicate 32 1) {} {(replicate 32 2, replicate 32 3, replicate 32 4)} m" if "bc_verify ?c (replicate 32 1) m s = Inr ()" for m s
    using that by (auto simp: signed_by_def split: if_splits)
  from hellos_bind [of ?c "replicate 32 1" "{}" "{(replicate 32 2, replicate 32 3, replicate 32 4)}"
      "replicate 32 2" "replicate 32 3" ?b "replicate 32 4", OF this] v show ?thesis
    by (intro exI [of _ ?c] exI [of _ ?b]) auto
qed

section \<open>The configuration says what was asked for\<close>

text \<open>Reading a configuration of one network: its name, and its key or passphrase.\<close>

datatype wpa_key = RawKey string | Passphrase string

fun unhex :: "string \<Rightarrow> string option" where
  "unhex [] = Some []"
| "unhex [h] = None"
| "unhex (h # l # s) =
     (case (find (\<lambda>d. nibble_char d = h) [0..<16], find (\<lambda>d. nibble_char d = l) [0..<16], unhex s) of
        (Some a, Some b, Some t) \<Rightarrow> Some (char_of (16 * a + b) # t)
      | _ \<Rightarrow> None)"

definition wpa_key_of :: "string \<Rightarrow> wpa_key option" where
  "wpa_key_of v =
     (if length v = 64 \<and> (\<forall>ch \<in> set v. is_ascii_hexdigit ch) then Some (RawKey v)
      else if 2 \<le> length v \<and> hd v = quote \<and> last v = quote then Some (Passphrase (butlast (tl v))) else None)"

definition read_network :: "string \<Rightarrow> (string \<times> wpa_key) option" where
  "read_network text =
     (case lines text of
        [a, b, c, d, e] \<Rightarrow>
          (if a = ''network={'' \<and> starts_with b (tab # ''ssid='') \<and> starts_with c (tab # ''psk='')
             \<and> d = tab # ''key_mgmt=WPA-PSK'' \<and> e = ''}''
           then (case (unhex (drop 6 b), wpa_key_of (drop 5 c)) of (Some s, Some k) \<Rightarrow> Some (s, k) | _ \<Rightarrow> None)
           else None)
      | _ \<Rightarrow> None)"

lemma find_nibble: "d < 16 \<Longrightarrow> find (\<lambda>e. nibble_char e = nibble_char d) [0..<16] = Some d"
proof -
  assume d: "d < 16"
  have "nibble_char e = nibble_char d \<longleftrightarrow> e = d" if "e \<in> set [0..<16]" for e
    using that d by (simp add: nibble_char_inject)
  then have "find (\<lambda>e. nibble_char e = nibble_char d) [0..<16] = find (\<lambda>e. e = d) [0..<16]"
    by (intro find_cong) auto
  moreover have "d \<in> set [0..<16]" using d by simp
  moreover have "\<forall>d \<in> set [0..<16]. find (\<lambda>e. e = d) [0..<16] = Some (d :: nat)" by code_simp
  ultimately show ?thesis by auto
qed

lemma unhex_hex: "unhex (hex (as_bytes s)) = Some s"
proof (induction s)
  case Nil
  then show ?case by (simp add: hex_def)
next
  case (Cons ch s)
  let ?b = "byte_of_char ch"
  have lt: "unat ?b div 16 < 16" "unat ?b mod 16 < 16" using unat_u8_less [of ?b] by (simp_all add: div_less_iff_less_mult)
  have "16 * (unat ?b div 16) + unat ?b mod 16 = unat ?b" by simp
  moreover have "char_of (unat ?b) = ch" using char_of_byte_of_char [of ch] by (simp add: char_of_byte_def)
  ultimately have "char_of (16 * (unat ?b div 16) + unat ?b mod 16) = ch" by (simp only:)
  with Cons lt show ?case by (simp add: hex_def hex_byte_def find_nibble)
qed

lemma network_conf_reads:
  assumes "network_conf ssid psk = Inr conf"
  shows "read_network conf = Some (ssid, if raw_psk psk then RawKey psk else Passphrase psk)"
proof -
  define v where "v = (if raw_psk psk then psk else quote # psk @ [quote])"
  let ?ls = "[''network={'', tab # ''ssid='' @ hex (as_bytes ssid), tab # ''psk='' @ v, tab # ''key_mgmt=WPA-PSK'', ''}'']"
  from assms have conf: "conf = concat (map (\<lambda>l. l @ nl) ?ls)" and ok: "set psk \<inter> forbidden = {}"
    by (auto simp: network_conf_def fmt_def v_def split: if_splits)
  have h: "newline \<notin> set (hex b) \<and> carriage_return \<notin> set (hex b)" for b
    using set_hex [of b] by (auto simp: control_chars lower_hex_def)
  have "newline \<notin> set v \<and> carriage_return \<notin> set v" using ok by (auto simp: v_def forbidden_def control_chars)
  with h have "\<forall>l \<in> set ?ls. newline \<notin> set l \<and> carriage_return \<notin> set l" by (simp add: control_chars)
  from lines_block [OF this] have lines: "lines conf = ?ls" by (simp only: conf)
  have "\<not> is_ascii_hexdigit quote" by code_simp
  then have "wpa_key_of v = Some (if raw_psk psk then RawKey psk else Passphrase psk)"
    by (cases "raw_psk psk") (simp_all add: wpa_key_of_def v_def raw_psk_def)
  with lines show ?thesis by (simp add: read_network_def starts_with_def unhex_hex)
qed



end
