(* ===== verification/Ble_Session.thy ===== *)
theory Ble_Session
  imports Ble State_Dir "HOL-Library.Sublist"
begin

text \<open>
  \<open>src/ble.rs\<close>, the two programs of a provisioning exchange: \<open>serve\<close> on the target and
  \<open>provision\<close> on the controller, each with its Bluetooth adapter.

  A task runs from one await point to the next.  At each of them the environment may let the timer
  of the surrounding \<open>timeout\<close> expire or a termination signal arrive (\<open>bh_alarm\<close>, by the number of
  await points passed), and the task is dropped there; a write that is dropped may have sent some
  of its bytes.  What \<open>bluer\<close> and the other devices do is an argument: the events of the GATT
  service, the devices a scan finds, and which call to the adapter fails (\<open>bh_fault\<close>).
\<close>

section \<open>Constants\<close>

definition SERVICE_UUID :: "128 word" where "SERVICE_UUID = 0xe6d0d0007d7a4c6f8d8a7c4547444f44"
definition CHARACTERISTIC_UUID :: "128 word" where "CHARACTERISTIC_UUID = 0xe6d0d0017d7a4c6f8d8a7c4547444f44"

text \<open>In milliseconds.\<close>

definition SCAN_WAIT :: nat where "SCAN_WAIT = 60000"
definition ADAPTER_WAIT :: nat where "ADAPTER_WAIT = 10000"
definition SERVICE_WAIT :: nat where "SERVICE_WAIT = 10000"

section \<open>Tasks\<close>

datatype stop = Elapsed | Interrupted "unit result" | Failed error

type_synonym ('s, 'a) task = "'s \<Rightarrow> (stop + 'a) \<times> 's"

definition t_ok :: "'a \<Rightarrow> ('s, 'a) task" where
  "t_ok x s = (Inr x, s)"

definition t_lift :: "'a result \<Rightarrow> ('s, 'a) task" where
  "t_lift r s = (case r of Inl e \<Rightarrow> Inl (Failed e) | Inr x \<Rightarrow> Inr x, s)"

definition t_bind :: "('s, 'a) task \<Rightarrow> ('a \<Rightarrow> ('s, 'b) task) \<Rightarrow> ('s, 'b) task" where
  "t_bind m f s = (case m s of (Inl e, s') \<Rightarrow> (Inl e, s') | (Inr x, s') \<Rightarrow> f x s')"

text \<open>\<open>let _ =\<close>: a failure is dropped, being stopped is not.\<close>

definition t_ignore :: "('s, 'a) task \<Rightarrow> ('s, unit) task" where
  "t_ignore m s =
     (case m s of
        (Inl (Failed e), s') \<Rightarrow> (Inr (), s')
      | (Inl stop, s') \<Rightarrow> (Inl stop, s')
      | (Inr x, s') \<Rightarrow> (Inr (), s'))"

section \<open>What is on the air\<close>

text \<open>The text of a node id (\<open>show_id\<close>) is \<open>iroh\<close>'s.\<close>

definition local_name :: "(bytes \<Rightarrow> string) \<Rightarrow> bytes \<Rightarrow> string" where
  "local_name show_id nid = fmt [''egdod-'', take 8 (show_id nid)]"

record Advertisement =
  ad_service_uuids :: "128 word list"
  ad_local_name :: "string option"
  ad_discoverable :: "bool option"

definition advertisement :: "(bytes \<Rightarrow> string) \<Rightarrow> bytes \<Rightarrow> Advertisement" where
  "advertisement show_id nid =
     \<lparr>ad_service_uuids = [SERVICE_UUID], ad_local_name = Some (local_name show_id nid), ad_discoverable = Some True\<rparr>"

record gatt_characteristic =
  gc_uuid :: "128 word"
  gc_write :: bool
  gc_write_without_response :: bool
  gc_notify :: bool

record gatt_definition =
  gd_uuid :: "128 word"
  gd_primary :: bool
  gd_characteristics :: "gatt_characteristic list"

definition application :: "gatt_definition list" where
  "application =
     [\<lparr>gd_uuid = SERVICE_UUID, gd_primary = True,
       gd_characteristics = [\<lparr>gc_uuid = CHARACTERISTIC_UUID, gc_write = True, gc_write_without_response = True, gc_notify = True\<rparr>]\<rparr>]"

section \<open>The machine\<close>

datatype alarm = Quiet | Timer nat | Signal nat "unit result"

text \<open>Where an await point is: in plain code, inside \<open>select!\<close> with the signals, or also inside a
  \<open>timeout\<close>.\<close>

datatype scope = Plain | Select | Timed

record bluer_error =
  be_unresolved :: bool
  be_text :: string

definition bluer :: "bluer_error \<Rightarrow> error" where
  "bluer e = Msg (be_text e)"

record ble_host =
  bh_world :: world
  bh_powered :: bool
  bh_devices :: "string list"
  bh_active :: "(string \<times> bool) option"
  bh_adv :: "Advertisement option"
  bh_app :: "gatt_definition list option"
  bh_awaits :: nat
  bh_alarm :: "nat \<Rightarrow> alarm"
  bh_fault :: "nat \<Rightarrow> bluer_error option"

fun stopped :: "scope \<Rightarrow> alarm \<Rightarrow> (stop \<times> nat) option" where
  "stopped Timed (Timer n) = Some (Elapsed, n)"
| "stopped Timed (Signal n r) = Some (Interrupted r, n)"
| "stopped Select (Signal n r) = Some (Interrupted r, n)"
| "stopped _ _ = None"

definition await :: "scope \<Rightarrow> (ble_host, unit) task" where
  "await sc h =
     (let h' = h\<lparr>bh_awaits := Suc (bh_awaits h)\<rparr> in
      case stopped sc (bh_alarm h (bh_awaits h)) of
        None \<Rightarrow> (Inr (), h')
      | Some (stop, n) \<Rightarrow> (Inl stop, h'))"

definition bt_call :: "scope \<Rightarrow> (ble_host \<Rightarrow> ble_host) \<Rightarrow> (ble_host, unit) task" where
  "bt_call sc f h =
     (case await sc h of
        (Inl stop, h') \<Rightarrow> (Inl stop, h')
      | (Inr _, h') \<Rightarrow>
          (case bh_fault h (bh_awaits h) of
             Some e \<Rightarrow> (Inl (Failed (bluer e)), h')
           | None \<Rightarrow> (Inr (), f h')))"

definition remove_device :: "scope \<Rightarrow> string \<Rightarrow> (ble_host, unit) task" where
  "remove_device sc peer = t_ignore (bt_call sc (\<lambda>h. h\<lparr>bh_devices := removeAll peer (bh_devices h)\<rparr>))"

definition set_powered :: "bool \<Rightarrow> (ble_host, unit) task" where
  "set_powered b = bt_call Plain (\<lambda>h. h\<lparr>bh_powered := b\<rparr>)"

text \<open>Trying again until a deadline; \<open>slack i\<close> is by how much the \<open>i\<close>-th turn took longer than
  its pause, less the millisecond it takes at least.\<close>

function retry ::
  "nat \<Rightarrow> (nat \<Rightarrow> bluer_error + 'a) \<Rightarrow> (bluer_error \<Rightarrow> bool) \<Rightarrow> (nat \<Rightarrow> nat) \<Rightarrow> nat \<Rightarrow> nat \<Rightarrow> nat \<Rightarrow> bluer_error + 'a" where
  "retry pause attempt again slack deadline i now =
     (case attempt i of
        Inr x \<Rightarrow> Inr x
      | Inl e \<Rightarrow>
          if again e \<and> now < deadline
          then retry pause attempt again slack deadline (Suc i) (now + pause + Suc (slack i))
          else Inl e)"
  by pat_completeness auto
termination
  by (relation "measure (\<lambda>(_, _, _, _, deadline, _, now). deadline - now)") auto

declare retry.simps [simp del]

text \<open>\<open>adapter\<close>: whether the adapter was powered; it is afterwards. \<open>ae_tries i\<close> is the error of
  the \<open>i\<close>-th \<open>probe_adapter\<close>, if there is one.\<close>

record adapter_env =
  ae_session :: "unit result"
  ae_tries :: "nat \<Rightarrow> bluer_error option"
  ae_slack :: "nat \<Rightarrow> nat"

definition adapter :: "adapter_env \<Rightarrow> (ble_host, bool) task" where
  "adapter env =
     t_bind (t_lift (with_context ''connecting to bluetoothd'' (ae_session env))) (\<lambda>_.
     t_bind (t_lift
       (case retry 500 (\<lambda>i. case ae_tries env i of None \<Rightarrow> Inr () | Some e \<Rightarrow> Inl e) (\<lambda>_. True) (ae_slack env) ADAPTER_WAIT 0 0 of
          Inl e \<Rightarrow> Inl (Context ''finding a Bluetooth adapter'' (bluer e))
        | Inr _ \<Rightarrow> Inr ())) (\<lambda>_ h.
     if bh_powered h then (Inr True, h)
     else t_bind (set_powered True) (\<lambda>_. t_ok False) h))"

section \<open>An exchange\<close>

record exchange =
  ex_host :: ble_host
  ex_in :: reader
  ex_out :: sink
  ex_installed :: bool

definition ex_await :: "(exchange, unit) task" where
  "ex_await x = (case await Timed (ex_host x) of (r, h) \<Rightarrow> (r, x\<lparr>ex_host := h\<rparr>))"

text \<open>An awaited call whose result is given; a read; a write of these bytes; work on the disk.\<close>

definition ex_call :: "'a result \<Rightarrow> (exchange, 'a) task" where
  "ex_call r = t_bind ex_await (\<lambda>_. t_lift r)"

definition ex_recv :: "(reader, 'a) io \<Rightarrow> (exchange, 'a) task" where
  "ex_recv m = t_bind ex_await (\<lambda>_ x.
     case m (ex_in x) of (r, i) \<Rightarrow> t_lift r (x\<lparr>ex_in := i\<rparr>))"

definition ex_send :: "bytes \<Rightarrow> (sink, unit) io \<Rightarrow> (exchange, unit) task" where
  "ex_send b m x =
     (case ex_await x of
        (Inl stop, x') \<Rightarrow>
          (case stopped Timed (bh_alarm (ex_host x) (bh_awaits (ex_host x))) of
             Some (_, n) \<Rightarrow> (Inl stop, x'\<lparr>ex_out := (ex_out x')\<lparr>sent := sent (ex_out x') @ take n b\<rparr>\<rparr>)
           | None \<Rightarrow> (Inl stop, x'))
      | (Inr _, x') \<Rightarrow> (case m (ex_out x') of (r, t) \<Rightarrow> t_lift r (x'\<lparr>ex_out := t\<rparr>)))"

definition ex_send_frame :: "bytes \<Rightarrow> (exchange, unit) task" where
  "ex_send_frame b = t_bind (t_lift (frame_size (length b))) (\<lambda>_. ex_send (ble_header b @ b) (write_frame b))"

definition ex_world :: "(world, 'a) io \<Rightarrow> (exchange, 'a) task" where
  "ex_world m x =
     (case m (bh_world (ex_host x)) of (r, w) \<Rightarrow> t_lift r (x\<lparr>ex_host := (ex_host x)\<lparr>bh_world := w\<rparr>\<rparr>))"

definition ex_update :: "(exchange \<Rightarrow> exchange) \<Rightarrow> (exchange, unit) task" where
  "ex_update f x = (Inr (), f x)"

section \<open>The target's side\<close>

text \<open>From the request on, and the whole.\<close>

definition server_credentials ::
  "ble_crypto \<Rightarrow> bytes \<Rightarrow> bytes \<Rightarrow> path \<Rightarrow> bytes \<Rightarrow> bytes \<Rightarrow> bytes \<Rightarrow> (exchange, unit) task" where
  "server_credentials c controller agent output secret hello request =
     t_bind (t_lift (verify_client_hello c request controller agent (bc_xpublic c secret))) (\<lambda>client_ephemeral.
     let transcript = hello @ take 128 request;
         shared = bc_shared c secret client_ephemeral;
         k = session_key c shared transcript in
     t_bind (t_lift (decrypt c k 0 transcript (drop 128 request))) (\<lambda>conf.
     t_bind (t_lift (ensure (conf \<noteq> []) ''BLE credential file is empty'')) (\<lambda>_.
     t_bind (ex_world (install output conf)) (\<lambda>_.
     t_bind (ex_update (\<lambda>x. x\<lparr>ex_installed := True\<rparr>)) (\<lambda>_.
     t_bind (t_lift (crypt c k 1 transcript (as_bytes ''ok''))) (\<lambda>ack.
     t_bind (t_ignore (ex_send_frame ack)) (\<lambda>_.
     ex_await)))))))"

definition server_exchange :: "ble_crypto \<Rightarrow> bytes \<Rightarrow> bytes \<Rightarrow> bytes \<Rightarrow> path \<Rightarrow> (exchange, unit) task" where
  "server_exchange c key controller agent output =
     t_bind (ex_recv (read_exact 1)) (\<lambda>start.
     t_bind (t_lift (ensure (start = [START]) ''BLE provisioning start marker is invalid'')) (\<lambda>_.
     t_bind (ex_world (getrandom 32)) (\<lambda>secret.
     let server_ephemeral = bc_xpublic c secret; hello = server_hello c key controller server_ephemeral in
     t_bind (ex_send_frame hello) (\<lambda>_.
     t_bind (ex_recv read_frame) (\<lambda>request.
     server_credentials c controller agent output secret hello request)))))"

text \<open>What the GATT service reports: a client wants to write, or to be notified.\<close>

datatype gatt_event = WriteRequest string "reader result" | NotifyRequest string sink

fun pair :: "string \<Rightarrow> reader option \<Rightarrow> sink option \<Rightarrow> gatt_event list \<Rightarrow> ble_host
    \<Rightarrow> (stop + (reader \<times> sink)) \<times> gatt_event list \<times> ble_host" where
  "pair peer (Some r) (Some w) evs h = (Inr (r, w), evs, h)"
| "pair peer r w [] h =
     (case await Timed h of
        (Inl stop, h') \<Rightarrow> (Inl stop, [], h')
      | (Inr _, h') \<Rightarrow> (Inl (Failed (Msg ''BLE GATT service stopped'')), [], h'))"
| "pair peer r w (ev # evs) h =
     (case await Timed h of
        (Inl stop, h') \<Rightarrow> (Inl stop, ev # evs, h')
      | (Inr _, h') \<Rightarrow>
          (case ev of
             WriteRequest address (Inl e) \<Rightarrow> (Inl (Failed e), evs, h')
           | WriteRequest address (Inr next) \<Rightarrow>
               if peer \<noteq> address then pair peer r w evs h' else pair peer (Some next) w evs h'
           | NotifyRequest address next \<Rightarrow>
               if peer \<noteq> address then pair peer r w evs h' else pair peer r (Some next) evs h'))"

text \<open>The end of one attempt: the peer is forgotten.\<close>

definition drop_peer :: "string \<Rightarrow> (ble_host, unit) task" where
  "drop_peer peer = t_bind (remove_device Select peer) (\<lambda>_ h. (Inr (), h\<lparr>bh_active := None\<rparr>))"

text \<open>One attempt with a paired channel: whether the service is over.\<close>

definition serve_attempt ::
  "ble_crypto \<Rightarrow> bytes \<Rightarrow> bytes \<Rightarrow> bytes \<Rightarrow> path \<Rightarrow> string \<Rightarrow> reader \<Rightarrow> sink \<Rightarrow> (ble_host, bool) task" where
  "serve_attempt c key controller agent output peer r w h =
     (case server_exchange c key controller agent output \<lparr>ex_host = h, ex_in = r, ex_out = w, ex_installed = False\<rparr> of
        (attempt, x) \<Rightarrow>
          (case attempt of
             Inl (Interrupted s) \<Rightarrow> (Inl (Interrupted s), ex_host x)
           | _ \<Rightarrow>
               t_bind (drop_peer peer) (\<lambda>_.
               t_ok (case attempt of
                       Inr _ \<Rightarrow> True
                     | Inl Elapsed \<Rightarrow> ex_installed x
                     | Inl _ \<Rightarrow> False)) (ex_host x)))"

lemma pair_shorter: "pair peer r w evs h = (x, evs', h') \<Longrightarrow> length evs' \<le> length evs"
  by (induction peer r w evs h rule: pair.induct)
    (force split: prod.splits sum.splits gatt_event.splits if_splits)+

function serve_loop ::
  "ble_crypto \<Rightarrow> bytes \<Rightarrow> bytes \<Rightarrow> bytes \<Rightarrow> path \<Rightarrow> gatt_event list \<Rightarrow> (ble_host, unit) task" where
  "serve_loop c key controller agent output evs h =
     (case await Select h of
        (Inl stop, h) \<Rightarrow> (Inl stop, h)
      | (Inr _, h) \<Rightarrow>
          (case evs of
             [] \<Rightarrow> (Inl (Failed (Msg ''BLE GATT service stopped'')), h)
           | WriteRequest peer (Inl e) # evs \<Rightarrow> (Inl (Failed e), h)
           | ev # evs \<Rightarrow>
               (let (reader, writer, peer) =
                  (case ev of
                     WriteRequest a (Inr r) \<Rightarrow> (Some r, None, a)
                   | WriteRequest a (Inl e) \<Rightarrow> (None, None, a)
                   | NotifyRequest a w \<Rightarrow> (None, Some w, a))
                in
                case pair peer reader writer evs (h\<lparr>bh_active := Some (peer, False)\<rparr>) of
                  (Inl (Interrupted s), _, h) \<Rightarrow> (Inl (Interrupted s), h)
                | (Inl _, evs, h) \<Rightarrow>
                    (case drop_peer peer h of
                       (Inl stop, h) \<Rightarrow> (Inl stop, h)
                     | (Inr _, h) \<Rightarrow> serve_loop c key controller agent output evs h)
                | (Inr (r, w), evs, h) \<Rightarrow>
                    (case serve_attempt c key controller agent output peer r w h of
                       (Inl stop, h) \<Rightarrow> (Inl stop, h)
                     | (Inr over, h) \<Rightarrow>
                         if over then (Inr (), h)
                         else serve_loop c key controller agent output evs h))))"
  by pat_completeness auto
termination
  by (relation "measure (\<lambda>(_, _, _, _, _, evs, _). length evs)") (auto dest!: pair_shorter [OF sym] pair_shorter)

declare serve_loop.simps [simp del]

definition serve_on_adapter ::
  "ble_crypto \<Rightarrow> (bytes \<Rightarrow> string) \<Rightarrow> bytes \<Rightarrow> bytes \<Rightarrow> bytes \<Rightarrow> path \<Rightarrow> gatt_event list \<Rightarrow> (ble_host, unit) task" where
  "serve_on_adapter c show_id controller key agent output evs =
     t_bind (bt_call Select (\<lambda>h. h\<lparr>bh_adv := Some (advertisement show_id agent)\<rparr>)) (\<lambda>_.
     t_bind (bt_call Select (\<lambda>h. h\<lparr>bh_app := Some application\<rparr>)) (\<lambda>_.
     serve_loop c key controller agent output evs))"

text \<open>The outcome of the \<open>select!\<close> of both programs.\<close>

fun select_result :: "stop + unit \<Rightarrow> unit result" where
  "select_result (Inr _) = Inr ()"
| "select_result (Inl (Failed e)) = Inl e"
| "select_result (Inl (Interrupted (Inl e))) = Inl e"
| "select_result (Inl (Interrupted (Inr _))) = Inl (Msg ''BLE provisioning interrupted'')"
| "select_result (Inl Elapsed) = Inl (Msg ''deadline has elapsed'')"

definition power_back :: "bool \<Rightarrow> ble_host \<Rightarrow> ble_host" where
  "power_back was_powered h = (if was_powered then h else snd (t_ignore (set_powered False) h))"

text \<open>However the service ends, its advertisement and its application are dropped with it.\<close>

definition ble_serve ::
  "ble_crypto \<Rightarrow> (bytes \<Rightarrow> string) \<Rightarrow> adapter_env \<Rightarrow> bytes \<Rightarrow> path \<Rightarrow> path \<Rightarrow> gatt_event list \<Rightarrow> (ble_host, unit) io" where
  "ble_serve c show_id env controller key_file output evs h =
     (case load_or_create_key id key_file Replace (bh_world h) of
        (Inl e, w) \<Rightarrow> (Inl e, h\<lparr>bh_world := w\<rparr>)
      | (Inr key, w) \<Rightarrow>
          (case adapter env (h\<lparr>bh_world := w, bh_active := None\<rparr>) of
             (Inl stop, h) \<Rightarrow> (select_result (Inl stop), h)
           | (Inr was_powered, h) \<Rightarrow>
               (case serve_on_adapter c show_id controller key (bc_public c key) output evs h of
                  (result, h) \<Rightarrow>
                    (let h = h\<lparr>bh_adv := None, bh_app := None\<rparr>;
                         h = (case bh_active h of
                                None \<Rightarrow> h
                              | Some (peer, _) \<Rightarrow> snd (remove_device Plain peer (h\<lparr>bh_active := None\<rparr>)))
                     in (select_result result, power_back was_powered h)))))"

section \<open>The controller's side\<close>

text \<open>One look at a device's services; a service is its uuid and its characteristics.\<close>

type_synonym gatt_service = "(bluer_error + 128 word) \<times> (bluer_error + (bluer_error + 128 word) list)"

fun find_uuid :: "128 word \<Rightarrow> (bluer_error + 128 word) list \<Rightarrow> bluer_error + bool" where
  "find_uuid u [] = Inr False"
| "find_uuid u (Inl e # cs) = Inl e"
| "find_uuid u (Inr v # cs) = (if v = u then Inr True else find_uuid u cs)"

fun find_characteristic :: "gatt_service list \<Rightarrow> bluer_error + bool" where
  "find_characteristic [] = Inr False"
| "find_characteristic ((Inl e, cs) # ss) = Inl e"
| "find_characteristic ((Inr u, cs) # ss) =
     (if u \<noteq> SERVICE_UUID then find_characteristic ss
      else
        (case cs of
           Inl e \<Rightarrow> Inl e
         | Inr l \<Rightarrow>
             (case find_uuid CHARACTERISTIC_UUID l of
                Inl e \<Rightarrow> Inl e
              | Inr True \<Rightarrow> Inr True
              | Inr False \<Rightarrow> find_characteristic ss)))"

text \<open>A device as a scan shows it and as it answers.\<close>

record ble_device =
  dv_device :: "unit result"
  dv_name :: "bluer_error + string option"
  dv_uuids :: "bluer_error + 128 word list option"
  dv_paired :: "bluer_error + bool"
  dv_connect :: "unit result"
  dv_services :: "nat \<Rightarrow> bluer_error + gatt_service list"
  dv_slack :: "nat \<Rightarrow> nat"
  dv_notify :: "reader result"
  dv_write :: "sink result"

definition characteristic :: "ble_device \<Rightarrow> unit result" where
  "characteristic d =
     (case retry 250 (\<lambda>i. case dv_services d i of Inl e \<Rightarrow> Inl e | Inr ss \<Rightarrow> find_characteristic ss)
        be_unresolved (dv_slack d) SERVICE_WAIT 0 0 of
        Inr True \<Rightarrow> Inr ()
      | Inr False \<Rightarrow> Inl (Msg ''the target exposes no egdod BLE characteristic'')
      | Inl e \<Rightarrow> Inl (Context ''BLE service discovery'' (bluer e)))"

text \<open>From the hello on, and the whole.\<close>

definition client_credentials :: "ble_crypto \<Rightarrow> bytes \<Rightarrow> bytes \<Rightarrow> string \<Rightarrow> bytes \<Rightarrow> (exchange, unit) task" where
  "client_credentials c controller_key expected_agent conf hello_bytes =
     (let controller = bc_public c controller_key in
      t_bind (t_lift (verify_server_hello c hello_bytes controller expected_agent)) (\<lambda>hello.
      t_bind (ex_world (getrandom 32)) (\<lambda>secret.
      let client_ephemeral = bc_xpublic c secret;
          request = client_hello c controller_key expected_agent (sh_ephemeral hello) client_ephemeral;
          transcript = hello_bytes @ request;
          shared = bc_shared c secret (sh_ephemeral hello);
          k = session_key c shared transcript in
      t_bind (t_lift (crypt c k 0 transcript (as_bytes conf))) (\<lambda>box.
      t_bind (ex_send_frame (request @ box)) (\<lambda>_.
      t_bind (ex_recv read_frame) (\<lambda>ack.
      t_bind (t_lift (decrypt c k 1 transcript ack)) (\<lambda>m.
      t_lift (ensure (m = as_bytes ''ok'') ''BLE target returned an invalid acknowledgement''))))))))"

definition client_exchange :: "ble_crypto \<Rightarrow> bytes \<Rightarrow> bytes \<Rightarrow> string \<Rightarrow> ble_device \<Rightarrow> (exchange, unit) task" where
  "client_exchange c controller_key expected_agent conf d =
     t_bind (ex_call (with_context ''connecting to BLE target'' (dv_connect d))) (\<lambda>_.
     t_bind (ex_call (characteristic d)) (\<lambda>_.
     t_bind (ex_call (dv_notify d)) (\<lambda>notify.
     t_bind (ex_call (dv_write d)) (\<lambda>write.
     t_bind (ex_update (\<lambda>x. x\<lparr>ex_in := notify, ex_out := write\<rparr>)) (\<lambda>_.
     t_bind (ex_send [START] (io_bind (send_all [START]) (\<lambda>_. send_ctl))) (\<lambda>_.
     t_bind (ex_recv read_frame) (\<lambda>hello_bytes.
     client_credentials c controller_key expected_agent conf hello_bytes)))))))"

definition forget :: "scope \<Rightarrow> string \<Rightarrow> bool \<Rightarrow> (ble_host, unit) task" where
  "forget sc device was_known =
     t_bind (t_ignore (bt_call sc id)) (\<lambda>_.
     if was_known then t_ok () else remove_device sc device)"

text \<open>One turn of the scan: the time since it began when the turn begins and when a device has
  been looked at, and the event, if the stream has not ended. A device that is reported is one
  the daemon knows from then on.\<close>

datatype AdapterEvent = DeviceAdded string ble_device | OtherEvent

record scan_turn =
  sc_head :: nat
  sc_event :: "AdapterEvent option"
  sc_looked :: nat

definition provision_attempt ::
  "ble_crypto \<Rightarrow> bytes \<Rightarrow> bytes \<Rightarrow> string \<Rightarrow> string \<Rightarrow> bool \<Rightarrow> ble_device \<Rightarrow> (ble_host, bool) task" where
  "provision_attempt c controller_key expected_agent conf address was_known d h =
     (case client_exchange c controller_key expected_agent conf d
        \<lparr>ex_host = h, ex_in = reader_of [], ex_out = fresh_sink, ex_installed = False\<rparr> of
        (attempt, x) \<Rightarrow>
          (case attempt of
             Inl (Interrupted s) \<Rightarrow> (Inl (Interrupted s), ex_host x)
           | _ \<Rightarrow>
               t_bind (forget Select address was_known) (\<lambda>_ h.
                 (Inr (\<not> isl attempt), h\<lparr>bh_active := None\<rparr>)) (ex_host x)))"

definition wanted :: "(bytes \<Rightarrow> string) \<Rightarrow> bytes \<Rightarrow> ble_device \<Rightarrow> bool option" where
  "wanted show_id expected_agent d =
     (case (dv_name d, dv_uuids d, dv_paired d) of
        (Inr name, Inr uuids, Inr paired) \<Rightarrow>
          if name = Some (local_name show_id expected_agent)
             \<and> SERVICE_UUID \<in> set (case uuids of None \<Rightarrow> [] | Some us \<Rightarrow> us)
          then Some paired else None
      | _ \<Rightarrow> None)"

definition try_device ::
  "ble_crypto \<Rightarrow> (bytes \<Rightarrow> string) \<Rightarrow> bytes \<Rightarrow> bytes \<Rightarrow> string \<Rightarrow> string list \<Rightarrow> nat \<Rightarrow> string \<Rightarrow> ble_device \<Rightarrow> (ble_host, bool) task" where
  "try_device c show_id controller_key expected_agent conf known_devices looked address d =
     t_bind (t_lift (dv_device d)) (\<lambda>_.
     t_bind (await Select) (\<lambda>_ h.
     case wanted show_id expected_agent d of
       None \<Rightarrow> (Inr False, h)
     | Some True \<Rightarrow>
         (Inl (Failed (Msg (fmt [address, '' holds a bond this target cannot answer; remove it with `bluetoothctl remove '',
            address, ''`'']))), h)
     | Some False \<Rightarrow>
         (let was_known = (address \<in> set known_devices); h = h\<lparr>bh_active := Some (address, was_known)\<rparr> in
          if SCAN_WAIT \<le> looked then (Inl (Failed (Msg ''waiting for the requested BLE target timed out'')), h)
          else provision_attempt c controller_key expected_agent conf address was_known d h)))"

fun scan_loop ::
  "ble_crypto \<Rightarrow> (bytes \<Rightarrow> string) \<Rightarrow> bytes \<Rightarrow> bytes \<Rightarrow> string \<Rightarrow> string list \<Rightarrow> scan_turn list \<Rightarrow> (ble_host, unit) task" where
  "scan_loop c show_id controller_key expected_agent conf known_devices [] h =
     t_bind (await Select) (\<lambda>_.
       t_lift (Inl (Context ''waiting for the requested BLE target'' (Msg ''deadline has elapsed'')))) h"
| "scan_loop c show_id controller_key expected_agent conf known_devices (t # ts) h =
     (if SCAN_WAIT \<le> sc_head t
      then (Inl (Failed (Msg ''waiting for the requested BLE target timed out'')), h)
      else
        (case await Select h of
           (Inl stop, h) \<Rightarrow> (Inl stop, h)
         | (Inr _, h) \<Rightarrow>
             (case sc_event t of
                None \<Rightarrow> (Inl (Failed (Msg ''Bluetooth discovery ended before the requested target appeared'')), h)
              | Some OtherEvent \<Rightarrow> scan_loop c show_id controller_key expected_agent conf known_devices ts h
              | Some (DeviceAdded address d) \<Rightarrow>
                  (case try_device c show_id controller_key expected_agent conf known_devices (sc_looked t) address d
                          (h\<lparr>bh_devices := List.insert address (bh_devices h)\<rparr>) of
                     (Inl stop, h) \<Rightarrow> (Inl stop, h)
                   | (Inr over, h) \<Rightarrow>
                       if over then (Inr (), h)
                       else scan_loop c show_id controller_key expected_agent conf known_devices ts h))))"

definition provisioning ::
  "ble_crypto \<Rightarrow> (bytes \<Rightarrow> string) \<Rightarrow> bytes \<Rightarrow> bytes \<Rightarrow> string \<Rightarrow> scan_turn list \<Rightarrow> (ble_host, unit) task" where
  "provisioning c show_id controller_key expected_agent conf turns =
     t_bind (bt_call Select id) (\<lambda>_ h.
     t_bind (bt_call Select id) (\<lambda>_. scan_loop c show_id controller_key expected_agent conf (bh_devices h) turns) h)"

text \<open>A device whose attempt was cut short is forgotten.\<close>

definition release :: "ble_host \<Rightarrow> ble_host" where
  "release h =
     (case bh_active h of
        None \<Rightarrow> h
      | Some (device, was_known) \<Rightarrow> snd (forget Plain device was_known (h\<lparr>bh_active := None\<rparr>)))"

definition provision ::
  "ble_crypto \<Rightarrow> (bytes \<Rightarrow> string) \<Rightarrow> adapter_env \<Rightarrow> bytes \<Rightarrow> bytes \<Rightarrow> string \<Rightarrow> string \<Rightarrow> scan_turn list
    \<Rightarrow> (ble_host, unit) io" where
  "provision c show_id env controller_key expected_agent ssid psk turns h =
     (case network_conf ssid psk of
        Inl e \<Rightarrow> (Inl e, h)
      | Inr conf \<Rightarrow>
          (case adapter env (h\<lparr>bh_active := None\<rparr>) of
             (Inl stop, h) \<Rightarrow> (select_result (Inl stop), h)
           | (Inr was_powered, h) \<Rightarrow>
               (case provisioning c show_id controller_key expected_agent conf turns h of
                  (result, h) \<Rightarrow> (select_result result, power_back was_powered (release h)))))"

end
