(* ===== verification/Ble_Exchange.thy ===== *)
theory Ble_Exchange
  imports Ble_Session
begin

text \<open>
  One exchange over the characteristic, both ends of it: what the target's end has done wherever it
  stops, what a successful end of the controller has sent and received, and that the two together
  deliver the configuration; and that an exchange nothing disturbs comes to its end.
\<close>

section \<open>Lemmas on tasks\<close>

lemma t_simps [simp]: "t_ok x s = (Inr x, s)" "t_lift (Inr x) s = (Inr x, s)" "t_lift (Inl e) s = (Inl (Failed e), s)"
  by (simp_all add: t_ok_def t_lift_def)

lemma t_lift_Inr [simp]: "t_lift r s = (Inr x, s') \<longleftrightarrow> r = Inr x \<and> s' = s"
  by (cases r) auto

lemma t_bind_cases:
  assumes "t_bind m f s = (r, t)"
  obtains (stops) e where "m s = (Inl e, t)" and "r = Inl e"
    | (continues) x s' where "m s = (Inr x, s')" and "f x s' = (r, t)"
  using assms by (auto simp: t_bind_def split: prod.splits sum.splits)

lemma t_bind_InrE:
  assumes "t_bind m f s = (Inr y, t)"
  obtains x s' where "m s = (Inr x, s')" and "f x s' = (Inr y, t)"
  using assms by (cases rule: t_bind_cases) auto

lemma await_frame: "await sc h = (r, h') \<Longrightarrow> h' = h\<lparr>bh_awaits := Suc (bh_awaits h)\<rparr>"
  by (auto simp: await_def Let_def split: option.splits)

lemma ex_await_frame: "ex_await x = (r, x') \<Longrightarrow> x' = x\<lparr>ex_host := (ex_host x)\<lparr>bh_awaits := Suc (bh_awaits (ex_host x))\<rparr>\<rparr>"
  by (auto simp: ex_await_def split: prod.splits dest!: await_frame)

text \<open>What a step of an exchange leaves alone.\<close>

definition same_but_in :: "exchange \<Rightarrow> exchange \<Rightarrow> bool" where
  "same_but_in x x' \<longleftrightarrow> ex_out x' = ex_out x \<and> ex_installed x' = ex_installed x \<and> bh_world (ex_host x') = bh_world (ex_host x)"

lemma ex_recv_any: "ex_recv m x = (r, x') \<Longrightarrow> same_but_in x x'"
  by (auto simp: ex_recv_def same_but_in_def t_lift_def split: prod.splits elim!: t_bind_cases dest!: ex_await_frame)

lemma ex_recv_Inr:
  assumes "ex_recv m x = (Inr v, x')"
  shows "m (ex_in x) = (Inr v, ex_in x')"
  using assms by (auto simp: ex_recv_def split: prod.splits elim!: t_bind_InrE dest!: ex_await_frame)

lemma ex_call_Inr:
  assumes "ex_call r x = (Inr v, x')"
  shows "r = Inr v" and "ex_in x' = ex_in x" and "same_but_in x x'"
  using assms by (auto simp: ex_call_def same_but_in_def elim!: t_bind_InrE dest!: ex_await_frame)

lemma ex_world_any:
  assumes "ex_world m x = (r, x')"
  shows "ex_in x' = ex_in x" "ex_out x' = ex_out x" "ex_installed x' = ex_installed x"
    and "\<exists>q. m (bh_world (ex_host x)) = (q, bh_world (ex_host x')) \<and> (\<forall>v. r = Inr v \<longrightarrow> q = Inr v)"
  using assms by (auto simp: ex_world_def t_lift_def split: prod.splits sum.splits)

definition sends_part :: "bytes \<Rightarrow> sink \<Rightarrow> sink \<Rightarrow> bool" where
  "sends_part b s s' \<longleftrightarrow> (\<exists>u. prefix u b \<and> sent s' = sent s @ u)"

lemma send_all_part: "send_all b s = (x, s') \<Longrightarrow> sends_part b s s'"
  using send_all_prefix [of b s x s'] take_is_prefix unfolding sends_part_def by blast

lemma sends_part_refl [simp]: "sends_part b s s"
  by (simp add: sends_part_def)

lemma sends_part_first: "sends_part a s s' \<Longrightarrow> sends_part (a @ b) s s'"
  unfolding sends_part_def by (meson prefix_prefix)

lemma sends_part_then: "sent s1 = sent s @ a \<Longrightarrow> sends_part b s1 s' \<Longrightarrow> sends_part (a @ b) s s'"
  unfolding sends_part_def by (metis append.assoc same_prefix_prefix)

lemma write_frame_part:
  assumes "write_frame b s = (x, s')"
  shows "sends_part (ble_header b @ b) s s'"
  using assms unfolding write_frame_def
proof (cases rule: io_bind_cases)
  case (continues u s0)
  then have c: "io_bind (send_all (ble_header b)) (\<lambda>_. io_bind (send_all b) (\<lambda>_. send_ctl)) s = (x, s')"
    by (auto simp: ble_header_def frame_size_def ensure_def split: if_splits)
  then show ?thesis
  proof (cases rule: io_bind_cases)
    case (fails e)
    then show ?thesis by (intro sends_part_first send_all_part)
  next
    case (continues u s1)
    note h = send_all_Inr [OF continues(1) [unfolded unit_eq [of u]]]
    from continues(2) have "sends_part b s1 s'"
    proof (cases rule: io_bind_cases)
      case (fails e)
      then show ?thesis by (intro send_all_part)
    next
      case (continues v s2)
      have "sends_part [] s2 s'" using continues(2) unfolding send_ctl_def by (rule send_all_part)
      with sends_part_then [of s2 s1 b "[]" s'] send_all_Inr [OF continues(1) [unfolded unit_eq [of v]]] show ?thesis by simp
    qed
    with h show ?thesis by (intro sends_part_then) simp_all
  qed
qed (auto simp: frame_size_def ensure_def split: if_splits)

lemma ex_send_frame_any:
  assumes "ex_send_frame b x = (r, x')"
  shows "ex_in x' = ex_in x" "ex_installed x' = ex_installed x" "bh_world (ex_host x') = bh_world (ex_host x)"
    and "sends_part (ble_header b @ b) (ex_out x) (ex_out x')"
    and "r = Inr () \<Longrightarrow> sent (ex_out x') = sent (ex_out x) @ ble_header b @ b \<and> length b \<le> MAX_FRAME"
proof -
  have "ex_in x' = ex_in x \<and> ex_installed x' = ex_installed x \<and> bh_world (ex_host x') = bh_world (ex_host x)
    \<and> sends_part (ble_header b @ b) (ex_out x) (ex_out x')
    \<and> (r = Inr () \<longrightarrow> sent (ex_out x') = sent (ex_out x) @ ble_header b @ b \<and> length b \<le> MAX_FRAME)"
    using assms unfolding ex_send_frame_def
  proof (cases rule: t_bind_cases)
    case (stops e)
    then show ?thesis by (auto simp: t_lift_def)
  next
    case (continues u x0)
    then have b: "length b \<le> MAX_FRAME" "x0 = x" by (auto simp: frame_size_def ensure_def split: if_splits)
    obtain q x1 where aw: "ex_await x = (q, x1)" by (metis prod.exhaust)
    note f = ex_await_frame [OF aw]
    show ?thesis
    proof (cases q)
      case (Inl stop)
      with continues(2) aw f b show ?thesis
        by (auto simp: ex_send_def sends_part_def take_is_prefix simp del: take_append split: option.splits)
    next
      case (Inr v)
      obtain y t where wr: "write_frame b (ex_out x) = (y, t)" by (metis prod.exhaust)
      with continues(2) aw Inr f b have "x' = x1\<lparr>ex_out := t\<rparr>" "r = Inr () \<Longrightarrow> y = Inr ()"
        by (auto simp: ex_send_def t_lift_def split: sum.splits)
      with f write_frame_part [OF wr] write_frame_sends wr b show ?thesis by auto
    qed
  qed
  then show "ex_in x' = ex_in x" "ex_installed x' = ex_installed x" "bh_world (ex_host x') = bh_world (ex_host x)"
      "sends_part (ble_header b @ b) (ex_out x) (ex_out x')"
      "r = Inr () \<Longrightarrow> sent (ex_out x') = sent (ex_out x) @ ble_header b @ b \<and> length b \<le> MAX_FRAME" by auto
qed

section \<open>The target's end\<close>

text \<open>A request the target accepts: it verifies, and opens to the configuration.\<close>

definition accepted :: "ble_crypto \<Rightarrow> bytes \<Rightarrow> bytes \<Rightarrow> bytes \<Rightarrow> bytes \<Rightarrow> bytes \<Rightarrow> bytes \<Rightarrow> bool" where
  "accepted c controller agent secret hello request conf \<longleftrightarrow>
     (\<exists>ce. verify_client_hello c request controller agent (bc_xpublic c secret) = Inr ce
       \<and> decrypt c (session_key c (bc_shared c secret ce) (hello @ take 128 request)) 0
            (hello @ take 128 request) (drop 128 request) = Inr conf
       \<and> conf \<noteq> [])"

text \<open>Over a run, the file has its old node or a configuration that satisfies \<open>P\<close>.\<close>

definition provisions :: "(bytes \<Rightarrow> bool) \<Rightarrow> path \<Rightarrow> world \<Rightarrow> world \<Rightarrow> bool" where
  "provisions P p w w' \<longleftrightarrow> touches {ble_tmp (pid w) p, p} w w'
     \<and> (\<forall>m \<in> insert (nodes w') (observed w w'). m p = nodes w p \<or> (\<exists>conf. P conf \<and> contents m p = Some conf))"

lemma provisions_refl [simp]: "provisions P p w w"
  using reflp_touches by (simp add: provisions_def reflp_def)

lemma provisions_trans:
  assumes "provisions P p u v" and "provisions P p v w"
  shows "provisions P p u w"
proof -
  have t: "touches {ble_tmp (pid u) p, p} u v" "touches {ble_tmp (pid u) p, p} v w"
    using assms touches_env(4) by (auto simp: provisions_def)
  have v: "nodes v p = nodes u p \<or> (\<exists>conf. P conf \<and> contents (nodes v) p = Some conf)"
    using assms(1) by (simp add: provisions_def)
  have "m p = nodes u p \<or> (\<exists>conf. P conf \<and> contents m p = Some conf)"
    if m: "m \<in> insert (nodes w) (observed u w)" for m
  proof (cases "m \<in> observed u v")
    case True
    then show ?thesis using assms(1) by (auto simp: provisions_def)
  next
    case False
    with m observed_trans [OF t] have "m \<in> insert (nodes w) (observed v w)" by blast
    with assms(2) have "m p = nodes v p \<or> (\<exists>conf. P conf \<and> contents m p = Some conf)" by (auto simp: provisions_def)
    with v show ?thesis by (auto simp: contents_def)
  qed
  with touches_trans [OF t] show ?thesis by (simp add: provisions_def)
qed

lemma provisions_next_tick [simp]: "provisions P p w (next_tick w)"
  using touches_next_tick [of _ w] by (simp add: provisions_def observed_def)

lemma getrandom_provisions: "getrandom n w = (x, w') \<Longrightarrow> provisions P p w w'"
  by (auto simp: getrandom_def split: option.splits)

lemma install_provisions:
  assumes "install p b w = (x, w')" and "P b"
  shows "provisions P p w w'"
  using assms(2) conf_file.replace_frame [OF TrueI assms(1)] conf_file.replace_atomic [OF TrueI assms(1)]
    conf_file.replace_success [OF TrueI, of p b w w'] conf_file.replace_failure [OF TrueI, of p b w _ w'] assms(1)
  by (cases x) (auto simp: provisions_def)

lemma ignored_send_frame:
  assumes "t_ignore (ex_send_frame b) x = (r, x')"
  shows "ex_installed x' = ex_installed x \<and> bh_world (ex_host x') = bh_world (ex_host x) \<and> (\<exists>u. sent (ex_out x') = sent (ex_out x) @ u)"
proof -
  obtain q x1 where f: "ex_send_frame b x = (q, x1)" by (metis prod.exhaust)
  with assms have "x' = x1" by (auto simp: t_ignore_def split: sum.splits stop.splits)
  with ex_send_frame_any [OF f] show ?thesis by (auto simp: sends_part_def)
qed

lemma server_credentials_outcome:
  assumes "server_credentials c controller agent output secret hello request x = (z, x')"
  obtains (early) "isl z" "ex_out x' = ex_out x" "ex_installed x' = ex_installed x"
      "provisions (accepted c controller agent secret hello request) output (bh_world (ex_host x)) (bh_world (ex_host x'))"
    | (installed) conf u where "accepted c controller agent secret hello request conf"
      "contents (nodes (bh_world (ex_host x'))) output = Some conf" "ex_installed x'"
      "provisions (accepted c controller agent secret hello request) output (bh_world (ex_host x)) (bh_world (ex_host x'))"
      "sent (ex_out x') = sent (ex_out x) @ u"
proof -
  from assms show thesis unfolding server_credentials_def
  proof (cases rule: t_bind_cases)
    case (stops e)
    then show thesis by (intro early) (auto simp: t_lift_def)
  next
    case (continues ce x0)
    then have ce: "verify_client_hello c request controller agent (bc_xpublic c secret) = Inr ce" "x0 = x" by auto
    let ?t = "hello @ take 128 request"
    let ?k = "session_key c (bc_shared c secret ce) ?t"
    from continues(2) show thesis unfolding Let_def ce(2)
    proof (cases rule: t_bind_cases)
      case (stops e)
      then show thesis by (intro early) (auto simp: t_lift_def)
    next
      case (continues conf x1)
      then have conf: "decrypt c ?k 0 ?t (drop 128 request) = Inr conf" "x1 = x" by auto
      from continues(2) show thesis unfolding conf(2)
      proof (cases rule: t_bind_cases)
        case (stops e)
        then show thesis by (intro early) (auto simp: t_lift_def)
      next
        case (continues v x2)
        then have a: "accepted c controller agent secret hello request conf" and x2: "x2 = x"
          using ce(1) conf(1) by (auto simp: accepted_def ensure_def split: if_splits)
        from continues(2) show thesis unfolding x2
        proof (cases rule: t_bind_cases)
          case (stops e)
          note w = ex_world_any [OF stops(1)]
          from w(4) have "provisions (accepted c controller agent secret hello request) output (bh_world (ex_host x)) (bh_world (ex_host x'))"
            using install_provisions a by blast
          with w stops show thesis by (intro early) auto
        next
          case (continues v x3)
          note w = ex_world_any [OF continues(1)]
          from w(4) have i: "install output conf (bh_world (ex_host x)) = (Inr (), bh_world (ex_host x3))" by auto
          have rest: "ex_installed x' \<and> bh_world (ex_host x') = bh_world (ex_host x3) \<and> (\<exists>u. sent (ex_out x') = sent (ex_out x3) @ u)"
            using continues(2)
            by (auto simp: ex_update_def t_lift_def elim!: t_bind_cases dest!: ex_await_frame ignored_send_frame)
          with a i w(2) install_provisions [OF i, of "accepted c controller agent secret hello request"]
            conf_file.replace_success [OF TrueI i] show thesis by (auto intro: installed)
        qed
      qed
    qed
  qed
qed

abbreviation hello_of :: "ble_crypto \<Rightarrow> bytes \<Rightarrow> bytes \<Rightarrow> bytes \<Rightarrow> bytes" where
  "hello_of c key controller secret \<equiv> server_hello c key controller (bc_xpublic c secret)"

definition accepted_conf :: "ble_crypto \<Rightarrow> bytes \<Rightarrow> bytes \<Rightarrow> bytes \<Rightarrow> bytes \<Rightarrow> bool" where
  "accepted_conf c key controller agent conf \<longleftrightarrow>
     (\<exists>secret request. accepted c controller agent secret (hello_of c key controller secret) request conf)"

lemma provisions_mono: "provisions P p w w' \<Longrightarrow> (\<And>conf. P conf \<Longrightarrow> Q conf) \<Longrightarrow> provisions Q p w w'"
  by (auto simp: provisions_def)

lemma server_answer_outcome:
  assumes "t_bind (ex_send_frame (hello_of c key controller secret)) (\<lambda>_. t_bind (ex_recv read_frame) (\<lambda>request.
      server_credentials c controller agent output secret (hello_of c key controller secret) request)) y = (z, y')"
  obtains (early) "isl z" "ex_installed y' = ex_installed y"
      "sends_part (ble_header (hello_of c key controller secret) @ hello_of c key controller secret) (ex_out y) (ex_out y')"
      "provisions (accepted_conf c key controller agent) output (bh_world (ex_host y)) (bh_world (ex_host y'))"
    | (installed) request rest conf u where
      "arriving (ex_in y) = ble_header request @ request @ rest" "length request \<le> MAX_FRAME"
      "accepted c controller agent secret (hello_of c key controller secret) request conf"
      "contents (nodes (bh_world (ex_host y'))) output = Some conf" "ex_installed y'"
      "sent (ex_out y') = sent (ex_out y) @ ble_header (hello_of c key controller secret) @ hello_of c key controller secret @ u"
      "provisions (accepted_conf c key controller agent) output (bh_world (ex_host y)) (bh_world (ex_host y'))"
proof -
  let ?h = "hello_of c key controller secret"
  from assms show thesis
  proof (cases rule: t_bind_cases)
    case (stops e)
    note f = ex_send_frame_any [OF stops(1)]
    from f stops(2) show thesis by (intro early) auto
  next
    case (continues v y4)
    note f = ex_send_frame_any [OF continues(1)] ex_send_frame_any(5) [OF continues(1) [unfolded unit_eq [of v]] refl]
    from continues(2) show thesis
    proof (cases rule: t_bind_cases)
      case (stops e)
      with ex_recv_any [OF stops(1)] f show thesis by (intro early) (auto simp: same_but_in_def)
    next
      case (continues request y5)
      note r = ex_recv_any [OF continues(1)] gatt.get_consumes [OF ex_recv_Inr [OF continues(1)]]
      have w5: "bh_world (ex_host y5) = bh_world (ex_host y)" using r(1) f(3) by (simp add: same_but_in_def)
      have tail: "provisions (accepted_conf c key controller agent) output (bh_world (ex_host y)) (bh_world (ex_host y'))"
        if "provisions (accepted c controller agent secret ?h request) output (bh_world (ex_host y5)) (bh_world (ex_host y'))"
        using that unfolding w5 by (rule provisions_mono) (auto simp: accepted_conf_def)
      from continues(2) show thesis
      proof (cases rule: server_credentials_outcome)
        case early
        with tail [OF early(4)] r(1) f show thesis by (intro that(1)) (auto simp: same_but_in_def)
      next
        case (installed conf u)
        show thesis
          by (rule that(2) [OF _ _ installed(1-3) _ tail [OF installed(4)], of "arriving (ex_in y5)" u])
            (use r f installed(5) in \<open>simp_all add: same_but_in_def\<close>)
      qed
    qed
  qed
qed

lemma server_exchange_outcome:
  assumes "server_exchange c key controller agent output y = (z, y')"
  obtains (early) secret where "isl z" "ex_installed y' = ex_installed y"
      "sends_part (ble_header (hello_of c key controller secret) @ hello_of c key controller secret) (ex_out y) (ex_out y')"
      "provisions (accepted_conf c key controller agent) output (bh_world (ex_host y)) (bh_world (ex_host y'))"
    | (installed) secret request rest conf u where
      "arriving (ex_in y) = [START] @ ble_header request @ request @ rest" "length request \<le> MAX_FRAME"
      "accepted c controller agent secret (hello_of c key controller secret) request conf"
      "contents (nodes (bh_world (ex_host y'))) output = Some conf" "ex_installed y'"
      "sent (ex_out y') = sent (ex_out y) @ ble_header (hello_of c key controller secret) @ hello_of c key controller secret @ u"
      "provisions (accepted_conf c key controller agent) output (bh_world (ex_host y)) (bh_world (ex_host y'))"
proof -
  from assms show thesis unfolding server_exchange_def
  proof (cases rule: t_bind_cases)
    case (stops e)
    with ex_recv_any [OF stops(1)] show thesis by (intro early) (auto simp: same_but_in_def)
  next
    case (continues start y1)
    note 1 = ex_recv_any [OF continues(1)] read_exact_Inr [OF ex_recv_Inr [OF continues(1)]]
    from continues(2) show thesis
    proof (cases rule: t_bind_cases)
      case (stops e)
      with 1 show thesis by (intro early) (auto simp: same_but_in_def t_lift_def)
    next
      case (continues v y2)
      then have 2: "start = [START]" "y2 = y1" by (auto simp: ensure_def split: if_splits)
      from continues(2) show thesis unfolding 2(2)
      proof (cases rule: t_bind_cases)
        case (stops e)
        note w = ex_world_any [OF stops(1)]
        from w 1(1) stops(2) show thesis by (intro early) (auto simp: same_but_in_def intro: getrandom_provisions)
      next
        case (continues secret y3)
        note w = ex_world_any [OF continues(1)]
        have pr: "provisions (accepted_conf c key controller agent) output (bh_world (ex_host y)) (bh_world (ex_host y3))"
          using w(4) 1(1) getrandom_provisions by (auto simp: same_but_in_def)
        from continues(2) show thesis unfolding Let_def
        proof (cases rule: server_answer_outcome)
          case early
          with 1(1) w show thesis by (intro that(1) [of secret]) (auto simp: same_but_in_def intro: provisions_trans [OF pr])
        next
          case (installed request rest conf u)
          show thesis
            by (rule that(2) [OF _ installed(2-5) _ provisions_trans [OF pr installed(7)], of rest u])
              (use 1 2(1) w installed(1,6) in \<open>simp_all add: same_but_in_def\<close>)
        qed
      qed
    qed
  qed
qed

section \<open>The controller's end\<close>

lemma ex_send_Inr:
  assumes "ex_send b m x = (Inr (), x')"
  shows "m (ex_out x) = (Inr (), ex_out x')" "ex_in x' = ex_in x"
  using assms by (auto simp: ex_send_def split: prod.splits sum.splits option.splits dest!: ex_await_frame)

lemma client_credentials_Inr:
  assumes "client_credentials c ck agent conf hello_bytes x = (Inr (), x')"
  obtains hello secret box ack where
    "verify_server_hello c hello_bytes (bc_public c ck) agent = Inr hello"
    "let request = client_hello c ck agent (sh_ephemeral hello) (bc_xpublic c secret); transcript = hello_bytes @ request in
       crypt c (session_key c (bc_shared c secret (sh_ephemeral hello)) transcript) 0 transcript (as_bytes conf) = Inr box
     \<and> sent (ex_out x') = sent (ex_out x) @ ble_header (request @ box) @ request @ box \<and> length (request @ box) \<le> MAX_FRAME"
    "arriving (ex_in x) = ble_header ack @ ack @ arriving (ex_in x')"
proof -
  from assms obtain hello secret x1 box x2 ack x3 where
    1: "verify_server_hello c hello_bytes (bc_public c ck) agent = Inr hello" and
    2: "ex_world (getrandom 32) x = (Inr secret, x1)" and
    3: "crypt c (session_key c (bc_shared c secret (sh_ephemeral hello)) (hello_bytes @ client_hello c ck agent (sh_ephemeral hello) (bc_xpublic c secret)))
      0 (hello_bytes @ client_hello c ck agent (sh_ephemeral hello) (bc_xpublic c secret)) (as_bytes conf) = Inr box" and
    4: "ex_send_frame (client_hello c ck agent (sh_ephemeral hello) (bc_xpublic c secret) @ box) x1 = (Inr (), x2)" and
    5: "ex_recv read_frame x2 = (Inr ack, x3)" and 6: "x' = x3"
    unfolding client_credentials_def Let_def by (elim t_bind_InrE) auto
  note w = ex_world_any [OF 2]
  note f = ex_send_frame_any [OF 4] ex_send_frame_any(5) [OF 4 refl]
  note r = ex_recv_any [OF 5] gatt.get_consumes [OF ex_recv_Inr [OF 5]]
  show thesis
    by (rule that [OF 1, of secret box ack]) (use 3 6 w f r in \<open>auto simp: Let_def same_but_in_def\<close>)
qed

lemma client_exchange_Inr:
  assumes "client_exchange c ck agent conf d x = (Inr (), x')" and "dv_write d = Inr w" and "dv_notify d = Inr r"
  obtains hello_bytes hello secret box ack rest where
    "verify_server_hello c hello_bytes (bc_public c ck) agent = Inr hello"
    "let request = client_hello c ck agent (sh_ephemeral hello) (bc_xpublic c secret); transcript = hello_bytes @ request in
       crypt c (session_key c (bc_shared c secret (sh_ephemeral hello)) transcript) 0 transcript (as_bytes conf) = Inr box
     \<and> sent (ex_out x') = sent w @ [START] @ ble_header (request @ box) @ request @ box \<and> length (request @ box) \<le> MAX_FRAME"
    "arriving r = ble_header hello_bytes @ hello_bytes @ ble_header ack @ ack @ rest"
proof -
  from assms obtain x1 x2 hello_bytes x3 where
    2: "ex_send [START] (io_bind (send_all [START]) (\<lambda>_. send_ctl)) (x1\<lparr>ex_in := r, ex_out := w\<rparr>) = (Inr (), x2)" and
    3: "ex_recv read_frame x2 = (Inr hello_bytes, x3)" and
    4: "client_credentials c ck agent conf hello_bytes x3 = (Inr (), x')"
    unfolding client_exchange_def by (elim t_bind_InrE) (auto simp: ex_update_def dest!: ex_call_Inr(1))
  have s: "sent (ex_out x2) = sent w @ [START]" "ex_in x2 = r"
    using ex_send_Inr [OF 2] by (auto elim!: io_bind_InrE dest!: send_all_Inr send_ctl_Inr)
  note r = ex_recv_any [OF 3] gatt.get_consumes [OF ex_recv_Inr [OF 3]]
  from 4 obtain hello secret box ack where
    "verify_server_hello c hello_bytes (bc_public c ck) agent = Inr hello"
    "let request = client_hello c ck agent (sh_ephemeral hello) (bc_xpublic c secret); transcript = hello_bytes @ request in
       crypt c (session_key c (bc_shared c secret (sh_ephemeral hello)) transcript) 0 transcript (as_bytes conf) = Inr box
     \<and> sent (ex_out x') = sent (ex_out x3) @ ble_header (request @ box) @ request @ box \<and> length (request @ box) \<le> MAX_FRAME"
    "arriving (ex_in x3) = ble_header ack @ ack @ arriving (ex_in x')"
    by (rule client_credentials_Inr)
  with that [of hello_bytes hello secret box ack] s r show thesis by (simp add: same_but_in_def Let_def)
qed

section \<open>The two together\<close>

lemma header_length [simp]: "length (ble_header b) = 4"
  by (simp add: ble_header_def)

lemma hello_length: "ble_laws c \<Longrightarrow> length (hello_of c key controller secret) = 128"
  by (simp add: server_hello_def ble_laws_lengths Let_def)

lemma verify_server_hello_length: "verify_server_hello c b controller agent = Inr hello \<Longrightarrow> length b = 128"
  by (auto simp: verify_server_hello_def parse_server_hello_def split: if_splits sum.splits)

lemma exchange_delivers:
  assumes laws: "ble_laws c"
    and client: "client_exchange c ck (bc_public c key) conf d x = (Inr (), x')" and d: "dv_write d = Inr w" "dv_notify d = Inr r" and "sent w = []"
    and server: "server_exchange c key (bc_public c ck) (bc_public c key) output y = (z, y')" and "sent (ex_out y) = []"
    and up: "prefix (arriving (ex_in y)) (sent (ex_out x'))" and down: "prefix (arriving r) (sent (ex_out y'))"
  shows "contents (nodes (bh_world (ex_host y'))) output = Some (as_bytes conf) \<and> ex_installed y'"
proof -
  obtain hb hello cs box ack rest where
    1: "verify_server_hello c hb (bc_public c ck) (bc_public c key) = Inr hello" and
    2: "let request = client_hello c ck (bc_public c key) (sh_ephemeral hello) (bc_xpublic c cs); transcript = hb @ request in
       crypt c (session_key c (bc_shared c cs (sh_ephemeral hello)) transcript) 0 transcript (as_bytes conf) = Inr box
     \<and> sent (ex_out x') = sent w @ [START] @ ble_header (request @ box) @ request @ box \<and> length (request @ box) \<le> MAX_FRAME" and
    3: "arriving r = ble_header hb @ hb @ ble_header ack @ ack @ rest"
    using client d by (rule client_exchange_Inr)
  define rq where "rq = client_hello c ck (bc_public c key) (sh_ephemeral hello) (bc_xpublic c cs)"
  from server show ?thesis
  proof (cases rule: server_exchange_outcome)
    case (early secret)
    from early(3) assms(7) have "length (sent (ex_out y')) \<le> 132"
      by (auto simp: sends_part_def hello_length [OF laws] dest!: prefix_length_le)
    with prefix_length_le [OF down] verify_server_hello_length [OF 1] 3 show ?thesis by simp
  next
    case (installed secret request rest' conf' u)
    let ?h = "hello_of c key (bc_public c ck) secret"
    from down obtain v where "sent (ex_out y') = arriving r @ v" by (auto elim: prefixE)
    with installed(6) assms(7) 3 have "ble_header hb @ hb @ ble_header ack @ ack @ rest @ v = ble_header ?h @ ?h @ u" by simp
    moreover have "length hb \<le> MAX_FRAME" "length ?h \<le> MAX_FRAME"
      using verify_server_hello_length [OF 1] hello_length [OF laws] by (simp_all add: MAX_FRAME_def)
    ultimately have hb: "hb = ?h" using gatt.header_unique by blast
    from verify_server_hello_ok [OF laws ble_laws_lengths(3) [OF laws], of key "bc_public c ck" secret] 1 hb
    have eph: "sh_ephemeral hello = bc_xpublic c secret" by auto
    from up obtain v where "sent (ex_out x') = arriving (ex_in y) @ v" by (auto elim: prefixE)
    with installed(1) 2 assms(5) have "ble_header (rq @ box) @ (rq @ box) @ [] = ble_header request @ request @ rest' @ v"
      by (simp add: Let_def rq_def)
    moreover have "length (rq @ box) \<le> MAX_FRAME" using 2 by (simp add: Let_def rq_def)
    ultimately have rq: "request = rq @ box" using gatt.header_unique [of "rq @ box" "[]" request] installed(2) by blast
    have len: "length rq = 128" using laws by (simp add: rq_def client_hello_def ble_laws_lengths Let_def)
    let ?k = "session_key c (bc_shared c cs (bc_xpublic c secret)) (?h @ rq)"
    from 2 have "bc_seal c ?k (nonce 0) (?h @ rq) (as_bytes conf) = Some box"
      by (auto simp: Let_def rq_def eph hb crypt_def ok_or_def split: option.splits)
    with laws have box: "bc_open c ?k (nonce 0) (?h @ rq) box = Some (as_bytes conf)" "16 \<le> length box"
      by (auto simp: ble_laws_def)
    have "verify_client_hello c request (bc_public c ck) (bc_public c key) (bc_xpublic c secret) = Inr (bc_xpublic c cs)"
      using verify_client_hello_ok [OF laws ble_laws_lengths(3) [OF laws] box(2)] by (simp add: rq rq_def eph)
    moreover have "bc_shared c secret (bc_xpublic c cs) = bc_shared c cs (bc_xpublic c secret)" using laws by (simp add: ble_laws_def)
    ultimately have "conf' = as_bytes conf" using installed(3) box(1) len by (auto simp: accepted_def rq decrypt_def)
    with installed(4,5) show ?thesis by simp
  qed
qed

section \<open>An exchange that nothing disturbs\<close>

definition undisturbed :: "exchange \<Rightarrow> bool" where
  "undisturbed x \<longleftrightarrow> (\<forall>n. bh_alarm (ex_host x) n = Quiet)"

lemma ex_await_ok:
  assumes "undisturbed x"
  obtains x' where "ex_await x = (Inr (), x')" "undisturbed x'" "same_but_in x x'" "ex_in x' = ex_in x"
  using assms by (simp add: ex_await_def await_def undisturbed_def same_but_in_def)

lemma ex_call_ok:
  assumes "undisturbed x" and "r = Inr v"
  obtains x' where "ex_call r x = (Inr v, x')" "undisturbed x'" "same_but_in x x'" "ex_in x' = ex_in x"
proof -
  obtain x1 where "ex_await x = (Inr (), x1)" "undisturbed x1" "same_but_in x x1" "ex_in x1 = ex_in x"
    using assms(1) by (rule ex_await_ok)
  with assms(2) that show thesis by (simp add: ex_call_def t_bind_def)
qed

lemma ex_recv_ok:
  assumes "undisturbed x" and "m (ex_in x) = (Inr v, i)"
  obtains x' where "ex_recv m x = (Inr v, x')" "undisturbed x'" "same_but_in x x'" "ex_in x' = i"
proof -
  obtain x1 where 1: "ex_await x = (Inr (), x1)" "undisturbed x1" "same_but_in x x1" "ex_in x1 = ex_in x"
    using assms(1) by (rule ex_await_ok)
  show thesis by (rule that [of "x1\<lparr>ex_in := i\<rparr>"]) (use 1 assms(2) in \<open>simp_all add: ex_recv_def t_bind_def undisturbed_def same_but_in_def\<close>)
qed

lemma ex_send_ok:
  assumes "undisturbed x" and "m (ex_out x) = (Inr (), t)"
  obtains x' where "ex_send b m x = (Inr (), x')" "undisturbed x'" "ex_out x' = t" "ex_in x' = ex_in x"
    "bh_world (ex_host x') = bh_world (ex_host x)"
proof -
  obtain x1 where 1: "ex_await x = (Inr (), x1)" "undisturbed x1" "same_but_in x x1" "ex_in x1 = ex_in x"
    using assms(1) by (rule ex_await_ok)
  show thesis by (rule that [of "x1\<lparr>ex_out := t\<rparr>"]) (use 1 assms(2) in \<open>simp_all add: ex_send_def undisturbed_def same_but_in_def\<close>)
qed

lemma ex_send_frame_ok:
  assumes "undisturbed x" and "healthy (ex_out x)" and "length b \<le> MAX_FRAME"
  obtains x' where "ex_send_frame b x = (Inr (), x')" "undisturbed x'" "healthy (ex_out x')" "ex_in x' = ex_in x"
    "sent (ex_out x') = sent (ex_out x) @ ble_header b @ b" "bh_world (ex_host x') = bh_world (ex_host x)"
proof -
  obtain t where t: "write_frame b (ex_out x) = (Inr (), t)" "healthy t" using write_frame_takes [OF assms(3,2)] by blast
  obtain x' where 1: "ex_send (ble_header b @ b) (write_frame b) x = (Inr (), x')" "undisturbed x'" "ex_out x' = t" "ex_in x' = ex_in x"
      "bh_world (ex_host x') = bh_world (ex_host x)"
    using assms(1) t(1) by (rule ex_send_ok [where b = "ble_header b @ b" and m = "write_frame b"])
  show thesis by (rule that [of x']) (use 1 t write_frame_sends [OF t(1)] assms(3) in \<open>simp_all add: ex_send_frame_def t_bind_def frame_size_def\<close>)
qed

lemma ex_world_ok:
  assumes "m (bh_world (ex_host x)) = (Inr v, w)"
  shows "ex_world m x = (Inr v, x\<lparr>ex_host := (ex_host x)\<lparr>bh_world := w\<rparr>\<rparr>)"
  using assms by (simp add: ex_world_def)

definition fresh_secret :: "world \<Rightarrow> bytes" where
  "fresh_secret w = map (entropy w (tick w)) [0..<32]"

lemma getrandom_calm: "calm w \<Longrightarrow> getrandom 32 w = (Inr (fresh_secret w), next_tick w)"
  by (simp add: getrandom_def fresh_secret_def)

lemma ble_laws_seal:
  assumes "ble_laws c" and "length m < 65536"
  obtains b where "bc_seal c k n a m = Some b" "bc_open c k n a b = Some m" "length b = length m + 16"
proof -
  from assms have "bc_seal c k n a m \<noteq> None" unfolding ble_laws_def by blast
  then obtain b where "bc_seal c k n a m = Some b" by blast
  with assms(1) that show thesis unfolding ble_laws_def by blast
qed

lemma server_credentials_ok:
  assumes "ble_laws c" and "undisturbed x" and "healthy (ex_out x)"
    and "accepted c controller agent secret hello request conf"
    and "install output conf (bh_world (ex_host x)) = (Inr (), w')"
  obtains x' k ack where "server_credentials c controller agent output secret hello request x = (Inr (), x')"
    "bc_seal c k (nonce 1) (hello @ take 128 request) (as_bytes ''ok'') = Some ack"
    "\<exists>ce. verify_client_hello c request controller agent (bc_xpublic c secret) = Inr ce
       \<and> k = session_key c (bc_shared c secret ce) (hello @ take 128 request)"
    "sent (ex_out x') = sent (ex_out x) @ ble_header ack @ ack"
proof -
  from assms(4) obtain ce where ce: "verify_client_hello c request controller agent (bc_xpublic c secret) = Inr ce"
    "decrypt c (session_key c (bc_shared c secret ce) (hello @ take 128 request)) 0 (hello @ take 128 request) (drop 128 request) = Inr conf"
    "conf \<noteq> []" by (auto simp: accepted_def)
  let ?k = "session_key c (bc_shared c secret ce) (hello @ take 128 request)"
  have "length (as_bytes ''ok'') < 65536" by simp
  with assms(1) obtain ack where ack: "bc_seal c ?k (nonce 1) (hello @ take 128 request) (as_bytes ''ok'') = Some ack"
      and "length ack = length (as_bytes ''ok'') + 16" by (rule ble_laws_seal)
  then have la: "length ack \<le> MAX_FRAME" by (simp add: MAX_FRAME_def)
  let ?x1 = "x\<lparr>ex_host := (ex_host x)\<lparr>bh_world := w'\<rparr>, ex_installed := True\<rparr>"
  have u1: "undisturbed ?x1" "healthy (ex_out ?x1)" using assms(2,3) by (simp_all add: undisturbed_def)
  obtain x2 where 2: "ex_send_frame ack ?x1 = (Inr (), x2)" "undisturbed x2"
      "sent (ex_out x2) = sent (ex_out ?x1) @ ble_header ack @ ack"
    using u1 la by (rule ex_send_frame_ok)
  obtain x3 where 3: "ex_await x2 = (Inr (), x3)" "same_but_in x2 x3" using 2(2) by (rule ex_await_ok)
  have "server_credentials c controller agent output secret hello request x = (Inr (), x3)"
    using ce ex_world_ok [where m = "install output conf", OF assms(5)] ack 2(1) 3(1)
    by (simp add: server_credentials_def t_bind_def Let_def crypt_def ex_update_def t_ignore_def)
  with that ack ce(1) 2(3) 3(2) show thesis by (simp add: same_but_in_def)
qed

lemma server_exchange_ok:
  assumes "ble_laws c" and "undisturbed y" and "healthy (ex_out y)" and "calm (bh_world (ex_host y))"
    and "arriving (ex_in y) = [START] @ ble_header request @ request" and "length request \<le> MAX_FRAME"
    and "secret = fresh_secret (bh_world (ex_host y))"
    and "accepted c controller agent secret (hello_of c key controller secret) request conf"
    and "install output conf (next_tick (bh_world (ex_host y))) = (Inr (), w')"
  obtains y' k ack where "server_exchange c key controller agent output y = (Inr (), y')"
    "bc_seal c k (nonce 1) (hello_of c key controller secret @ take 128 request) (as_bytes ''ok'') = Some ack"
    "\<exists>ce. verify_client_hello c request controller agent (bc_xpublic c secret) = Inr ce
       \<and> k = session_key c (bc_shared c secret ce) (hello_of c key controller secret @ take 128 request)"
    "sent (ex_out y') = sent (ex_out y) @ ble_header (hello_of c key controller secret) @ hello_of c key controller secret @ ble_header ack @ ack"
proof -
  let ?h = "hello_of c key controller secret"
  obtain i where i: "read_exact 1 (ex_in y) = (Inr [START], i)" "arriving i = ble_header request @ request"
    using assms(5) by (rule read_exact_ok) auto
  obtain y1 where 1: "ex_recv (read_exact 1) y = (Inr [START], y1)" "undisturbed y1" "same_but_in y y1" "ex_in y1 = i"
    using assms(2) i(1) by (rule ex_recv_ok)
  let ?y2 = "y1\<lparr>ex_host := (ex_host y1)\<lparr>bh_world := next_tick (bh_world (ex_host y))\<rparr>\<rparr>"
  have w: "ex_world (getrandom 32) y1 = (Inr secret, ?y2)"
    using 1(3) assms(4,7) by (intro ex_world_ok) (simp add: same_but_in_def getrandom_calm)
  have u2: "undisturbed ?y2" "healthy (ex_out ?y2)" using 1(2,3) assms(3) by (simp_all add: undisturbed_def same_but_in_def)
  have lh: "length ?h \<le> MAX_FRAME" by (simp add: hello_length [OF assms(1)] MAX_FRAME_def)
  obtain y3 where 3: "ex_send_frame ?h ?y2 = (Inr (), y3)" "undisturbed y3" "healthy (ex_out y3)" "ex_in y3 = ex_in ?y2"
      "sent (ex_out y3) = sent (ex_out ?y2) @ ble_header ?h @ ?h" "bh_world (ex_host y3) = bh_world (ex_host ?y2)"
    using u2 lh by (rule ex_send_frame_ok)
  obtain j where j: "read_frame (ex_in y3) = (Inr request, j)" using read_frame_takes [OF assms(6), of "ex_in y3" "[]"] 3(4) 1(4) i(2) by auto
  obtain y4 where 4: "ex_recv read_frame y3 = (Inr request, y4)" "undisturbed y4" "same_but_in y3 y4"
    using 3(2) j by (rule ex_recv_ok)
  have h4: "healthy (ex_out y4)" "install output conf (bh_world (ex_host y4)) = (Inr (), w')"
    using 4(3) 3(3,6) assms(9) by (simp_all add: same_but_in_def)
  obtain y' k ack where 5: "server_credentials c controller agent output secret ?h request y4 = (Inr (), y')"
    "bc_seal c k (nonce 1) (?h @ take 128 request) (as_bytes ''ok'') = Some ack"
    "\<exists>ce. verify_client_hello c request controller agent (bc_xpublic c secret) = Inr ce
       \<and> k = session_key c (bc_shared c secret ce) (?h @ take 128 request)"
    "sent (ex_out y') = sent (ex_out y4) @ ble_header ack @ ack"
    using assms(1) 4(2) h4(1) assms(8) h4(2) by (rule server_credentials_ok)
  have "server_exchange c key controller agent output y = (Inr (), y')"
    using 1(1) w 3(1) 4(1) 5(1) by (simp add: server_exchange_def t_bind_def Let_def)
  with that 5 4(3) 3(5) 1(3) show thesis by (simp add: same_but_in_def)
qed

lemma client_credentials_ok:
  assumes "undisturbed x" and "healthy (ex_out x)" and "calm (bh_world (ex_host x))"
    and "verify_server_hello c hello_bytes (bc_public c ck) agent = Inr hello"
    and "secret = fresh_secret (bh_world (ex_host x))"
    and "request = client_hello c ck agent (sh_ephemeral hello) (bc_xpublic c secret)"
    and "k = session_key c (bc_shared c secret (sh_ephemeral hello)) (hello_bytes @ request)"
    and "bc_seal c k (nonce 0) (hello_bytes @ request) (as_bytes conf) = Some box" and "length (request @ box) \<le> MAX_FRAME"
    and "bc_open c k (nonce 1) (hello_bytes @ request) ack = Some (as_bytes ''ok'')"
    and "arriving (ex_in x) = ble_header ack @ ack" and "length ack \<le> MAX_FRAME"
  obtains x' where "client_credentials c ck agent conf hello_bytes x = (Inr (), x')"
    "sent (ex_out x') = sent (ex_out x) @ ble_header (request @ box) @ request @ box"
proof -
  let ?x1 = "x\<lparr>ex_host := (ex_host x)\<lparr>bh_world := next_tick (bh_world (ex_host x))\<rparr>\<rparr>"
  have w: "ex_world (getrandom 32) x = (Inr secret, ?x1)" using assms(3,5) by (intro ex_world_ok) (simp add: getrandom_calm)
  have u1: "undisturbed ?x1" "healthy (ex_out ?x1)" using assms(1,2) by (simp_all add: undisturbed_def)
  obtain x2 where 2: "ex_send_frame (request @ box) ?x1 = (Inr (), x2)" "undisturbed x2" "ex_in x2 = ex_in ?x1"
      "sent (ex_out x2) = sent (ex_out ?x1) @ ble_header (request @ box) @ request @ box"
    using u1 assms(9) by (rule ex_send_frame_ok)
  obtain j where j: "read_frame (ex_in x2) = (Inr ack, j)"
    using read_frame_takes [OF assms(12), of "ex_in x2" "[]"] 2(3) assms(11) by auto
  obtain x3 where 3: "ex_recv read_frame x2 = (Inr ack, x3)" "same_but_in x2 x3" using 2(2) j by (rule ex_recv_ok)
  have "client_credentials c ck agent conf hello_bytes x = (Inr (), x3)"
    using assms(4,8,10) w 2(1) 3(1)
    by (simp add: client_credentials_def t_bind_def Let_def crypt_def decrypt_def flip: assms(6,7))
  with that 2(4) 3(2) show thesis by (simp add: same_but_in_def)
qed

lemma client_exchange_ok:
  assumes "undisturbed x" and "calm (bh_world (ex_host x))" and "dv_connect d = Inr ()" and "characteristic d = Inr ()"
    and "dv_notify d = Inr r" and "dv_write d = Inr w" and "healthy w"
    and "verify_server_hello c hello_bytes (bc_public c ck) agent = Inr hello"
    and "secret = fresh_secret (bh_world (ex_host x))"
    and "request = client_hello c ck agent (sh_ephemeral hello) (bc_xpublic c secret)"
    and "k = session_key c (bc_shared c secret (sh_ephemeral hello)) (hello_bytes @ request)"
    and "bc_seal c k (nonce 0) (hello_bytes @ request) (as_bytes conf) = Some box" and "length (request @ box) \<le> MAX_FRAME"
    and "bc_open c k (nonce 1) (hello_bytes @ request) ack = Some (as_bytes ''ok'')"
    and "arriving r = ble_header hello_bytes @ hello_bytes @ ble_header ack @ ack" and "length ack \<le> MAX_FRAME"
  obtains x' where "client_exchange c ck agent conf d x = (Inr (), x')"
    "sent (ex_out x') = sent w @ [START] @ ble_header (request @ box) @ request @ box"
proof -
  obtain x1 where 1: "ex_call (with_context ''connecting to BLE target'' (dv_connect d)) x = (Inr (), x1)" "undisturbed x1" "same_but_in x x1"
    using assms(1) by (rule ex_call_ok [where r = "with_context ''connecting to BLE target'' (dv_connect d)"]) (use assms(3) in auto)
  obtain x2 where 2: "ex_call (characteristic d) x1 = (Inr (), x2)" "undisturbed x2" "same_but_in x1 x2"
    using 1(2) assms(4) by (rule ex_call_ok)
  obtain x3 where 3: "ex_call (dv_notify d) x2 = (Inr r, x3)" "undisturbed x3" "same_but_in x2 x3"
    using 2(2) assms(5) by (rule ex_call_ok)
  obtain x4 where 4: "ex_call (dv_write d) x3 = (Inr w, x4)" "undisturbed x4" "same_but_in x3 x4"
    using 3(2) assms(6) by (rule ex_call_ok)
  let ?x5 = "x4\<lparr>ex_in := r, ex_out := w\<rparr>"
  have u5: "undisturbed ?x5" using 4(2) by (simp add: undisturbed_def)
  obtain t1 where t1: "send_all [START] w = (Inr (), t1)" "healthy t1" "sent t1 = sent w @ [START]" using assms(7) by (rule send_all_healthy)
  obtain t where t: "send_ctl t1 = (Inr (), t)" "healthy t" "sent t = sent t1" using t1(2) by (rule send_ctl_healthy)
  have m: "io_bind (send_all [START]) (\<lambda>_. send_ctl) (ex_out ?x5) = (Inr (), t)" using t1(1) t(1) by (simp add: io_bind_def)
  obtain x6 where 6: "ex_send [START] (io_bind (send_all [START]) (\<lambda>_. send_ctl)) ?x5 = (Inr (), x6)" "undisturbed x6"
      "ex_out x6 = t" "ex_in x6 = ex_in ?x5" "bh_world (ex_host x6) = bh_world (ex_host ?x5)"
    using u5 m by (rule ex_send_ok [where b = "[START]" and m = "io_bind (send_all [START]) (\<lambda>_. send_ctl)"])
  have lh: "length hello_bytes \<le> MAX_FRAME" using verify_server_hello_length [OF assms(8)] by (simp add: MAX_FRAME_def)
  obtain j where j: "read_frame (ex_in x6) = (Inr hello_bytes, j)" "arriving j = ble_header ack @ ack"
    using read_frame_takes [OF lh, of "ex_in x6"] 6(4) assms(15) by auto
  obtain x7 where 7: "ex_recv read_frame x6 = (Inr hello_bytes, x7)" "undisturbed x7" "same_but_in x6 x7" "ex_in x7 = j"
    using 6(2) j(1) by (rule ex_recv_ok)
  have w7: "bh_world (ex_host x7) = bh_world (ex_host x)" "healthy (ex_out x7)" "sent (ex_out x7) = sent w @ [START]"
    using 7(3) 6(3,5) 4(3) 3(3) 2(3) 1(3) t t1(3) by (simp_all add: same_but_in_def)
  obtain x' where 8: "client_credentials c ck agent conf hello_bytes x7 = (Inr (), x')"
      "sent (ex_out x') = sent (ex_out x7) @ ble_header (request @ box) @ request @ box"
    by (rule client_credentials_ok [where x = x7 and secret = secret and k = k and ack = ack and box = box and request = request
        and c = c and ck = ck and agent = agent and hello_bytes = hello_bytes and conf = conf])
      (use 7 w7 j(2) assms in simp_all)
  have "client_exchange c ck agent conf d x = (Inr (), x')"
    using 1(1) 2(1) 3(1) 4(1) 6(1) 7(1) 8(1) by (simp add: client_exchange_def t_bind_def ex_update_def)
  with that 8(2) w7(3) show thesis by simp
qed

lemma network_conf_length:
  assumes "network_conf ssid psk = Inr conf"
  shows "conf \<noteq> []" and "length conf \<le> 256"
  using assms by (auto simp: network_conf_def fmt_def raw_psk_def length_hex split: if_splits)

lemma exchange_possible:
  assumes laws: "ble_laws c" and conf: "conf \<noteq> []" "length conf \<le> 256"
    and x: "undisturbed x" "calm (bh_world (ex_host x))"
    and d: "dv_connect d = Inr ()" "characteristic d = Inr ()" "dv_write d = Inr w" "healthy w" "sent w = []"
    and y: "undisturbed y" "healthy (ex_out y)" "sent (ex_out y) = []" "calm (bh_world (ex_host y))"
    and i: "install output (as_bytes conf) (next_tick (bh_world (ex_host y))) = (Inr (), w')"
  shows "\<exists>up down x' y'. client_exchange c ck (bc_public c key) conf (d\<lparr>dv_notify := Inr (reader_of down)\<rparr>) x = (Inr (), x')
    \<and> server_exchange c key (bc_public c ck) (bc_public c key) output (y\<lparr>ex_in := reader_of up\<rparr>) = (Inr (), y')
    \<and> sent (ex_out x') = up \<and> sent (ex_out y') = down"
proof -
  define ss cs where "ss = fresh_secret (bh_world (ex_host y))" and "cs = fresh_secret (bh_world (ex_host x))"
  define h where "h = hello_of c key (bc_public c ck) ss"
  obtain hello where hello: "verify_server_hello c h (bc_public c ck) (bc_public c key) = Inr hello" "sh_ephemeral hello = bc_xpublic c ss"
    using verify_server_hello_ok [OF laws ble_laws_lengths(3) [OF laws]] unfolding h_def by blast
  define rq where "rq = client_hello c ck (bc_public c key) (sh_ephemeral hello) (bc_xpublic c cs)"
  have lrq: "length rq = 128" using laws by (simp add: rq_def client_hello_def ble_laws_lengths Let_def)
  define k where "k = session_key c (bc_shared c cs (sh_ephemeral hello)) (h @ rq)"
  have "length (as_bytes conf) < 65536" using conf(2) by (simp )
  with laws obtain box where box: "bc_seal c k (nonce 0) (h @ rq) (as_bytes conf) = Some box"
      "bc_open c k (nonce 0) (h @ rq) box = Some (as_bytes conf)" "length box = length (as_bytes conf) + 16" by (rule ble_laws_seal)
  have vc: "verify_client_hello c (rq @ box) (bc_public c ck) (bc_public c key) (bc_xpublic c ss) = Inr (bc_xpublic c cs)"
    using verify_client_hello_ok [OF laws ble_laws_lengths(3) [OF laws]] box(3) by (simp add: rq_def hello(2))
  have sym: "bc_shared c ss (bc_xpublic c cs) = bc_shared c cs (bc_xpublic c ss)" using laws by (simp add: ble_laws_def)
  have acc: "accepted c (bc_public c ck) (bc_public c key) ss h (rq @ box) (as_bytes conf)"
    using vc box(2) sym conf(1) lrq by (simp add: accepted_def decrypt_def k_def hello(2))
  have lr: "length (rq @ box) \<le> MAX_FRAME" using lrq box(3) conf(2) by (simp add: MAX_FRAME_def)
  define up where "up = [START] @ ble_header (rq @ box) @ rq @ box"
  let ?y = "y\<lparr>ex_in := reader_of up\<rparr>"
  obtain y' k' ack where s: "server_exchange c key (bc_public c ck) (bc_public c key) output ?y = (Inr (), y')"
      "bc_seal c k' (nonce 1) (h @ take 128 (rq @ box)) (as_bytes ''ok'') = Some ack"
      "\<exists>ce. verify_client_hello c (rq @ box) (bc_public c ck) (bc_public c key) (bc_xpublic c ss) = Inr ce
         \<and> k' = session_key c (bc_shared c ss ce) (h @ take 128 (rq @ box))"
      "sent (ex_out y') = sent (ex_out ?y) @ ble_header h @ h @ ble_header ack @ ack"
    unfolding h_def
    by (rule server_exchange_ok [of c ?y "rq @ box" ss "bc_public c ck" "bc_public c key" key "as_bytes conf" "output" w'])
      (use laws y i lr acc in \<open>simp_all add: undisturbed_def ss_def up_def h_def\<close>)
  have kk: "k' = k" using s(3) vc lrq sym by (simp add: k_def hello(2))
  with s(2) laws lrq have ack: "bc_open c k (nonce 1) (h @ rq) ack = Some (as_bytes ''ok'')" "length ack \<le> MAX_FRAME"
    by (auto simp: ble_laws_def MAX_FRAME_def)
  let ?d = "d\<lparr>dv_notify := Inr (reader_of (sent (ex_out y')))\<rparr>"
  have cd: "characteristic ?d = Inr ()" using d(2) by (simp add: characteristic_def)
  obtain x' where "client_exchange c ck (bc_public c key) conf ?d x = (Inr (), x')"
      "sent (ex_out x') = sent w @ [START] @ ble_header (rq @ box) @ rq @ box"
    by (rule client_exchange_ok [where d = ?d and x = x and r = "reader_of (sent (ex_out y'))" and w = w and hello = hello
          and hello_bytes = h and secret = cs and request = rq and k = k and box = box and ack = ack and c = c and ck = ck
          and agent = "bc_public c key" and conf = conf])
      (use x d cd hello box(1) lr ack s(4) y(3) in \<open>simp_all add: cs_def rq_def k_def\<close>)
  with s(1) d(5) show ?thesis by (intro exI [of _ up] exI [of _ "sent (ex_out y')"] exI [of _ x'] exI [of _ y']) (simp add: up_def)
qed

lemma install_calm:
  assumes "calm w" and "p = r @ [Normal s]" and "parent_is_dir (nodes w) p" and "\<forall>k. nodes w p \<noteq> Some (Dir k)"
    and "nodes w (ble_tmp (pid w) p) = None"
  shows "\<exists>w'. install p b w = (Inr (), w')"
proof -
  let ?t = "ble_tmp (pid w) p"
  have t: "?t = r @ [Normal (s @ ''.ble.tmp.'' @ dec (unat (pid w)))]" by (simp add: ble_tmp_def assms(2) Let_def)
  have par: "parent_is_dir (nodes w) ?t" unfolding t using assms(3) parent_is_dir_sibling [of "nodes w" r s] by (simp add: assms(2))
  have keep: "parent_is_dir ((nodes w)(?t \<mapsto> n)) p" for n using assms(3,5) by (rule parent_is_dir_upd)
  show ?thesis
    using assms(1,3-5) ble_tmp_apart [of "pid w" p]
    by (auto simp: install_def Let_def io_simps io_bind_def io_catch_def io_context_def create_new_def fs_call_calm write_all_def handle_call_calm
        rename_def par keep split: option.splits node.splits)
qed

section \<open>What an exchange leaves of the machine\<close>

definition t_respects :: "('s \<Rightarrow> 's \<Rightarrow> bool) \<Rightarrow> ('s, 'a) task \<Rightarrow> bool" where
  "t_respects R m \<longleftrightarrow> (\<forall>s r t. m s = (r, t) \<longrightarrow> R s t)"

lemma t_respectsD: "t_respects R m \<Longrightarrow> m s = (r, t) \<Longrightarrow> R s t"
  by (simp add: t_respects_def)

lemma t_respects_bind:
  assumes "transp R" and "t_respects R m" and "\<And>x. t_respects R (f x)"
  shows "t_respects R (t_bind m f)"
  unfolding t_respects_def
proof (intro allI impI)
  fix s r t assume "t_bind m f s = (r, t)"
  then show "R s t" by (cases rule: t_bind_cases) (meson assms t_respectsD transpD)+
qed

lemma t_respects_lift: "reflp R \<Longrightarrow> t_respects R (t_lift x)"
  by (auto simp: t_respects_def t_lift_def reflp_def)

lemma t_respects_ignore: "t_respects R m \<Longrightarrow> t_respects R (t_ignore m)"
  by (fastforce simp: t_respects_def t_ignore_def split: prod.splits sum.splits stop.splits)

text \<open>Only the disk and the count of await points change.\<close>

definition same_radio :: "ble_host \<Rightarrow> ble_host \<Rightarrow> bool" where
  "same_radio h h' \<longleftrightarrow> bh_powered h' = bh_powered h \<and> bh_devices h' = bh_devices h \<and> bh_active h' = bh_active h
     \<and> bh_alarm h' = bh_alarm h \<and> bh_fault h' = bh_fault h"

definition ex_radio :: "exchange \<Rightarrow> exchange \<Rightarrow> bool" where
  "ex_radio x x' \<longleftrightarrow> same_radio (ex_host x) (ex_host x')"

lemma ex_radio_order: "reflp ex_radio" "transp ex_radio"
  by (auto simp: reflp_def transp_def ex_radio_def same_radio_def)

lemma ex_radio_await: "t_respects ex_radio ex_await"
  by (auto simp: t_respects_def ex_radio_def same_radio_def dest!: ex_await_frame)

lemma ex_radio_steps:
  "t_respects ex_radio (ex_recv m)" "t_respects ex_radio (ex_call r)" "t_respects ex_radio (ex_send b n)"
  "t_respects ex_radio (ex_send_frame b)" "t_respects ex_radio (ex_world v)" "t_respects ex_radio (t_lift q)"
proof -
  show "t_respects ex_radio (ex_recv m)" unfolding ex_recv_def
    by (intro t_respects_bind ex_radio_order ex_radio_await)
      (auto simp: t_respects_def ex_radio_def same_radio_def t_lift_def split: prod.splits)
  show l: "t_respects ex_radio (t_lift q)" for q :: "'x result" by (intro t_respects_lift ex_radio_order)
  show "t_respects ex_radio (ex_call r)" unfolding ex_call_def by (intro t_respects_bind ex_radio_order ex_radio_await l)
  have s: "t_respects ex_radio (ex_send b n)" for b n
    by (auto simp: t_respects_def ex_send_def ex_radio_def same_radio_def t_lift_def split: prod.splits sum.splits option.splits dest!: ex_await_frame)
  show "t_respects ex_radio (ex_send b n)" by (rule s)
  show "t_respects ex_radio (ex_send_frame b)" unfolding ex_send_frame_def by (intro t_respects_bind ex_radio_order l s)
  show "t_respects ex_radio (ex_world v)"
    by (auto simp: t_respects_def ex_world_def ex_radio_def same_radio_def t_lift_def split: prod.splits)
qed

lemma ex_radio_update: "(\<And>x. ex_host (f x) = ex_host x) \<Longrightarrow> t_respects ex_radio (ex_update f)"
  by (auto simp: t_respects_def ex_update_def ex_radio_def same_radio_def)

lemmas ex_radio_rules = t_respects_bind t_respects_ignore ex_radio_order ex_radio_await ex_radio_steps ex_radio_update

lemma server_exchange_radio: "t_respects ex_radio (server_exchange c key controller agent output)"
  unfolding server_exchange_def server_credentials_def Let_def by (intro ex_radio_rules) simp_all

lemma client_exchange_radio: "t_respects ex_radio (client_exchange c ck agent conf d)"
  unfolding client_exchange_def client_credentials_def Let_def by (intro ex_radio_rules) simp_all

end
