(* ===== verification/Ble_Programs.thy ===== *)
theory Ble_Programs
  imports Ble_Exchange
begin

text \<open>
  The two programs of a provisioning around their exchanges: the target's loop over pairings and
  attempts, the controller's scan, and what both leave of the disk and of the adapter.
\<close>

section \<open>The target's program\<close>

definition serves :: "(bytes \<Rightarrow> bool) \<Rightarrow> path \<Rightarrow> ble_host \<Rightarrow> ble_host \<Rightarrow> bool" where
  "serves P p h h' \<longleftrightarrow> provisions P p (bh_world h) (bh_world h') \<and> bh_powered h' = bh_powered h \<and> bh_fault h' = bh_fault h
     \<and> set (bh_devices h') \<subseteq> set (bh_devices h)"

lemma serves_refl [simp]: "serves P p h h"
  by (simp add: serves_def)

lemma serves_trans [trans]: "serves P p h h' \<Longrightarrow> serves P p h' h'' \<Longrightarrow> serves P p h h''"
  unfolding serves_def using provisions_trans by auto

lemma serves_upd [simp]: "serves P p h (h'\<lparr>bh_active := a\<rparr>) = serves P p h h'" "serves P p (h\<lparr>bh_active := a\<rparr>) h' = serves P p h h'"
  by (simp_all add: serves_def)

lemma await_serves: "await sc h = (r, h') \<Longrightarrow> serves P p h h'"
  by (auto simp: serves_def dest!: await_frame)

lemma bt_call_cases:
  assumes "bt_call sc f h = (r, h')"
  obtains n where "h' = h\<lparr>bh_awaits := n\<rparr>" "isl r" "bh_fault h (bh_awaits h) = None \<Longrightarrow> sc \<noteq> Plain"
    | n where "h' = f (h\<lparr>bh_awaits := n\<rparr>)" "r = Inr ()"
proof -
  have "bh_fault h (bh_awaits h) = None \<Longrightarrow> sc = Plain \<Longrightarrow> \<not> isl (fst (bt_call sc f h))"
    by (simp add: bt_call_def await_def)
  with assms that show thesis by (fastforce simp: bt_call_def split: prod.splits sum.splits option.splits dest!: await_frame)
qed

lemma remove_device_any:
  assumes "remove_device sc peer h = (r, h')"
  shows "bh_world h' = bh_world h" "bh_powered h' = bh_powered h" "bh_fault h' = bh_fault h" "bh_active h' = bh_active h"
    and "set (bh_devices h') = set (bh_devices h) \<or> set (bh_devices h') = set (bh_devices h) - {peer}"
proof -
  obtain q h1 where b: "bt_call sc (\<lambda>h. h\<lparr>bh_devices := removeAll peer (bh_devices h)\<rparr>) h = (q, h1)" by (metis prod.exhaust)
  with assms have "h' = h1" by (auto simp: remove_device_def t_ignore_def split: sum.splits stop.splits)
  from b have "bh_world h1 = bh_world h \<and> bh_powered h1 = bh_powered h \<and> bh_fault h1 = bh_fault h \<and> bh_active h1 = bh_active h
    \<and> (set (bh_devices h1) = set (bh_devices h) \<or> set (bh_devices h1) = set (bh_devices h) - {peer})"
    by (rule bt_call_cases) simp_all
  with \<open>h' = h1\<close> show "bh_world h' = bh_world h" "bh_powered h' = bh_powered h" "bh_fault h' = bh_fault h" "bh_active h' = bh_active h"
    "set (bh_devices h') = set (bh_devices h) \<or> set (bh_devices h') = set (bh_devices h) - {peer}" by simp_all
qed

lemma remove_device_serves:
  assumes "remove_device sc peer h = (r, h')"
  shows "serves P p h h'"
  using remove_device_any [OF assms] by (auto simp: serves_def)

lemma drop_peer_any:
  assumes "drop_peer peer h = (r, h')"
  shows "serves P p h h'" and "bh_world h' = bh_world h"
  using assms unfolding drop_peer_def
  by (rule t_bind_cases; auto dest: remove_device_serves remove_device_any(1))+

lemma pair_serves: "pair peer r w evs h = (x, evs', h') \<Longrightarrow> serves P p h h'"
  by (induction peer r w evs h rule: pair.induct)
    (auto split: prod.splits sum.splits gatt_event.splits if_splits dest!: await_serves [where P = P and p = p] intro: serves_trans)

lemma serve_attempt_serves:
  assumes "serve_attempt c key controller agent output peer r w h = (z, h')"
  shows "serves (accepted_conf c key controller agent) output h h'"
    and "z = Inr True \<Longrightarrow> \<exists>conf. accepted_conf c key controller agent conf \<and> contents (nodes (bh_world h')) output = Some conf"
proof -
  let ?P = "accepted_conf c key controller agent"
  let ?y = "\<lparr>ex_host = h, ex_in = r, ex_out = w, ex_installed = False\<rparr>"
  obtain a y where run: "server_exchange c key controller agent output ?y = (a, y)" by (metis prod.exhaust)
  have radio: "same_radio h (ex_host y)" using t_respectsD [OF server_exchange_radio run] by (simp add: ex_radio_def)
  have y: "provisions ?P output (bh_world h) (bh_world (ex_host y))
    \<and> (\<not> isl a \<or> ex_installed y \<longrightarrow> (\<exists>conf. ?P conf \<and> contents (nodes (bh_world (ex_host y))) output = Some conf))"
    using run by (cases rule: server_exchange_outcome) (auto simp: accepted_conf_def)
  then have s: "serves ?P output h (ex_host y)" using radio by (simp add: serves_def same_radio_def)
  have drop: "serves ?P output h h' \<and> bh_world h' = bh_world (ex_host y)" if "drop_peer peer (ex_host y) = (q, h')" for q
    using drop_peer_any(2) [OF that] serves_trans [OF s drop_peer_any(1) [OF that]] by simp
  have "(isl z \<and> h' = ex_host y) \<or> (\<exists>q. drop_peer peer (ex_host y) = (q, h') \<and> (z = Inr True \<longrightarrow> \<not> isl a \<or> ex_installed y))"
    using assms run
    by (cases "drop_peer peer (ex_host y)") (auto simp: serve_attempt_def t_bind_def split: sum.splits stop.splits)
  then show "serves ?P output h h'" "z = Inr True \<Longrightarrow> \<exists>conf. ?P conf \<and> contents (nodes (bh_world h')) output = Some conf"
    using s y drop by auto
qed

lemma serve_loop_turn:
  assumes "serve_loop c key controller agent output evs h = (z, h')"
  obtains (over) q where "await Select h = (q, h')" "isl z"
    | (turn) h1 ev es peer rd wr y es' h2 where "await Select h = (Inr (), h1)" "evs = ev # es"
      "pair peer rd wr es (h1\<lparr>bh_active := Some (peer, False)\<rparr>) = (y, es', h2)"
      "(case y of
          Inl (Interrupted s) \<Rightarrow> (Inl (Interrupted s), h2)
        | Inl _ \<Rightarrow> (case drop_peer peer h2 of (Inl stop, h) \<Rightarrow> (Inl stop, h) | (Inr _, h) \<Rightarrow> serve_loop c key controller agent output es' h)
        | Inr (r, w) \<Rightarrow>
            (case serve_attempt c key controller agent output peer r w h2 of
               (Inl stop, h) \<Rightarrow> (Inl stop, h)
             | (Inr over, h) \<Rightarrow> if over then (Inr (), h) else serve_loop c key controller agent output es' h)) = (z, h')"
proof -
  note run = assms [unfolded serve_loop.simps [of c key controller agent "output" evs h]]
  obtain q h1 where aw: "await Select h = (q, h1)" by (cases "await Select h")
  show thesis
  proof (cases q)
    case (Inl stop)
    with run aw over show thesis by auto
  next
    case q: (Inr u)
    note aw = aw [unfolded q unit_eq [of u]]
    show thesis
    proof (cases evs)
      case Nil
      with run aw over show thesis by auto
    next
      case (Cons ev es)
      show thesis
      proof (cases ev)
        case (NotifyRequest peer w)
        obtain y es' h2 where "pair peer None (Some w) es (h1\<lparr>bh_active := Some (peer, False)\<rparr>) = (y, es', h2)" by (metis prod_cases3)
        with run aw Cons NotifyRequest show thesis by (intro turn) (auto split: sum.splits stop.splits)
      next
        case (WriteRequest peer r)
        show thesis
        proof (cases r)
          case (Inl e)
          with run aw Cons WriteRequest over show thesis by auto
        next
          case (Inr r')
          obtain y es' h2 where "pair peer (Some r') None es (h1\<lparr>bh_active := Some (peer, False)\<rparr>) = (y, es', h2)" by (metis prod_cases3)
          with run aw Cons WriteRequest Inr show thesis by (intro turn) (auto split: sum.splits stop.splits)
        qed
      qed
    qed
  qed
qed

lemma serve_loop_serves:
  assumes "serve_loop c key controller agent output evs h = (z, h')"
  shows "serves (accepted_conf c key controller agent) output h h'
    \<and> (z = Inr () \<longrightarrow> (\<exists>conf. accepted_conf c key controller agent conf \<and> contents (nodes (bh_world h')) output = Some conf))"
  using assms
proof (induction evs arbitrary: h z h' rule: length_induct)
  case (1 evs)
  let ?P = "accepted_conf c key controller agent"
  from 1(2) show ?case
  proof (cases rule: serve_loop_turn)
    case (over q)
    with await_serves show ?thesis by auto
  next
    case (turn h1 ev es peer rd wr y es' h2)
    have s2: "serves ?P output h h2"
      using serves_trans [OF await_serves [OF turn(1)] pair_serves [OF turn(3), unfolded serves_upd]] .
    have IH: ?thesis if "serve_loop c key controller agent output es' h3 = (z, h')" and "serves ?P output h h3" for h3
    proof -
      have "length es' < length evs" using pair_shorter [OF turn(3)] turn(2) by simp
      with 1(1) that(1) have "serves ?P output h3 h'
        \<and> (z = Inr () \<longrightarrow> (\<exists>conf. ?P conf \<and> contents (nodes (bh_world h')) output = Some conf))" by blast
      with serves_trans [OF that(2)] show ?thesis by blast
    qed
    show ?thesis
    proof (cases y)
      case (Inl e)
      obtain q h3 where d: "drop_peer peer h2 = (q, h3)" by (cases "drop_peer peer h2")
      have s3: "serves ?P output h h3" using serves_trans [OF s2 drop_peer_any(1) [OF d]] .
      show ?thesis using turn(4) d Inl s2 s3 IH [of h3] by (cases e; cases q) auto
    next
      case (Inr rw)
      obtain r w where y: "y = Inr (r, w)" using Inr by (cases rw) auto
      obtain q2 h3 where at: "serve_attempt c key controller agent output peer r w h2 = (q2, h3)"
        by (cases "serve_attempt c key controller agent output peer r w h2")
      have s3: "serves ?P output h h3" using serves_trans [OF s2 serve_attempt_serves(1) [OF at]] .
      show ?thesis using turn(4) y at s3 serve_attempt_serves(2) [OF at] IH [of h3] by (cases q2) (auto split: if_splits)
    qed
  qed
qed

section \<open>The controller's program\<close>

definition tracked :: "string set \<Rightarrow> ble_host \<Rightarrow> bool" where
  "tracked K h \<longleftrightarrow> (\<forall>a k. bh_active h = Some (a, k) \<longrightarrow> a \<in> K \<longrightarrow> k)"

text \<open>The power of the adapter stays, devices of \<open>K\<close> stay known, and an attempt on one of them is
  marked as such.\<close>

definition kept :: "string set \<Rightarrow> ble_host \<Rightarrow> ble_host \<Rightarrow> bool" where
  "kept K h h' \<longleftrightarrow> bh_powered h' = bh_powered h \<and> bh_fault h' = bh_fault h
     \<and> (K \<subseteq> set (bh_devices h) \<longrightarrow> K \<subseteq> set (bh_devices h')) \<and> (tracked K h \<longrightarrow> tracked K h')"

lemma kept_refl [simp]: "kept K h h"
  by (simp add: kept_def)

lemma kept_trans: "kept K h h' \<Longrightarrow> kept K h' h'' \<Longrightarrow> kept K h h''"
  by (simp add: kept_def)

lemma same_radio_kept: "same_radio h h' \<Longrightarrow> kept K h h'"
  by (simp add: same_radio_def kept_def tracked_def)

lemma await_kept: "await sc h = (r, h') \<Longrightarrow> kept K h h'"
  by (auto simp: kept_def tracked_def dest!: await_frame)

lemma forget_any:
  assumes "forget sc a k h = (r, h')"
  shows "bh_powered h' = bh_powered h" "bh_fault h' = bh_fault h" "bh_active h' = bh_active h"
    and "set (bh_devices h') = set (bh_devices h) \<or> \<not> k \<and> set (bh_devices h') = set (bh_devices h) - {a}"
proof -
  obtain q h1 where b: "bt_call sc id h = (q, h1)" by (cases "bt_call sc id h")
  then have 1: "bh_powered h1 = bh_powered h" "bh_fault h1 = bh_fault h" "bh_active h1 = bh_active h" "bh_devices h1 = bh_devices h"
    by (rule bt_call_cases; simp)+
  obtain s h2 where r: "remove_device sc a h1 = (s, h2)" by (cases "remove_device sc a h1")
  have q: "fst (t_ignore (bt_call sc id) h) = Inr () \<or> h' = h1" and "snd (t_ignore (bt_call sc id) h) = h1"
    using assms b by (cases q; simp add: forget_def t_bind_def t_ignore_def split: stop.splits)+
  then have "h' = h1 \<or> \<not> k \<and> h' = h2"
    using assms r by (cases k; cases "t_ignore (bt_call sc id) h"; auto simp: forget_def t_bind_def)
  then consider "h' = h1" | "\<not> k" "h' = h2" by blast
  then have "bh_powered h' = bh_powered h \<and> bh_fault h' = bh_fault h \<and> bh_active h' = bh_active h
    \<and> (set (bh_devices h') = set (bh_devices h) \<or> \<not> k \<and> set (bh_devices h') = set (bh_devices h) - {a})"
    by cases (use 1 remove_device_any [OF r] in simp_all)
  then show "bh_powered h' = bh_powered h" "bh_fault h' = bh_fault h" "bh_active h' = bh_active h"
    "set (bh_devices h') = set (bh_devices h) \<or> \<not> k \<and> set (bh_devices h') = set (bh_devices h) - {a}" by blast+
qed

lemma forget_kept:
  assumes "forget sc a k h = (r, h')" and "a \<in> K \<Longrightarrow> k"
  shows "kept K h h'"
  using forget_any [OF assms(1)] assms(2) by (auto simp: kept_def tracked_def)

lemma provision_attempt_kept:
  assumes "provision_attempt c ck agent conf a (a \<in> K) d h = (z, h')"
  shows "kept K h h'" and "z = Inr True \<Longrightarrow> \<exists>x x'. client_exchange c ck agent conf d x = (Inr (), x')"
proof -
  let ?x = "\<lparr>ex_host = h, ex_in = reader_of [], ex_out = fresh_sink, ex_installed = False\<rparr>"
  obtain r x where run: "client_exchange c ck agent conf d ?x = (r, x)" by (cases "client_exchange c ck agent conf d ?x")
  have k1: "kept K h (ex_host x)"
    using t_respectsD [OF client_exchange_radio run] same_radio_kept by (simp add: ex_radio_def)
  obtain q h2 where f: "forget Select a (a \<in> K) (ex_host x) = (q, h2)" by (cases "forget Select a (a \<in> K) (ex_host x)")
  have k2: "kept K h h2" using kept_trans [OF k1 forget_kept [OF f]] by blast
  then have k3: "kept K h (h2\<lparr>bh_active := None\<rparr>)" by (simp add: kept_def tracked_def)
  have "h' \<in> {ex_host x, h2, h2\<lparr>bh_active := None\<rparr>} \<and> (z = Inr True \<longrightarrow> r = Inr ())"
    using assms run f
    by (cases r; cases q) (auto simp: provision_attempt_def t_bind_def split: stop.splits)
  then have "kept K h h'" "z = Inr True \<Longrightarrow> r = Inr ()" using k1 k2 k3 by blast+
  with run show "kept K h h'" "z = Inr True \<Longrightarrow> \<exists>x x'. client_exchange c ck agent conf d x = (Inr (), x')" by blast+
qed

lemma try_device_kept:
  assumes "try_device c show_id ck agent conf known looked a d h = (z, h')"
  shows "kept (set known) h h'"
    and "z = Inr True \<Longrightarrow> wanted show_id agent d = Some False \<and> (\<exists>x x'. client_exchange c ck agent conf d x = (Inr (), x'))"
proof -
  have "kept (set known) h h'
    \<and> (z = Inr True \<longrightarrow> wanted show_id agent d = Some False \<and> (\<exists>x x'. client_exchange c ck agent conf d x = (Inr (), x')))"
    using assms unfolding try_device_def
  proof (cases rule: t_bind_cases)
    case (stops e)
    then show ?thesis by (auto simp: t_lift_def)
  next
    case (continues u h0)
    then have h0: "h0 = h" by simp
    from continues(2) show ?thesis unfolding h0
    proof (cases rule: t_bind_cases)
      case (stops e)
      with await_kept show ?thesis by auto
    next
      case (continues v h1)
      note k1 = await_kept [OF continues(1), of "set known"]
      let ?h2 = "h1\<lparr>bh_active := Some (a, a \<in> set known)\<rparr>"
      have k2: "kept (set known) h ?h2" using k1 by (simp add: kept_def tracked_def)
      show ?thesis
      proof (cases "wanted show_id agent d = Some False \<and> looked < SCAN_WAIT")
        case True
        with continues(2) have p: "provision_attempt c ck agent conf a (a \<in> set known) d ?h2 = (z, h')" by (simp add: not_le Let_def)
        show ?thesis using True kept_trans [OF k2 provision_attempt_kept(1) [OF p]] provision_attempt_kept(2) [OF p] by blast
      next
        case False
        with continues(2) k1 k2 show ?thesis by (auto simp: Let_def split: option.splits bool.splits if_splits)
      qed
    qed
  qed
  then show "kept (set known) h h'"
    "z = Inr True \<Longrightarrow> wanted show_id agent d = Some False \<and> (\<exists>x x'. client_exchange c ck agent conf d x = (Inr (), x'))" by blast+
qed

definition provisioned_by :: "ble_crypto \<Rightarrow> (bytes \<Rightarrow> string) \<Rightarrow> bytes \<Rightarrow> bytes \<Rightarrow> string \<Rightarrow> scan_turn list \<Rightarrow> bool" where
  "provisioned_by c show_id ck agent conf ts \<longleftrightarrow>
     (\<exists>t \<in> set ts. \<exists>a d x x'. sc_event t = Some (DeviceAdded a d) \<and> wanted show_id agent d = Some False
       \<and> client_exchange c ck agent conf d x = (Inr (), x'))"

lemma scan_loop_outcome:
  "scan_loop c show_id ck agent conf known ts h = (z, h') \<Longrightarrow>
     kept (set known) h h' \<and> (z = Inr () \<longrightarrow> provisioned_by c show_id ck agent conf ts)"
proof (induction ts arbitrary: h)
  case Nil
  then show ?case by (auto elim!: t_bind_cases dest: await_kept)
next
  case (Cons t ts)
  obtain q h1 where aw: "await Select h = (q, h1)" by (cases "await Select h")
  note k1 = await_kept [OF aw, of "set known"]
  have loop: ?case if "kept (set known) h h2" and "scan_loop c show_id ck agent conf known ts h2 = (z, h')" for h2
    using Cons.IH [OF that(2)] kept_trans [OF that(1)] by (auto simp: provisioned_by_def)
  show ?case
  proof (cases "\<exists>a d. SCAN_WAIT > sc_head t \<and> \<not> isl q \<and> sc_event t = Some (DeviceAdded a d)")
    case True
    then obtain a d where g: "\<not> SCAN_WAIT \<le> sc_head t" "q = Inr ()" "sc_event t = Some (DeviceAdded a d)" by (cases q) auto
    let ?h2 = "h1\<lparr>bh_devices := List.insert a (bh_devices h1)\<rparr>"
    have k2: "kept (set known) h ?h2" using k1 by (auto simp: kept_def tracked_def)
    obtain r h3 where tr: "try_device c show_id ck agent conf known (sc_looked t) a d ?h2 = (r, h3)"
      by (cases "try_device c show_id ck agent conf known (sc_looked t) a d ?h2")
    have k3: "kept (set known) h h3" using kept_trans [OF k2 try_device_kept(1) [OF tr]] .
    from Cons.prems aw g tr have run: "(case r of Inl stop \<Rightarrow> (Inl stop, h3)
        | Inr over \<Rightarrow> if over then (Inr (), h3) else scan_loop c show_id ck agent conf known ts h3) = (z, h')"
      by (simp split: sum.splits)
    show ?thesis
    proof (cases "r = Inr False")
      case True
      with run have "scan_loop c show_id ck agent conf known ts h3 = (z, h')" by simp
      with k3 show ?thesis by (rule loop)
    next
      case False
      with run k3 try_device_kept(2) [OF tr] g(3) show ?thesis by (cases r) (auto simp: provisioned_by_def)
    qed
  next
    case False
    show ?thesis
    proof (cases "sc_event t = Some OtherEvent \<and> sc_head t < SCAN_WAIT \<and> \<not> isl q")
      case True
      with Cons.prems aw have "scan_loop c show_id ck agent conf known ts h1 = (z, h')" by (cases q) auto
      with k1 show ?thesis by (rule loop)
    next
      case other: False
      have "isl z \<and> kept (set known) h h'"
      proof (cases "SCAN_WAIT \<le> sc_head t \<or> isl q")
        case True
        with Cons.prems aw k1 show ?thesis by (cases q) (auto split: if_splits)
      next
        case go: False
        with other False have "sc_event t = None" by (cases "sc_event t"; cases "the (sc_event t)") auto
        with go Cons.prems aw k1 show ?thesis by (cases q) auto
      qed
      then show ?thesis by auto
    qed
  qed
qed

lemma adapter_any:
  assumes "adapter env h = (r, h')"
  shows "bh_world h' = bh_world h" "bh_devices h' = bh_devices h" "bh_active h' = bh_active h" "bh_fault h' = bh_fault h"
    "bh_alarm h' = bh_alarm h" "bh_adv h' = bh_adv h" "bh_app h' = bh_app h"
    and "r = Inr b \<Longrightarrow> b = bh_powered h \<and> bh_powered h'"
    and "isl r \<Longrightarrow> bh_powered h' = bh_powered h"
proof -
  have "(h' = h \<and> (isl r \<or> r = Inr True \<and> bh_powered h)) \<or> (\<not> bh_powered h \<and> t_bind (set_powered True) (\<lambda>_. t_ok False) h = (r, h'))"
    using assms unfolding adapter_def
    by (auto simp: t_lift_def split: sum.splits if_splits elim!: t_bind_cases)
  then have "bh_world h' = bh_world h \<and> bh_devices h' = bh_devices h \<and> bh_active h' = bh_active h \<and> bh_fault h' = bh_fault h
    \<and> bh_alarm h' = bh_alarm h \<and> bh_adv h' = bh_adv h \<and> bh_app h' = bh_app h
    \<and> (r = Inr b \<longrightarrow> b = bh_powered h \<and> bh_powered h') \<and> (isl r \<longrightarrow> bh_powered h' = bh_powered h)"
    by (auto simp: set_powered_def elim!: t_bind_cases bt_call_cases)
  then show "bh_world h' = bh_world h" "bh_devices h' = bh_devices h" "bh_active h' = bh_active h" "bh_fault h' = bh_fault h"
    "bh_alarm h' = bh_alarm h" "bh_adv h' = bh_adv h" "bh_app h' = bh_app h"
    "r = Inr b \<Longrightarrow> b = bh_powered h \<and> bh_powered h'" "isl r \<Longrightarrow> bh_powered h' = bh_powered h" by blast+
qed

lemma power_back_any:
  shows "bh_world (power_back b h) = bh_world h" "bh_devices (power_back b h) = bh_devices h" "bh_active (power_back b h) = bh_active h"
    "bh_adv (power_back b h) = bh_adv h" "bh_app (power_back b h) = bh_app h"
    and "\<forall>n. bh_fault h n = None \<Longrightarrow> bh_powered (power_back b h) = (b \<and> bh_powered h)"
  by (auto simp: power_back_def set_powered_def t_ignore_def bt_call_def await_def split: option.splits)

section \<open>What the target accepts\<close>

lemma select_result_Inr [simp]: "select_result z = Inr () \<longleftrightarrow> z = Inr ()"
  by (cases z rule: select_result.cases) auto

lemma serve_on_adapter_serves:
  assumes "serve_on_adapter c show_id controller key agent output evs h = (z, h')"
  shows "serves (accepted_conf c key controller agent) output h h'
    \<and> (z = Inr () \<longrightarrow> (\<exists>conf. accepted_conf c key controller agent conf \<and> contents (nodes (bh_world h')) output = Some conf))"
proof -
  let ?P = "accepted_conf c key controller agent"
  have b: "serves ?P output h h'" if "bt_call Select f h = (r, h')" "\<And>h. serves ?P output h (f h)" for f r h h'
    using that(1) by (rule bt_call_cases) (use that(2) [of "h\<lparr>bh_awaits := _\<rparr>"] in \<open>auto simp: serves_def\<close>)
  from assms show ?thesis unfolding serve_on_adapter_def
  proof (cases rule: t_bind_cases)
    case (stops e)
    then show ?thesis using b [OF stops(1)] by (simp add: serves_def)
  next
    case (continues u h1)
    have s1: "serves ?P output h h1" using b [OF continues(1)] by (simp add: serves_def)
    from continues(2) show ?thesis
    proof (cases rule: t_bind_cases)
      case (stops e)
      then show ?thesis using serves_trans [OF s1 b [OF stops(1)]] by (simp add: serves_def)
    next
      case (continues u h2)
      have s2: "serves ?P output h h2" using serves_trans [OF s1 b [OF continues(1)]] by (simp add: serves_def)
      show ?thesis using serve_loop_serves [OF continues(2)] serves_trans [OF s2] by blast
    qed
  qed
qed

text \<open>What the environment leaves of the machine when the service is over.\<close>

lemma ble_serve_outcome:
  assumes "ble_serve c show_id env controller key_file output evs h = (r, h')"
    and "load_or_create_key id key_file Replace (bh_world h) = (Inr key, w)"
  shows "provisions (accepted_conf c key controller (bc_public c key)) output w (bh_world h')"
    and "r = Inr () \<Longrightarrow> \<exists>conf. accepted_conf c key controller (bc_public c key) conf \<and> contents (nodes (bh_world h')) output = Some conf"
    and "\<forall>n. bh_fault h n = None \<Longrightarrow> bh_powered h' = bh_powered h"
    and "set (bh_devices h') \<subseteq> set (bh_devices h)"
    and "bh_active h' = None" and "bh_adv h = None \<Longrightarrow> bh_adv h' = None" and "bh_app h = None \<Longrightarrow> bh_app h' = None"
proof -
  let ?P = "accepted_conf c key controller (bc_public c key)"
  let ?h0 = "h\<lparr>bh_world := w, bh_active := None\<rparr>"
  obtain q h1 where ad: "adapter env ?h0 = (q, h1)" by (cases "adapter env ?h0")
  note a = adapter_any [OF ad]
  have "provisions ?P output w (bh_world h') \<and> (r = Inr () \<longrightarrow> (\<exists>conf. ?P conf \<and> contents (nodes (bh_world h')) output = Some conf))
    \<and> ((\<forall>n. bh_fault h n = None) \<longrightarrow> bh_powered h' = bh_powered h) \<and> set (bh_devices h') \<subseteq> set (bh_devices h)
    \<and> bh_active h' = None \<and> (bh_adv h = None \<longrightarrow> bh_adv h' = None) \<and> (bh_app h = None \<longrightarrow> bh_app h' = None)"
  proof (cases q)
    case (Inl stop)
    with assms ad a show ?thesis by (cases stop) (auto simp: ble_serve_def split: sum.splits)
  next
    case (Inr was)
    obtain z h2 where sv: "serve_on_adapter c show_id controller key (bc_public c key) output evs h1 = (z, h2)"
      by (cases "serve_on_adapter c show_id controller key (bc_public c key) output evs h1")
    note s = serve_on_adapter_serves [OF sv]
    define h3 where "h3 = h2\<lparr>bh_adv := None, bh_app := None\<rparr>"
    define h4 where "h4 = (case bh_active h3 of None \<Rightarrow> h3 | Some (peer, _) \<Rightarrow> snd (remove_device Plain peer (h3\<lparr>bh_active := None\<rparr>)))"
    have run: "r = select_result z" "h' = power_back was h4"
      using assms ad Inr sv by (auto simp: ble_serve_def h3_def h4_def Let_def split: option.splits)
    have 4: "bh_world h4 = bh_world h2 \<and> bh_powered h4 = bh_powered h2 \<and> bh_fault h4 = bh_fault h2 \<and> bh_active h4 = None
      \<and> bh_adv h4 = None \<and> bh_app h4 = None \<and> set (bh_devices h4) \<subseteq> set (bh_devices h2)"
    proof (cases "bh_active h3")
      case None
      then show ?thesis by (simp add: h4_def h3_def)
    next
      case (Some pk)
      obtain peer k where pk: "pk = (peer, k)" by (cases pk)
      obtain r5 h5 where rd: "remove_device Plain peer (h3\<lparr>bh_active := None\<rparr>) = (r5, h5)"
        by (cases "remove_device Plain peer (h3\<lparr>bh_active := None\<rparr>)")
      have "bh_adv h5 = None \<and> bh_app h5 = None"
        using rd by (auto simp: remove_device_def t_ignore_def bt_call_def await_def h3_def split: option.splits)
      with Some pk rd remove_device_any [OF rd] show ?thesis by (auto simp: h4_def h3_def)
    qed
    note pb = power_back_any [where b = was and h = h4]
    show ?thesis using s 4 pb a(1-4) a(8) [of was] Inr run by (auto simp: serves_def)
  qed
  then show "provisions ?P output w (bh_world h')"
    "r = Inr () \<Longrightarrow> \<exists>conf. ?P conf \<and> contents (nodes (bh_world h')) output = Some conf"
    "\<forall>n. bh_fault h n = None \<Longrightarrow> bh_powered h' = bh_powered h" "set (bh_devices h') \<subseteq> set (bh_devices h)"
    "bh_active h' = None" "bh_adv h = None \<Longrightarrow> bh_adv h' = None" "bh_app h = None \<Longrightarrow> bh_app h' = None" by blast+
qed

definition from_controller :: "ble_crypto \<Rightarrow> bytes \<Rightarrow> bytes \<Rightarrow> (bytes \<times> bytes \<times> bytes) set \<Rightarrow> bytes \<Rightarrow> bool" where
  "from_controller c key controller requests conf \<longleftrightarrow>
     (\<exists>secret ephemeral request.
        (bc_public c key, bc_xpublic c secret, ephemeral) \<in> requests
      \<and> (let transcript = hello_of c key controller secret @ take 128 request in
         decrypt c (session_key c (bc_shared c secret ephemeral) transcript) 0 transcript (drop 128 request) = Inr conf))"

lemma accepted_from_controller:
  assumes "\<And>m s. bc_verify c controller m s = Inr () \<Longrightarrow> signed_by controller offers requests m" and "ble_laws c" and "length controller = 32"
    and "accepted_conf c key controller (bc_public c key) conf"
  shows "from_controller c key controller requests conf"
proof -
  from assms(4) obtain secret request ce where v: "verify_client_hello c request controller (bc_public c key) (bc_xpublic c secret) = Inr ce"
    "decrypt c (session_key c (bc_shared c secret ce) (hello_of c key controller secret @ take 128 request)) 0
      (hello_of c key controller secret @ take 128 request) (drop 128 request) = Inr conf"
    by (auto simp: accepted_conf_def accepted_def)
  have "(bc_public c key, bc_xpublic c secret, ce) \<in> requests"
    using assms(1,3) ble_laws_lengths(1,3) [OF assms(2)] v(1) by (rule verify_client_hello_signed)
  with v(2) show ?thesis unfolding from_controller_def Let_def by blast
qed


section \<open>What the controller's program leaves\<close>

lemma bt_call_id_radio: "bt_call sc id h = (r, h') \<Longrightarrow> same_radio h h'"
  by (rule bt_call_cases) (auto simp: same_radio_def)

lemma provisioning_kept:
  assumes "provisioning c show_id ck agent conf turns h = (z, h')"
  shows "kept (set (bh_devices h)) h h' \<and> (z = Inr () \<longrightarrow> provisioned_by c show_id ck agent conf turns)"
  using assms unfolding provisioning_def
proof (cases rule: t_bind_cases)
  case (stops e)
  then show ?thesis using same_radio_kept [OF bt_call_id_radio] by auto
next
  case (continues u h1)
  note r1 = bt_call_id_radio [OF continues(1)]
  note k1 = same_radio_kept [OF r1, of "set (bh_devices h)"]
  have d1: "bh_devices h1 = bh_devices h" using r1 by (simp add: same_radio_def)
  from continues(2) show ?thesis
  proof (cases rule: t_bind_cases)
    case (stops e)
    then show ?thesis using kept_trans [OF k1 same_radio_kept [OF bt_call_id_radio [OF stops(1)]]] by auto
  next
    case (continues u h2)
    have k2: "kept (set (bh_devices h)) h h2" using kept_trans [OF k1 same_radio_kept [OF bt_call_id_radio [OF continues(1)]]] .
    show ?thesis using scan_loop_outcome [OF continues(2)] kept_trans [OF k2] by (auto simp: d1)
  qed
qed

lemma release_any:
  assumes "tracked K h" and "K \<subseteq> set (bh_devices h)"
  shows "bh_active (release h) = None \<and> bh_powered (release h) = bh_powered h \<and> bh_fault (release h) = bh_fault h
    \<and> K \<subseteq> set (bh_devices (release h))"
proof (cases "bh_active h")
  case None
  with assms show ?thesis by (simp add: release_def)
next
  case (Some dk)
  obtain d k where dk: "dk = (d, k)" by (cases dk)
  obtain r h1 where f: "forget Plain d k (h\<lparr>bh_active := None\<rparr>) = (r, h1)" by (cases "forget Plain d k (h\<lparr>bh_active := None\<rparr>)")
  show ?thesis using Some dk f forget_any [OF f] assms by (auto simp: release_def tracked_def)
qed

lemma provision_outcome:
  assumes "provision c show_id env ck agent ssid psk turns h = (r, h')"
  shows "\<forall>n. bh_fault h n = None \<Longrightarrow> bh_powered h' = bh_powered h" and "set (bh_devices h) \<subseteq> set (bh_devices h')"
    and "bh_active h = None \<Longrightarrow> bh_active h' = None"
    and "r = Inr () \<Longrightarrow> \<exists>conf. network_conf ssid psk = Inr conf \<and> provisioned_by c show_id ck agent conf turns"
proof -
  have "((\<forall>n. bh_fault h n = None) \<longrightarrow> bh_powered h' = bh_powered h) \<and> set (bh_devices h) \<subseteq> set (bh_devices h')
    \<and> (bh_active h = None \<longrightarrow> bh_active h' = None)
    \<and> (r = Inr () \<longrightarrow> (\<exists>conf. network_conf ssid psk = Inr conf \<and> provisioned_by c show_id ck agent conf turns))"
  proof (cases "network_conf ssid psk")
    case (Inl e)
    with assms show ?thesis by (auto simp: provision_def)
  next
    case conf: (Inr conf)
    let ?h0 = "h\<lparr>bh_active := None\<rparr>"
    obtain q h1 where ad: "adapter env ?h0 = (q, h1)" by (cases "adapter env ?h0")
    note a = adapter_any [OF ad]
    show ?thesis
    proof (cases q)
      case (Inl stop)
      with assms conf ad a show ?thesis by (auto simp: provision_def)
    next
      case (Inr was)
      obtain z h2 where sc: "provisioning c show_id ck agent conf turns h1 = (z, h2)" by (cases "provisioning c show_id ck agent conf turns h1")
      note s = provisioning_kept [OF sc]
      have run: "r = select_result z" "h' = power_back was (release h2)" using assms conf ad Inr sc by (simp_all add: provision_def)
      have "tracked (set (bh_devices h)) h2" "set (bh_devices h) \<subseteq> set (bh_devices h2)"
        using s a(2,3) by (auto simp: kept_def tracked_def)
      note rel = release_any [OF this]
      show ?thesis
        using s rel run conf a(2-4) a(8) [of was] Inr power_back_any [where b = was and h = "release h2"] by (auto simp: kept_def)
    qed
  qed
  then show "\<forall>n. bh_fault h n = None \<Longrightarrow> bh_powered h' = bh_powered h" "set (bh_devices h) \<subseteq> set (bh_devices h')"
    "bh_active h = None \<Longrightarrow> bh_active h' = None"
    "r = Inr () \<Longrightarrow> \<exists>conf. network_conf ssid psk = Inr conf \<and> provisioned_by c show_id ck agent conf turns" by blast+
qed

lemma ble_serve_leaves:
  assumes "\<forall>n. bh_fault h n = None" and "bh_active h = None" and "bh_adv h = None" and "bh_app h = None"
    and "ble_serve c show_id env controller key_file output evs h = (r, h')"
  shows "bh_powered h' = bh_powered h \<and> bh_active h' = None \<and> bh_adv h' = None \<and> bh_app h' = None \<and> set (bh_devices h') \<subseteq> set (bh_devices h)"
proof -
  obtain k w where l: "load_or_create_key id key_file Replace (bh_world h) = (k, w)"
    by (cases "load_or_create_key id key_file Replace (bh_world h)")
  show ?thesis
  proof (cases k)
    case (Inl e)
    with assms l show ?thesis by (auto simp: ble_serve_def)
  next
    case (Inr key)
    note o = ble_serve_outcome [OF assms(5) l [unfolded Inr]]
    show ?thesis using o(3-7) assms by simp
  qed
qed


definition quiet_host :: ble_host where
  "quiet_host = \<lparr>bh_world = blank_world, bh_powered = False, bh_devices = [''k''], bh_active = None, bh_adv = None, bh_app = None,
     bh_awaits = 0, bh_alarm = (\<lambda>_. Quiet), bh_fault = (\<lambda>_. None)\<rparr>"

definition quiet_env :: adapter_env where
  "quiet_env = \<lparr>ae_session = Inr (), ae_tries = (\<lambda>_. None), ae_slack = (\<lambda>_. 0)\<rparr>"


section \<open>The credentials arrive\<close>

text \<open>The target's end \<open>y\<close>, \<open>y'\<close> is the other end of the characteristic of the device \<open>d\<close>: each side
  receives a part of what the other has sent, in order; the radio may be lost at any point.\<close>

definition carried :: "ble_device \<Rightarrow> exchange \<Rightarrow> exchange \<Rightarrow> exchange \<Rightarrow> bool" where
  "carried d x' y y' \<longleftrightarrow>
     (\<exists>w r. dv_write d = Inr w \<and> dv_notify d = Inr r \<and> sent w = [] \<and> sent (ex_out y) = []
        \<and> prefix (arriving (ex_in y)) (sent (ex_out x')) \<and> prefix (arriving r) (sent (ex_out y')))"

text \<open>C9. When the controller's \<open>provision\<close> reports success, the target has the network. Some device
  that was found under the target's name went through an exchange with the right configuration, one
  that reads as this SSID and this key; and if the other end of that exchange was the target's, then,
  whatever the radio cut off, however the target's end stopped afterwards, its configuration file
  holds exactly that text and its attempt counts as installed.\<close>

theorem provision_delivers:
  assumes "ble_laws c" and "provision c show_id env ck (bc_public c key) ssid psk turns h = (Inr (), h')"
  shows "\<exists>conf. read_network conf = Some (ssid, if raw_psk psk then RawKey psk else Passphrase psk)
    \<and> (\<exists>t \<in> set turns. \<exists>a d x x'. sc_event t = Some (DeviceAdded a d) \<and> wanted show_id (bc_public c key) d = Some False
       \<and> client_exchange c ck (bc_public c key) conf d x = (Inr (), x')
       \<and> (\<forall>output y z y'. server_exchange c key (bc_public c ck) (bc_public c key) output y = (z, y') \<and> carried d x' y y' \<longrightarrow>
            contents (nodes (bh_world (ex_host y'))) output = Some (as_bytes conf) \<and> ex_installed y'))"
proof -
  obtain conf where conf: "network_conf ssid psk = Inr conf" "provisioned_by c show_id ck (bc_public c key) conf turns"
    using provision_outcome(4) [OF assms(2)] by blast
  from conf(2) obtain t a d x x' where t: "t \<in> set turns" "sc_event t = Some (DeviceAdded a d)" "wanted show_id (bc_public c key) d = Some False"
    and cl: "client_exchange c ck (bc_public c key) conf d x = (Inr (), x')" by (auto simp: provisioned_by_def)
  have "contents (nodes (bh_world (ex_host y'))) output = Some (as_bytes conf) \<and> ex_installed y'"
    if "server_exchange c key (bc_public c ck) (bc_public c key) output y = (z, y')" "carried d x' y y'" for "output" y z y'
    using that(2) exchange_delivers [OF assms(1) cl _ _ _ that(1)] unfolding carried_def by blast
  with t cl network_conf_reads [OF conf(1)] show ?thesis by blast
qed

text \<open>C21. The exchange can always be completed: between a controller and a target that know each
  other's keys, on machines where nothing fails and no timer runs out, there is a run in which each
  side receives what the other sends, both report success, and the target's file holds the
  configuration.\<close>

theorem exchange_completes:
  assumes "ble_laws c" and "network_conf ssid psk = Inr conf"
    and "undisturbed x" and "calm (bh_world (ex_host x))"
    and "dv_connect d = Inr ()" and "characteristic d = Inr ()" and "dv_write d = Inr fresh_sink"
    and "undisturbed y" and "ex_out y = fresh_sink" and "calm (bh_world (ex_host y))"
    and "p = r @ [Normal s]" and "parent_is_dir (nodes (bh_world (ex_host y))) p" and "\<forall>k. nodes (bh_world (ex_host y)) p \<noteq> Some (Dir k)"
    and "nodes (bh_world (ex_host y)) (ble_tmp (pid (bh_world (ex_host y))) p) = None"
  shows "\<exists>up down x' y'. client_exchange c ck (bc_public c key) conf (d\<lparr>dv_notify := Inr (reader_of down)\<rparr>) x = (Inr (), x')
    \<and> server_exchange c key (bc_public c ck) (bc_public c key) p (y\<lparr>ex_in := reader_of up\<rparr>) = (Inr (), y')
    \<and> sent (ex_out x') = up \<and> sent (ex_out y') = down \<and> contents (nodes (bh_world (ex_host y'))) p = Some (as_bytes conf)"
proof -
  obtain w' where "install p (as_bytes conf) (next_tick (bh_world (ex_host y))) = (Inr (), w')"
    using install_calm [of "next_tick (bh_world (ex_host y))" p r s "as_bytes conf"] assms(10-14) by auto
  from exchange_possible [OF assms(1) network_conf_length [OF assms(2)] assms(3-7) _ _ assms(8) _ _ assms(10) this, of ck key] assms(9)
  obtain up down x' y' where run: "client_exchange c ck (bc_public c key) conf (d\<lparr>dv_notify := Inr (reader_of down)\<rparr>) x = (Inr (), x')"
    "server_exchange c key (bc_public c ck) (bc_public c key) p (y\<lparr>ex_in := reader_of up\<rparr>) = (Inr (), y')"
    "sent (ex_out x') = up" "sent (ex_out y') = down" by auto
  have "contents (nodes (bh_world (ex_host y'))) p = Some (as_bytes conf)"
    using exchange_delivers [OF assms(1) run(1) _ _ _ run(2)] assms(7,9) run(3,4) by simp
  with run show ?thesis by blast
qed

definition demo_device :: ble_device where
  "demo_device = \<lparr>dv_device = Inr (), dv_name = Inr (Some ''egdod-01234567''), dv_uuids = Inr (Some [SERVICE_UUID]), dv_paired = Inr False,
     dv_connect = Inr (), dv_services = (\<lambda>_. Inr [(Inr SERVICE_UUID, Inr [Inr CHARACTERISTIC_UUID])]), dv_slack = (\<lambda>_. 0),
     dv_notify = Inr (reader_of []), dv_write = Inr fresh_sink\<rparr>"

lemma demo_device_simps: "dv_connect demo_device = Inr ()" "characteristic demo_device = Inr ()" "dv_write demo_device = Inr fresh_sink"
  "wanted (\<lambda>_. ''0123456789'') agent (demo_device\<lparr>dv_notify := n\<rparr>) = Some False" "dv_device (demo_device\<lparr>dv_notify := n\<rparr>) = Inr ()"
  by (simp_all add: demo_device_def characteristic_def retry.simps wanted_def local_name_def fmt_def)

abbreviation demo_exchange :: "ble_host \<Rightarrow> exchange" where
  "demo_exchange h \<equiv> \<lparr>ex_host = h, ex_in = reader_of [], ex_out = fresh_sink, ex_installed = False\<rparr>"

lemma demo_conf: "\<exists>conf. network_conf ''lab'' ''correct horse'' = Inr conf"
  by (simp add: network_conf_def forbidden_def control_chars)

lemma demo_parent: "parent_is_dir (\<lambda>_. None) [Normal s]"
  by (simp add: parent_is_dir_def parent_path_def)

theorem exchange_completes_witness:
  "\<exists>conf up down x' y'. network_conf ''lab'' ''correct horse'' = Inr conf
    \<and> client_exchange demo_crypto [1] (bc_public demo_crypto [2]) conf (demo_device\<lparr>dv_notify := Inr (reader_of down)\<rparr>)
        (demo_exchange quiet_host) = (Inr (), x')
    \<and> server_exchange demo_crypto [2] (bc_public demo_crypto [1]) (bc_public demo_crypto [2]) [Normal ''c'']
        ((demo_exchange quiet_host)\<lparr>ex_in := reader_of up\<rparr>) = (Inr (), y')
    \<and> sent (ex_out x') = up \<and> sent (ex_out y') = down \<and> contents (nodes (bh_world (ex_host y'))) [Normal ''c''] = Some (as_bytes conf)"
proof -
  obtain conf where conf: "network_conf ''lab'' ''correct horse'' = Inr conf" using demo_conf by blast
  have x: "undisturbed (demo_exchange quiet_host)" "bh_world quiet_host = blank_world" by (simp_all add: undisturbed_def quiet_host_def)
  from exchange_completes [OF demo_crypto_laws conf x(1) _ demo_device_simps(1-3) x(1), of "[Normal ''c'']" "[]" "''c''" "[1]" "[2]"]
    conf x(2) demo_parent show ?thesis by auto
qed

lemma demo_provision:
  obtains turns h' where
    "provision demo_crypto (\<lambda>_. ''0123456789'') quiet_env [1] (bc_public demo_crypto [2]) ''lab'' ''correct horse'' turns quiet_host = (Inr (), h')"
proof -
  obtain conf where conf: "network_conf ''lab'' ''correct horse'' = Inr conf" using demo_conf by blast
  define hx where "hx = quiet_host\<lparr>bh_powered := True, bh_awaits := Suc (Suc (Suc (Suc (Suc 0)))), bh_devices := [''a'', ''k''], bh_active := Some (''a'', False)\<rparr>"
  have w: "bh_world hx = blank_world" "bh_world quiet_host = blank_world" by (simp_all add: hx_def quiet_host_def)
  have u: "undisturbed (demo_exchange hx)" "undisturbed (demo_exchange quiet_host)" by (simp_all add: undisturbed_def hx_def quiet_host_def)
  obtain w' where "install [Normal ''c''] (as_bytes conf) (next_tick blank_world) = (Inr (), w')"
    using install_calm [of "next_tick blank_world" "[Normal ''c'']" "[]" "''c''" "as_bytes conf"] demo_parent by auto
  with exchange_possible [OF demo_crypto_laws network_conf_length [OF conf] u(1) _ demo_device_simps(1-3) _ _ u(2), of "[Normal ''c'']" w' "[1]" "[2]"] w
  obtain down x' where ex: "client_exchange demo_crypto [1] (bc_public demo_crypto [2]) conf (demo_device\<lparr>dv_notify := Inr (reader_of down)\<rparr>)
      (demo_exchange hx) = (Inr (), x')" by auto
  have "same_radio hx (ex_host x')" using t_respectsD [OF client_exchange_radio ex] by (simp add: ex_radio_def)
  then have q: "bh_alarm (ex_host x') = (\<lambda>_. Quiet)" "bh_fault (ex_host x') = (\<lambda>_. None)"
    by (simp_all add: same_radio_def hx_def quiet_host_def)
  have pa: "\<exists>h'. provision_attempt demo_crypto [1] (bc_public demo_crypto [2]) conf ''a'' False (demo_device\<lparr>dv_notify := Inr (reader_of down)\<rparr>) hx
      = (Inr True, h')"
    using ex q by (simp add: provision_attempt_def forget_def remove_device_def t_bind_def t_ignore_def bt_call_def await_def)
  let ?t = "\<lparr>sc_head = 0, sc_event = Some (DeviceAdded ''a'' (demo_device\<lparr>dv_notify := Inr (reader_of down)\<rparr>)), sc_looked = 0\<rparr>"
  have "\<exists>h'. provision demo_crypto (\<lambda>_. ''0123456789'') quiet_env [1] (bc_public demo_crypto [2]) ''lab'' ''correct horse'' [?t] quiet_host = (Inr (), h')"
    using pa conf demo_device_simps(4,5) [where n = "Inr (reader_of down)"]
    by (auto simp: provision_def provisioning_def adapter_def quiet_env_def quiet_host_def retry.simps set_powered_def t_bind_def bt_call_def await_def
        try_device_def SCAN_WAIT_def hx_def)
  with that show thesis by blast
qed

theorem provision_delivers_witness:
  "\<exists>turns h' conf t a d x x'. provision demo_crypto (\<lambda>_. ''0123456789'') quiet_env [1] (bc_public demo_crypto [2]) ''lab'' ''correct horse'' turns
       quiet_host = (Inr (), h')
     \<and> read_network conf = Some (''lab'', Passphrase ''correct horse'') \<and> t \<in> set turns \<and> sc_event t = Some (DeviceAdded a d)
     \<and> client_exchange demo_crypto [1] (bc_public demo_crypto [2]) conf d x = (Inr (), x')"
proof -
  obtain turns h' where run: "provision demo_crypto (\<lambda>_. ''0123456789'') quiet_env [1] (bc_public demo_crypto [2]) ''lab'' ''correct horse'' turns
       quiet_host = (Inr (), h')" by (rule demo_provision)
  have "\<not> raw_psk ''correct horse''" by (simp add: raw_psk_def)
  with provision_delivers [OF demo_crypto_laws run] run show ?thesis by auto blast
qed

text \<open>Primitives under which the controller's key has signed exactly the message \<open>m\<close>.\<close>

definition one_signature :: "bytes \<Rightarrow> ble_crypto" where
  "one_signature m = demo_crypto\<lparr>bc_public := (\<lambda>_. replicate 32 0),
     bc_verify := (\<lambda>owner m' _. if owner = replicate 32 1 \<and> m' \<noteq> m then Inl (Msg []) else Inr ())\<rparr>"

lemma one_signature_laws: "ble_laws (one_signature m)"
  using demo_crypto_laws by (simp add: ble_laws_def one_signature_def, simp add: demo_crypto_def)


end
