(* ===== verification/Cli.thy ===== *)
theory Cli
  imports Recipe Boot_Init Ble_Programs
begin

text \<open>
  \<open>src/main.rs\<close>: what each command of the program does with its arguments.

  \<open>clap\<close> makes the value the program starts from, a \<open>Role\<close>; how it reads the command line is not
  part of this theory.  The machine the program runs on is the record \<open>machine\<close>: the stream to
  \<open>serve\<close> with the disk, the two output streams of \<open>exec\<close>, the Bluetooth adapter, the programs
  \<open>join\<close> ran, and what was printed.  What the rest of the world answers is the record \<open>cli_env\<close>.
\<close>

section \<open>The command line\<close>

record AgentArgs =
  aa_controller :: string
  aa_key_file :: path
  aa_relay :: "string list"
  aa_no_relay :: bool
  aa_direct :: "SocketAddr list"

record ServeArgs =
  sa_relay :: "string list"
  sa_no_relay :: bool
  sa_probe_interval :: u64
  sa_probe_timeout :: u64
  sa_restart_after :: u32
  sa_bind :: "SocketAddr option"

record SshArgs =
  xa_agent :: string
  xa_user :: string
  xa_authorized_keys :: string
  xa_host_key :: string
  xa_sshd_arg :: "string list"
  xa_keygen_arg :: "string list"
  xa_target_addr :: string
  xa_local_port :: u16
  xa_key_options :: string
  xa_key_ttl_secs :: u64
  xa_ssh_argv :: "string list"

datatype ControllerCmd =
    CmdInit
  | CmdServe ServeArgs
  | CmdPending bool
  | CmdApprove string
  | CmdJoin "string option" bool
  | CmdBle string string path "string option"
  | CmdStatus bool
  | CmdExec string "string list"
  | CmdPush string path string
  | CmdPull string string path u64
  | CmdForward string u16 string
  | CmdSsh SshArgs

datatype Role =
    RoleController "path option" ControllerCmd
  | RoleAgent AgentArgs
  | RoleLink string bool "string option" bool
  | RoleBle string path path

section \<open>The machine\<close>

record machine =
  mc_conn :: duplex
  mc_sinks :: exec_sinks
  mc_radio :: ble_host
  mc_links :: "link_event list"
  mc_stdout :: string

record cli_env =
  ce_pc :: postcard
  ce_sha :: "bytes \<Rightarrow> bytes"
  ce_codec :: "bytes codec"
  ce_crypto :: ble_crypto
  ce_environ :: "string \<Rightarrow> string option"
  ce_dials :: "nat \<Rightarrow> dial"
  ce_spawn :: spawn
  ce_tcp_bind :: "SocketAddr \<Rightarrow> listener result"
  ce_answers :: "nat \<Rightarrow> bytes option"
  ce_join :: join_env
  ce_link_json :: "link \<Rightarrow> string result"
  ce_adapter :: "string option \<Rightarrow> adapter_env"
  ce_gatt :: "gatt_event list"
  ce_turns :: "scan_turn list"

definition mc_world :: "machine \<Rightarrow> world" where
  "mc_world mc = dx_world (mc_conn mc)"

definition on_conn :: "(duplex, 'a) io \<Rightarrow> (machine, 'a) io" where
  "on_conn m mc = (case m (mc_conn mc) of (x, s) \<Rightarrow> (x, mc\<lparr>mc_conn := s\<rparr>))"

definition on_disk :: "(world, 'a) io \<Rightarrow> (machine, 'a) io" where
  "on_disk m = on_conn (via_world m)"

definition on_exec :: "(duplex \<times> exec_sinks, 'a) io \<Rightarrow> (machine, 'a) io" where
  "on_exec m mc = (case m (mc_conn mc, mc_sinks mc) of (x, (s, t)) \<Rightarrow> (x, mc\<lparr>mc_conn := s, mc_sinks := t\<rparr>))"

definition on_radio :: "(ble_host, 'a) io \<Rightarrow> (machine, 'a) io" where
  "on_radio m mc =
     (case m ((mc_radio mc)\<lparr>bh_world := mc_world mc\<rparr>) of (x, h) \<Rightarrow>
        (x, mc\<lparr>mc_radio := h, mc_conn := (mc_conn mc)\<lparr>dx_world := bh_world h\<rparr>\<rparr>))"

definition on_link :: "(link_run, 'a) io \<Rightarrow> (machine, 'a) io" where
  "on_link m mc =
     (case m \<lparr>lr_world = mc_world mc, lr_log = mc_links mc\<rparr> of (x, l) \<Rightarrow>
        (x, mc\<lparr>mc_links := lr_log l, mc_conn := (mc_conn mc)\<lparr>dx_world := lr_world l\<rparr>\<rparr>))"

definition print :: "string \<Rightarrow> (machine, unit) io" where
  "print s mc = (Inr (), mc\<lparr>mc_stdout := mc_stdout mc @ s\<rparr>)"

definition print_lines :: "string list \<Rightarrow> (machine, unit) io" where
  "print_lines ls = print (concat (map (\<lambda>l. l @ nl) ls))"

section \<open>Running a command\<close>

text \<open>How the function ends: it returns, it calls \<open>exit\<close>, or it goes on as one of the long-lived
  parts with this configuration; of a forward, what its connections came to.\<close>

datatype ended =
    Finished
  | ExitWith u32
  | Serving serve_config
  | Dialling "bytes agent_config"
  | Forwarding "(unit result \<times> duplex) list"

text \<open>\<open>psk.strip_suffix('\n')\<close> and then \<open>'\r'\<close>.\<close>

definition strip_nl :: "string \<Rightarrow> string" where
  "strip_nl s = (if s \<noteq> [] \<and> last s = newline then butlast s else s)"

definition run_controller :: "cli_env \<Rightarrow> StateDir \<Rightarrow> ControllerCmd \<Rightarrow> (machine, ended) io" where
  "run_controller env st cmd =
     (let public = bc_public (ce_crypto env); show_id = show_key (ce_codec env);
          show = (\<lambda>nid what. io_bind (io_lift (show_link (ce_sha env) (ce_link_json env) nid what)) (\<lambda>t.
            io_bind (print t) (\<lambda>_. io_ok Finished)));
          printed = (\<lambda>ls. io_bind (print_lines ls) (\<lambda>_. io_ok Finished)) in
      case cmd of
        CmdInit \<Rightarrow> io_bind (on_disk (init_cmd (ce_codec env) id public st)) printed
      | CmdServe a \<Rightarrow>
          io_ok (Serving \<lparr>sc_state = st, sc_relay = from_flags (sa_no_relay a) (sa_relay a),
            sc_probe_interval = 1000 * unat (sa_probe_interval a), sc_probe_timeout = 1000 * unat (sa_probe_timeout a),
            sc_restart_after = sa_restart_after a, sc_bind_addr = sa_bind a\<rparr>)
      | CmdPending json \<Rightarrow> io_bind (on_disk (pending_cmd (ce_codec env) st json)) printed
      | CmdApprove key \<Rightarrow> io_bind (on_disk (approve_cmd (ce_codec env) st key)) printed
      | CmdJoin (Some iface) _ \<Rightarrow>
          io_bind (on_link (join_link (ce_sha env) id public (ce_spawn env) (ce_join env) st iface)) (\<lambda>_. io_ok Finished)
      | CmdJoin None json \<Rightarrow>
          io_bind (on_disk (load_key id st)) (\<lambda>k. show (public k) (if json then Json else Lines))
      | CmdBle agent network psk_file adapter_name \<Rightarrow>
          io_bind (io_lift (with_context ''agent node id'' (parse_pubkey (parse_key (ce_codec env)) agent))) (\<lambda>agent.
          io_bind (io_context (fmt [''reading PSK from '', show_path psk_file]) (on_disk (read_to_string psk_file))) (\<lambda>body.
          let psk = strip_cr (strip_nl body) in
          io_bind (on_disk (load_key id st)) (\<lambda>k.
          io_bind (on_radio (provision (ce_crypto env) show_id (ce_adapter env adapter_name) k agent network psk (ce_turns env))) (\<lambda>_.
          io_ok Finished))))
      | CmdStatus json \<Rightarrow>
          io_bind (on_disk (status_cmd (ce_codec env) st json)) (\<lambda>(code, ls).
          io_bind (print_lines ls) (\<lambda>_. io_ok (ExitWith code)))
      | CmdExec agent argv \<Rightarrow>
          io_bind (on_exec (exec (ce_pc env) (ce_dials env 0) st agent argv)) (\<lambda>code. io_ok (ExitWith code))
      | CmdPush agent local remote \<Rightarrow>
          io_bind (on_conn (push (ce_pc env) (ce_sha env) (ce_dials env 0) st agent local remote)) printed
      | CmdPull agent remote local max_bytes \<Rightarrow>
          io_bind (on_conn (pull (ce_pc env) (ce_sha env) (ce_dials env 0) st agent remote local max_bytes)) printed
      | CmdForward agent local_port remote \<Rightarrow>
          io_bind (\<lambda>mc. (forward (ce_pc env) (ce_dials env) (ce_tcp_bind env) st agent local_port remote (mc_world mc), mc)) (\<lambda>(ls, served).
          io_bind (print_lines ls) (\<lambda>_. io_ok (Forwarding served)))
      | CmdSsh a \<Rightarrow>
          io_bind (on_conn (ssh_run (ce_pc env) (ce_sha env) (ce_dials env) (ce_spawn env) (ce_tcp_bind env) (ce_answers env) st
            \<lparr>sh_agent = xa_agent a, sh_user = xa_user a, sh_authorized_keys = xa_authorized_keys a,
             sh_host_key_pub = xa_host_key a, sh_sshd_argv = xa_sshd_arg a, sh_keygen_argv = xa_keygen_arg a,
             sh_target_addr = xa_target_addr a, sh_local_port = xa_local_port a, sh_ssh_argv = xa_ssh_argv a,
             sh_key_options = xa_key_options a, sh_key_ttl = uint (xa_key_ttl_secs a)\<rparr>)) (\<lambda>code.
          io_ok (ExitWith code)))"

text \<open>What \<open>link\<close> prints, from its flags.\<close>

fun link_show :: "bool \<Rightarrow> string option \<Rightarrow> bool \<Rightarrow> Show" where
  "link_show json (Some iface) supplicant = Hostapd iface"
| "link_show json None True = Supplicant"
| "link_show True None False = Json"
| "link_show False None False = Lines"

fun main_role :: "cli_env \<Rightarrow> Role \<Rightarrow> (machine, ended) io" where
  "main_role env (RoleAgent a) =
     io_bind (io_lift (with_context ''--controller'' (parse_pubkey (parse_key (ce_codec env)) (aa_controller a)))) (\<lambda>controller.
     io_ok (Dialling \<lparr>cfg_controller = controller, cfg_key_file = aa_key_file a,
       cfg_relay = from_flags (aa_no_relay a) (aa_relay a), cfg_direct = aa_direct a\<rparr>))"
| "main_role env (RoleController state_dir cmd) =
     run_controller env \<lparr>root = (case state_dir of Some d \<Rightarrow> d | None \<Rightarrow> default_path (ce_environ env))\<rparr> cmd"
| "main_role env (RoleLink nid json hostapd supplicant) =
     io_bind (io_lift (with_context ''node id'' (parse_pubkey (parse_key (ce_codec env)) nid))) (\<lambda>nid.
     io_bind (io_lift (show_link (ce_sha env) (ce_link_json env) nid (link_show json hostapd supplicant))) (\<lambda>t.
     io_bind (print t) (\<lambda>_. io_ok Finished)))"
| "main_role env (RoleBle controller key_file output) =
     io_bind (io_lift (with_context ''--controller'' (parse_pubkey (parse_key (ce_codec env)) controller))) (\<lambda>controller.
     io_bind (on_radio (ble_serve (ce_crypto env) (show_key (ce_codec env)) (ce_adapter env None) controller key_file output (ce_gatt env))) (\<lambda>_.
     io_ok Finished))"

text \<open>The status of the process: \<open>exit\<close> keeps eight bits, an error that \<open>main\<close> returns is 1.\<close>

fun process_status :: "ended result \<Rightarrow> u32 option" where
  "process_status (Inl e) = Some 1"
| "process_status (Inr Finished) = Some 0"
| "process_status (Inr (ExitWith c)) = Some (and c 255)"
| "process_status (Inr _) = None"

section \<open>Running a command on the target\<close>


text \<open>A machine on which nothing answers but the agent.\<close>

definition text_keys :: "bytes codec" where
  "text_keys = \<lparr>parse_key = (\<lambda>s. Inr (as_bytes s)), show_key = of_bytes,
     pending_to_json = (\<lambda>_. Inl (Msg [])), pending_from_json = (\<lambda>_. Inl (Msg [])),
     status_to_json = (\<lambda>_. Inl (Msg [])), status_from_json = (\<lambda>_. Inl (Msg []))\<rparr>"

definition demo_env :: "postcard \<Rightarrow> dial \<Rightarrow> cli_env" where
  "demo_env pc dial = \<lparr>ce_pc = pc, ce_sha = (\<lambda>_. replicate 32 0), ce_codec = text_keys, ce_crypto = demo_crypto,
     ce_environ = (\<lambda>_. None), ce_dials = (\<lambda>_. dial), ce_spawn = (\<lambda>_ w. (Inr (Exited 0), w)),
     ce_tcp_bind = (\<lambda>_. Inl (Msg [])), ce_answers = (\<lambda>_. None), ce_join = link_env, ce_link_json = (\<lambda>_. Inl (Msg [])),
     ce_adapter = (\<lambda>_. quiet_env), ce_gatt = [], ce_turns = []\<rparr>"

definition demo_machine :: machine where
  "demo_machine = \<lparr>mc_conn = idle blank_world,
     mc_sinks = \<lparr>out = fresh_sink, err = fresh_sink, warned = False\<rparr>, mc_radio = quiet_host, mc_links = [], mc_stdout = []\<rparr>"

definition demo_child :: child where
  "demo_child = \<lparr>ch_stdout = reader_of [65], ch_stderr = reader_of [], ch_schedule = [True],
     ch_wait = Inr (Exited 0), ch_drain = (0, 0, [\<lparr>ds_joined = True, ds_frames = 1, ds_sending = False, ds_now = 1\<rparr>]),
     ch_writer_in_time = True\<rparr>"

lemma demo_child_runs:
  "exec_frames demo_child = [Stdout [65]]" "whole_run demo_child (Exited 0)"
proof -
  have pumps: "pump_frames Stdout (reader_of [65]) = [Stdout [65]]" "pump_frames Stderr (reader_of []) = []"
    by (simp_all add: pump_frames.simps read_some_def reader_of_def EXEC_CHUNK_def)
  show "exec_frames demo_child = [Stdout [65]]" "whole_run demo_child (Exited 0)"
    by (simp_all add: demo_child_def exec_frames_def whole_run_def child_cut_def drain_output_def complete_schedule_def pumps)
qed

abbreviation demo_exec_pc :: postcard where
  "demo_exec_pc \<equiv> demo_postcard (Exec [''true'']) AckOk PullMissing (Route ''any'') (RouteOk ''t'' Unknown ''no open path'')"

abbreviation demo_answer :: bytes where
  "demo_answer \<equiv> frames_wire demo_pack [Stdout [65], Exit 0]"

abbreviation demo_exec_target :: target where
  "demo_exec_target \<equiv> \<lparr>tg_spawn = (\<lambda>_ _. Inr demo_child), tg_connect = (\<lambda>_. Inl ''no'')\<rparr>"

abbreviation demo_exec_end :: duplex where
  "demo_exec_end \<equiv> \<lparr>dx_recv = reader_of demo_frame, dx_send = fresh_sink, dx_world = blank_world, dx_tcp = None\<rparr>"

abbreviation demo_exec_env :: cli_env where
  "demo_exec_env \<equiv> demo_env demo_exec_pc (\<lambda>_. Inr (reader_of (demo_frame @ demo_answer), fresh_sink))"

lemma demo_exec_pc:
  "enc_route demo_exec_pc (Route ''any'') = Inr [0]" "dec_route demo_exec_pc [0] = Inr (Route ''any'')"
  "dec_reply demo_exec_pc [0] = Inr (RouteOk ''t'' Unknown ''no open path'')"
  "enc_reply demo_exec_pc (RouteOk ''t'' Unknown ''no open path'') = Inr [0]"
  "enc_request demo_exec_pc (Exec [''true'']) = Inr [0]" "dec_request demo_exec_pc [0] = Inr (Exec [''true''])"
  by (simp_all add: demo_postcard_def only_enc_def only_dec_def)

lemma demo_exec_fits:
  "f \<in> set (exec_frames demo_child) \<union> {Exit (exit_code (Exited 0))} \<Longrightarrow>
     enc_frame demo_exec_pc f = Inr (demo_pack f) \<and> length (demo_pack f) \<le> MAX_MSG"
  by (auto simp: demo_child_runs demo_postcard_def demo_pack_def MAX_MSG_def)

lemma demo_exec_served:
  obtains a' where "handle demo_exec_pc sha demo_exec_target demo_exec_end = (Inr (), a')" "sent (dx_send a') = demo_answer"
proof -
  obtain s' where s': "agent_exec demo_exec_pc demo_exec_target [''true''] fresh_sink = (Inr (), s')" "sent s' = demo_answer"
    using agent_exec_stream [of demo_exec_target "''true''" "[]" demo_child "Exited 0" fresh_sink demo_exec_pc demo_pack]
      demo_exec_fits demo_child_runs by auto
  show thesis
    by (rule handle_exec_ok [of demo_exec_end "[0]" demo_exec_pc "[''true'']" demo_exec_target s' sha])
      (use s' demo_exec_pc that in \<open>simp_all add: demo_frame MAX_MSG_def\<close>)
qed

lemma demo_exec_main:
  obtains mc' where "main_role demo_exec_env (RoleController (Some []) (CmdExec ''any'' [''true''])) demo_machine = (Inr (ExitWith 0), mc')"
    "sent (dx_send (mc_conn mc')) = demo_frame @ demo_frame"
proof -
  let ?dial = "ce_dials demo_exec_env 0" and ?mc = demo_machine
  have dec: "dec_frame demo_exec_pc (demo_pack f) = Inr f \<and> length (demo_pack f) \<le> MAX_MSG \<and> (\<forall>e. f \<noteq> ExecFrame.Failed e)"
    if "f \<in> set [Stdout [65], Exit 0]" for f
    using that by (auto simp: demo_postcard_def demo_pack_def MAX_MSG_def)
  have "sinks_healthy (mc_sinks ?mc)" by (simp add: sinks_healthy_def demo_machine_def)
  moreover have "output_total [Stdout [65], Exit 0] \<le> unat (- 1 :: u64)"
    by (simp add: unsigned_minus_1_eq_mask mask_eq_exp_minus_1)
  ultimately have recv: "\<exists>r' o'. recv_exec_output (dec_frame demo_exec_pc) (- 1) (r, mc_sinks ?mc) = (Inr 0, (r', o'))"
    if "arriving r = demo_answer" "broken r = None" for r
    using recv_exec_output_frames [OF that dec, of "- 1" "mc_sinks ?mc"] by auto
  obtain s2 o' where run: "exec_into demo_exec_pc ?dial \<lparr>root = []\<rparr> ''any'' [''true''] (- 1) (mc_conn ?mc, mc_sinks ?mc) = (Inr 0, (s2, o'))"
      "sent (dx_send s2) = sent fresh_sink @ frame [0] @ frame [0]"
    by (rule exec_into_ok [where dial = ?dial and st = "\<lparr>root = []\<rparr>" and pc = demo_exec_pc and agent = "''any''" and rb = "[0]"
        and kb = "[0]" and pb = "[0]" and rest = demo_answer and ?w0.0 = fresh_sink and ?r0.0 = "reader_of (demo_frame @ demo_answer)"
        and argv = "[''true'']" and lim = "- 1" and ou = "mc_sinks ?mc" and code = 0 and s = "mc_conn ?mc"
        and k = "''t''" and p = Unknown and t = "''no open path''"])
      (use demo_exec_pc recv in \<open>simp_all add: demo_frame MAX_MSG_def demo_env_def\<close>)
  show thesis
    by (rule that [of "?mc\<lparr>mc_conn := s2, mc_sinks := o'\<rparr>"])
      (use run in \<open>simp_all add: run_controller_def demo_env_def exec_def on_exec_def io_bind_def demo_frame\<close>)
qed


section \<open>The two programs of the boot image\<close>

text \<open>
  What process 1 relies on when it starts \<open>/egdod\<close>: the argument parser reads the three command
  lines it makes as the attributes of the structures document, and a program that ended has
  printed what it printed and left its status.
\<close>

definition clap_reads :: "(string list \<Rightarrow> Role option) \<Rightarrow> string \<Rightarrow> SocketAddr \<Rightarrow> bool" where
  "clap_reads clap w a \<longleftrightarrow>
     clap [''/egdod'', ''link'', w] = Some (RoleLink w False None False)
   \<and> (\<forall>dev. clap [''/egdod'', ''link'', w, ''--hostapd'', dev] = Some (RoleLink w False (Some dev) False))
   \<and> clap [''/egdod'', ''agent'', ''--controller'', w, ''--key-file'', ''/agent.key'', ''--no-relay'', ''--direct'', show_SocketAddr a]
        = Some (RoleAgent \<lparr>aa_controller = w, aa_key_file = path_of ''/agent.key'', aa_relay = [], aa_no_relay = True, aa_direct = [a]\<rparr>)"

definition launches :: "(string list \<Rightarrow> ExitStatus \<times> string) \<Rightarrow> (string list \<Rightarrow> Role option) \<Rightarrow> cli_env \<Rightarrow> machine \<Rightarrow> bool" where
  "launches prog clap env mc \<longleftrightarrow>
     (\<forall>av role x mc' s. clap av = Some role \<longrightarrow> main_role env role (mc\<lparr>mc_stdout := []\<rparr>) = (x, mc') \<longrightarrow> process_status x = Some s
        \<longrightarrow> prog av = (Exited s, mc_stdout mc'))"

lemma main_link:
  assumes "parse_pubkey (parse_key (ce_codec env)) w = Inr nid"
  shows "main_role env (RoleLink w False None False) mc
      = (Inr Finished, mc\<lparr>mc_stdout := mc_stdout mc @ link_lines (derive (ce_sha env) nid)\<rparr>)"
    and "main_role env (RoleLink w False (Some dev) False) mc
      = (Inr Finished, mc\<lparr>mc_stdout := mc_stdout mc @ hostapd_conf (derive (ce_sha env) nid) dev\<rparr>)"
  using assms by (simp_all add: show_link_def print_def io_bind_def Let_def)

text \<open>C12. The programs of the boot image agree with the controller: from the controller's node id on
  the kernel command line, process 1 hosts the network that the controller derives and joins, and
  the agent it starts dials the controller with that id at exactly the address and port the
  controller derives for itself, over no relay, with the key that is kept in \<open>/agent.key\<close>.\<close>

theorem access_point_agent:
  assumes "\<And>x. length (ce_sha env x) = 32" and "arg cmdline ''egdod.controller'' = Some c"
    and "parse_pubkey (parse_key (ce_codec env)) (dup_word c) = Inr nid" and "wireless \<noteq> []" and "newline \<notin> set wireless"
    and "clap_reads clap (dup_word c) (SocketV4 (lk_controller (derive (ce_sha env) nid)) (lk_port (derive (ce_sha env) nid)))"
    and "launches prog clap env mc"
  shows "\<exists>ap role. ap_link_of prog cmdline wireless = Some ap
    \<and> field (ap_conf ap) ''ssid'' 64 = Some (lk_ssid (derive (ce_sha env) nid))
    \<and> field (ap_conf ap) ''wpa_psk'' 65 = Some (lk_psk (derive (ce_sha env) nid))
    \<and> ap_target ap = show_v4 (lk_target (derive (ce_sha env) nid)) \<and> ap_mask ap = 0xffff0000
    \<and> clap (agent_argv cmdline AP (ap_dial ap)) = Some role
    \<and> main_role env role mc = (Inr (Dialling \<lparr>cfg_controller = nid, cfg_key_file = path_of ''/agent.key'', cfg_relay = Disabled,
        cfg_direct = [SocketV4 (lk_controller (derive (ce_sha env) nid)) (lk_port (derive (ce_sha env) nid))]\<rparr>), mc)"
proof -
  let ?l = "derive (ce_sha env) nid" and ?w = "dup_word c"
  have wf: "link_wf ?l" by (rule derive_wf) (rule assms(1))
  have runs: "prog av = (Exited 0, t)" if "clap av = Some role" "main_role env role (mc\<lparr>mc_stdout := []\<rparr>) = (Inr Finished, mc')"
      "mc_stdout mc' = t" for av role mc' t
    using assms(7) that unfolding launches_def by (metis process_status.simps(2))
  have lines: "prog [''/egdod'', ''link'', ?w] = (Exited 0, link_lines ?l)"
    using assms(6) by (intro runs [OF _ main_link(1) [OF assms(3)]]) (simp_all add: clap_reads_def)
  have conf: "prog [''/egdod'', ''link'', ?w, ''--hostapd'', dev] = (Exited 0, hostapd_conf ?l dev)" for dev
    using assms(6) by (intro runs [OF _ main_link(2) [OF assms(3)]]) (simp_all add: clap_reads_def)
  obtain ap where ap: "ap_link_of prog cmdline wireless = Some ap" "ap_target ap = show_v4 (lk_target ?l)" "ap_mask ap = 0xffff0000"
    "field (ap_conf ap) ''ssid'' 64 = Some (lk_ssid ?l)" "field (ap_conf ap) ''wpa_psk'' 65 = Some (lk_psk ?l)"
    "agent_argv cmdline AP (ap_dial ap) =
        [''/egdod'', ''agent'', ''--controller'', ?w, ''--key-file'', ''/agent.key'', ''--no-relay'', ''--direct'',
         show_SocketAddr (SocketV4 (lk_controller ?l) (lk_port ?l))]"
    using wf assms(2,4) lines conf assms(5) by (rule access_point_reads)
  let ?role = "RoleAgent \<lparr>aa_controller = ?w, aa_key_file = path_of ''/agent.key'', aa_relay = [], aa_no_relay = True,
      aa_direct = [SocketV4 (lk_controller ?l) (lk_port ?l)]\<rparr>"
  have "clap (agent_argv cmdline AP (ap_dial ap)) = Some ?role" using assms(6) unfolding ap(6) clap_reads_def by blast
  moreover have "main_role env ?role mc = (Inr (Dialling \<lparr>cfg_controller = nid,
        cfg_key_file = path_of ''/agent.key'', cfg_relay = Disabled, cfg_direct = [SocketV4 (lk_controller ?l) (lk_port ?l)]\<rparr>), mc)"
    using assms(3) by (simp add: from_flags_def io_ok_def io_bind_def)
  ultimately show ?thesis using ap by blast
qed

definition demo_clap :: "SocketAddr \<Rightarrow> string list \<Rightarrow> Role option" where
  "demo_clap a av =
     (case av of
        [_, _, w] \<Rightarrow> Some (RoleLink w False None False)
      | [_, _, w, _, dev] \<Rightarrow> Some (RoleLink w False (Some dev) False)
      | [_, _, _, w, _, k, _, _, _] \<Rightarrow>
          Some (RoleAgent \<lparr>aa_controller = w, aa_key_file = path_of k, aa_relay = [], aa_no_relay = True, aa_direct = [a]\<rparr>)
      | _ \<Rightarrow> None)"

definition demo_prog :: "cli_env \<Rightarrow> (string list \<Rightarrow> Role option) \<Rightarrow> string list \<Rightarrow> ExitStatus \<times> string" where
  "demo_prog env clap av =
     (case clap av of
        None \<Rightarrow> (Exited 2, [])
      | Some role \<Rightarrow>
          (case main_role env role (demo_machine\<lparr>mc_stdout := []\<rparr>) of (x, mc') \<Rightarrow> (Exited (the (process_status x)), mc_stdout mc')))"

theorem access_point_agent_witness:
  "\<exists>a ap. ap_link_of (demo_prog demo_exec_env (demo_clap a)) ''quiet egdod.controller=ab'' ''wlan0'' = Some ap
    \<and> ap_mask ap = 0xffff0000 \<and> demo_clap a (agent_argv ''quiet egdod.controller=ab'' AP (ap_dial ap)) \<noteq> None"
proof -
  let ?l = "derive (ce_sha demo_exec_env) (as_bytes ''ab'')"
  let ?a = "SocketV4 (lk_controller ?l) (lk_port ?l)"
  have a: "arg ''quiet egdod.controller=ab'' ''egdod.controller'' = Some ''ab''" by code_simp
  have w: "dup_word ''ab'' = ''ab''" by code_simp
  have k: "parse_pubkey (parse_key (ce_codec demo_exec_env)) (dup_word ''ab'') = Inr (as_bytes ''ab'')"
    unfolding w by (simp add: demo_env_def text_keys_def parse_pubkey_def)
  have n: "newline \<notin> set ''wlan0''" by (simp add: control_chars)
  have reads: "clap_reads (demo_clap ?a) (dup_word ''ab'') ?a" by (simp add: clap_reads_def demo_clap_def)
  have runs: "launches (demo_prog demo_exec_env (demo_clap ?a)) (demo_clap ?a) demo_exec_env demo_machine"
    by (simp add: launches_def demo_prog_def)
  have "length (ce_sha demo_exec_env x) = 32" for x by (simp add: demo_env_def)
  from access_point_agent [OF this a k _ n reads runs] show ?thesis by (intro exI [of _ ?a]) auto
qed

end
