(* ===== verification/Confinement.thy ===== *)
theory Confinement
  imports Cli
begin

text \<open>
  Where a controller writes.  \<open>src/state.rs\<close> and \<open>src/main.rs\<close> promise that all the state of a
  controller lives in its state directory; this theory follows every command of \<open>main.rs\<close> down to
  the calls on the file system and shows it.  The relation \<open>inside S\<close> says that a step writes to
  paths of \<open>S\<close> only and plants no symbolic link there, as long as there is none.
\<close>

section \<open>Staying inside a set of paths\<close>

definition link_free :: "path set \<Rightarrow> world \<Rightarrow> bool" where
  "link_free S w \<longleftrightarrow> (\<forall>p \<in> S. \<forall>q. nodes w p \<noteq> Some (Symlink q))"

definition inside :: "path set \<Rightarrow> world \<Rightarrow> world \<Rightarrow> bool" where
  "inside S w w' \<longleftrightarrow> (link_free S w \<longrightarrow> touches S w w' \<and> link_free S w')"

text \<open>The same of a state that holds the disk.\<close>

definition along :: "('s \<Rightarrow> world) \<Rightarrow> path set \<Rightarrow> 's \<Rightarrow> 's \<Rightarrow> bool" where
  "along f S s s' \<longleftrightarrow> inside S (f s) (f s')"

lemma inside_order [simp, intro]: "inside S w w" "reflp (inside S)" "transp (inside S)"
  by (auto simp: inside_def reflp_def transp_def intro: touches_trans)

lemma along_order [simp, intro]: "reflp (along f S)" "transp (along f S)"
  using inside_order(3) [of S] by (auto simp: along_def reflp_def transp_def)

lemma still_inside: "touches {} w w' \<Longrightarrow> inside S w w'"
  using touches_nodes [of "{}" w w'] touches_mono [of "{}" w w' S] by (auto simp: inside_def link_free_def)

lemma inside_trans: "inside S u v \<Longrightarrow> inside S v w \<Longrightarrow> inside S u w"
  using inside_order(3) [of S] by (meson transpD)

lemma tick_inside: "inside S w (next_tick w)"
  by (rule still_inside) simp

lemma reads_inside: "io_respects (touches {}) m \<Longrightarrow> io_respects (inside S) m"
  by (auto simp: io_respects_def intro: still_inside)

lemma fs_call_inside: "(\<And>v r v'. f v = (r, v') \<Longrightarrow> inside S v v') \<Longrightarrow> io_respects (inside S) (fs_call f)"
proof (rule io_respectsI)
  fix w r w' assume f: "\<And>v r v'. f v = (r, v') \<Longrightarrow> inside S v v'" and "fs_call f w = (r, w')"
  from this(2) show "inside S w w'"
  proof (cases rule: fs_call_cases)
    case served
    from inside_trans [OF tick_inside f [OF served(2)]] show ?thesis .
  qed (simp add: tick_inside)
qed

lemma put_node_inside: "p \<in> S \<Longrightarrow> (\<And>q. n \<noteq> Some (Symlink q)) \<Longrightarrow> inside S w (put_node p n w)"
  by (auto simp: inside_def link_free_def intro: touches_put_node)

lemma create_new_inside: "p \<in> S \<Longrightarrow> io_respects (inside S) (create_new p m)"
  unfolding create_new_def by (rule fs_call_inside) (auto split: if_splits intro: put_node_inside)

lemma write_all_inside: "p \<in> S \<Longrightarrow> io_respects (inside S) (write_all p b)"
proof (rule io_respectsI)
  fix w r w' assume "p \<in> S" and "write_all p b w = (r, w')"
  then have "w' = next_tick w \<or> (\<exists>n. (\<forall>q. n \<noteq> Some (Symlink q)) \<and> w' = put_node p n (next_tick w))"
    by (auto simp: write_all_def split: option.splits node.splits)
  with \<open>p \<in> S\<close> put_node_inside [of p S _ "next_tick w"] show "inside S w w'"
    using tick_inside inside_trans by metis
qed

lemma remove_file_inside: "p \<in> S \<Longrightarrow> io_respects (inside S) (remove_file p)"
  unfolding remove_file_def by (rule fs_call_inside) (auto split: option.splits node.splits intro: put_node_inside)

lemma make_dir_inside: "p \<in> S \<Longrightarrow> io_respects (inside S) (make_dir p)"
  unfolding make_dir_def by (rule fs_call_inside) (auto split: if_splits intro: put_node_inside)

lemma rename_inside: "p \<in> S \<Longrightarrow> q \<in> S \<Longrightarrow> io_respects (inside S) (rename p q)"
  unfolding rename_def
  by (rule fs_call_inside) (auto split: option.splits node.splits if_splits simp: inside_def link_free_def intro!: touches_put_nodes)

lemma remove_dir_all_inside:
  assumes "\<And>q. take (length p) q = p \<Longrightarrow> q \<in> S"
  shows "io_respects (inside S) (remove_dir_all p)"
  unfolding remove_dir_all_def using assms [of p]
  by (intro fs_call_inside)
    (auto split: option.splits node.splits simp: inside_def link_free_def intro: assms intro!: touches_put_nodes touches_put_node)

lemma follow_inside: "link_free S w \<Longrightarrow> p \<in> S \<Longrightarrow> follow (nodes w) p = Some p"
  by (auto simp: link_free_def intro!: follow_self)

lemma with_mode_link [simp]: "with_mode n m = Symlink q \<longleftrightarrow> n = Symlink q"
  by (cases n) auto

lemma set_permissions_inside: "p \<in> S \<Longrightarrow> io_respects (inside S) (set_permissions p m)"
  unfolding set_permissions_def
proof (rule fs_call_inside)
  fix v r v' assume "p \<in> S"
    and run: "(case follow (nodes v) p of None \<Rightarrow> (Inl eloop, v)
      | Some q \<Rightarrow> (case nodes v q of None \<Rightarrow> (Inl enoent, v)
         | Some n \<Rightarrow> (Inr (), put_node q (Some (with_mode n (and m 4095))) v))) = (r, v')"
  show "inside S v v'"
    unfolding inside_def
  proof
    assume free: "link_free S v"
    with run \<open>p \<in> S\<close> have "inside S v v'"
      by (auto simp: follow_inside link_free_def split: option.splits intro!: put_node_inside)
    with free show "touches S v v' \<and> link_free S v'" by (simp add: inside_def)
  qed
qed

lemma open_truncate_inside: "p \<in> S \<Longrightarrow> open_truncate p w = (r, w') \<Longrightarrow> link_free S w \<Longrightarrow> inside S w w' \<and> (\<forall>q. r = Inr q \<longrightarrow> q = p)"
proof -
  assume p: "p \<in> S" and run: "open_truncate p w = (r, w')" and free: "link_free S w"
  from free p have f: "follow (nodes (next_tick w)) p = Some p" by (simp add: follow_inside)
  from run f have "w' = next_tick w \<or> (\<exists>n. (\<forall>q. n \<noteq> Some (Symlink q)) \<and> w' = put_node p n (next_tick w))"
    and "\<forall>q. r = Inr q \<longrightarrow> q = p"
    by (auto simp: open_truncate_def fs_call_def split: option.splits node.splits if_splits)
  with p put_node_inside [of p S _ "next_tick w"] show ?thesis
    using tick_inside inside_trans by metis
qed

lemma fs_write_inside: "p \<in> S \<Longrightarrow> io_respects (inside S) (fs_write p b)"
proof (rule io_respectsI)
  fix w r w' assume p: "p \<in> S" and run: "fs_write p b w = (r, w')"
  show "inside S w w'"
    unfolding inside_def
  proof
    assume free: "link_free S w"
    from run have "inside S w w'" unfolding fs_write_def
    proof (cases rule: io_bind_cases)
      case (fails e)
      from open_truncate_inside [OF p fails(1) free] show ?thesis by simp
    next
      case (continues q w1)
      from open_truncate_inside [OF p continues(1) free] have "inside S w w1" "q = p" by auto
      with io_respectsD [OF write_all_inside [OF p]] continues(2) inside_trans show ?thesis by metis
    qed
    with free show "touches S w w' \<and> link_free S w'" by (simp add: inside_def)
  qed
qed

lemma make_dirs_inside: "set ps \<subseteq> S \<Longrightarrow> io_respects (inside S) (make_dirs ps)"
  by (induction ps) (auto intro!: io_respects_bind make_dir_inside)

lemma create_dir_all_inside: "set (ancestors p) \<subseteq> S \<Longrightarrow> io_respects (inside S) (create_dir_all p)"
  unfolding create_dir_all_def by (rule make_dirs_inside)

lemmas inside_reads = handle_call_touches [THEN reads_inside] read_bytes_touches [THEN reads_inside]
  open_read_touches [THEN reads_inside] metadata_touches [THEN reads_inside] read_to_string_touches [THEN reads_inside]
  getrandom_touches [THEN reads_inside] path_exists_touches [THEN reads_inside] now_unix_touches [THEN reads_inside]

lemmas inside_calls = create_new_inside write_all_inside remove_file_inside make_dir_inside rename_inside
  set_permissions_inside fs_write_inside create_dir_all_inside

lemmas inside_steps = io_respects_bind io_respects_catch io_respects_context io_respects_if io_respects_lift io_respects_ok
  inside_order along_order

section \<open>The state directory\<close>

definition state_area :: "path \<Rightarrow> path set" where
  "state_area d = {p. take (length d) p = d} \<union> set (ancestors d)"

lemma state_area_below: "d @ p \<in> state_area d" "set (ancestors d) \<subseteq> state_area d"
  by (auto simp: state_area_def)

lemma state_area_self: "d \<in> state_area d"
  using state_area_below(1) [of d "[]"] by simp

lemma ancestors_append: "set (ancestors (d @ p)) \<subseteq> state_area d"
proof
  fix q assume "q \<in> set (ancestors (d @ p))"
  then obtain n where "q = take (Suc n) (d @ p)" by (auto simp: ancestors_def)
  then show "q \<in> state_area d"
    by (cases "n < length d") (auto simp: state_area_def ancestors_def take_append)
qed

lemma unique_tmp_below: "unique_tmp k (d @ p @ [Normal n]) \<in> state_area d"
proof -
  have "unique_tmp k ((d @ p) @ [Normal n]) = d @ p @ [Normal (n @ ''.tmp.'' @ dec (unat k))]"
    by (simp only: unique_tmp_def with_file_name_eq file_name_snoc) simp
  then show ?thesis using state_area_below(1) by (metis append.assoc)
qed

lemma part_names_below: "part_names (d @ p @ [Normal n]) \<subseteq> state_area d"
  using state_area_below(1) [of d]
  by (auto simp: part_names_def part_name_def with_file_name_eq [of "d @ p" n, simplified])

lemma write_atomic_inside:
  assumes "p \<in> S" and "\<And>k. unique_tmp k p \<in> S"
  shows "io_respects (inside S) (write_atomic p b)"
proof -
  have "io_respects (inside S)
    (io_bind (io_context (fmt [''writing '', show_path t]) (fs_write t b)) (\<lambda>_.
      io_context (fmt [''renaming into '', show_path p]) (rename t p)))" if "t \<in> S" for t
    by (intro inside_steps inside_calls that assms(1))
  from this [OF assms(2)] show ?thesis unfolding io_respects_def write_atomic_def Let_def by blast
qed

lemma write_private_inside:
  assumes "p \<in> S" and "\<And>k. unique_tmp k p \<in> S"
  shows "io_respects (inside S) (write_private p b)"
proof -
  have "io_respects (inside S)
     (io_bind (io_context (fmt [''creating '', show_path t]) (create_new t 384)) (\<lambda>_.
      io_bind (io_context ''writing key'' (write_all t b)) (\<lambda>_.
      io_bind (io_context ''flushing key'' (handle_call ())) (\<lambda>_.
      io_context (fmt [''renaming into '', show_path p]) (rename t p)))))" if "t \<in> S" for t
    by (intro inside_steps inside_calls inside_reads that assms(1))
  from this [OF assms(2)] show ?thesis unfolding io_respects_def write_private_def Let_def by blast
qed

lemma ensure_state_inside: "state_area (root st) \<subseteq> S \<Longrightarrow> io_respects (inside S) (ensure_state st)"
  unfolding ensure_state_def restrict_dir_def
  using state_area_below(2) [of "root st"] state_area_self [of "root st"]
  by (intro inside_steps inside_calls) blast+

lemma read_key_inside: "io_respects (inside S) (read_key from_bytes p)"
  by (rule reads_inside) (rule read_key_touches)

lemma load_key_inside: "io_respects (inside S) (load_key from_bytes st)"
  by (rule reads_inside) (rule load_key_touches)

lemma load_or_create_key_inside:
  assumes "state_area (root st) \<subseteq> S"
  shows "io_respects (inside S) (load_or_create_key from_bytes (key_path st) u)"
proof -
  have k: "key_path st \<in> S" "unique_tmp n (key_path st) \<in> S" for n
    using assms state_area_below(1) [of "root st"] unique_tmp_below [of n "root st" "[]"] by (auto simp: key_path_def join_def)
  have "make_parent (key_path st) = (if root st = [] then io_ok () else make_parent (key_path st))"
    by (simp add: make_parent_def parent_path_def key_path_def join_def)
  moreover have "io_respects (inside S) (make_parent (key_path st))" if "root st \<noteq> []"
    using that assms state_area_below(2) [of "root st"] state_area_self [of "root st"]
    unfolding make_parent_def restrict_dir_def
    by (auto simp: parent_path_def key_path_def join_def intro!: inside_steps inside_calls inside_reads)
  ultimately have m: "io_respects (inside S) (make_parent (key_path st))" by (metis io_respects_ok inside_order(2))
  show ?thesis
    unfolding load_or_create_key_def create_key_def
    by (intro inside_steps read_key_inside)
      (auto split: sum.splits option.splits intro!: inside_steps inside_reads m write_private_inside k)
qed

lemma write_pending_inside:
  assumes "state_area (root st) \<subseteq> S"
  shows "io_respects (inside S) (write_pending c st l)"
  unfolding write_pending_def
  using assms state_area_below(1) [of "root st"] unique_tmp_below [of _ "root st" "[]"]
  by (auto simp: pending_path_def join_def intro!: inside_steps write_atomic_inside)

lemma approve_inside:
  assumes "state_area (root st) \<subseteq> S"
  shows "io_respects (inside S) (approve c st key)"
proof -
  have p: "approved_path st \<in> S" "unique_tmp n (approved_path st) \<in> S" for n
    using assms state_area_below(1) [of "root st"] unique_tmp_below [of n "root st" "[]"] by (auto simp: approved_path_def join_def)
  have "io_respects (inside S) (pending c st)" by (rule reads_inside) (rule pending_touches)
  then have "io_respects (inside S) (forget_pending c st key)"
    unfolding forget_pending_def Let_def by (intro inside_steps write_pending_inside assms)
  moreover have "io_respects (inside S) (approved c st)" by (rule reads_inside) (rule approved_touches)
  ultimately show ?thesis
    unfolding approve_def Let_def
    by (intro inside_steps ensure_state_inside assms inside_reads write_atomic_inside p)
qed

lemma state_cmds_inside:
  assumes "state_area (root st) \<subseteq> S"
  shows "io_respects (inside S) (init_cmd c from_bytes public st)" "io_respects (inside S) (pending_cmd c st json)"
    "io_respects (inside S) (approve_cmd c st key)" "io_respects (inside S) (status_cmd c st json)"
proof -
  show "io_respects (inside S) (init_cmd c from_bytes public st)"
    unfolding init_cmd_def init_key_def by (intro inside_steps ensure_state_inside load_or_create_key_inside assms)
  have "io_respects (inside S) (pending c st)" by (rule reads_inside) (rule pending_touches)
  then show "io_respects (inside S) (pending_cmd c st json)" unfolding pending_cmd_def by (intro inside_steps)
  show "io_respects (inside S) (approve_cmd c st key)" unfolding approve_cmd_def by (intro inside_steps approve_inside assms)
  show "io_respects (inside S) (status_cmd c st json)"
    unfolding status_cmd_def read_status_def writer_alive_def Let_def by (intro inside_steps inside_reads)
qed

section \<open>Streams and files\<close>

lemma hash_loop_inside: "io_respects (inside S) (hash_loop cs h n)"
  by (induction cs arbitrary: h n) (auto intro!: inside_steps inside_reads)

lemma stat_and_hash_inside: "io_respects (inside S) (stat_and_hash sha p)"
  unfolding stat_and_hash_def
  by (intro inside_steps inside_reads) (auto split: node.splits prod.splits intro!: inside_steps hash_loop_inside)

lemma on_snd_inside: "io_respects (inside S) m \<Longrightarrow> io_respects (along snd S) (on_snd m)"
  by (auto simp: io_respects_def along_def on_snd_def split: prod.splits)

lemma on_fst_inside: "io_respects (along snd S) (on_fst m)"
  by (auto simp: io_respects_def along_def on_fst_def split: prod.splits)

lemma send_loop_inside: "io_respects (along snd S) (send_loop cs)"
  by (induction cs) (auto intro!: inside_steps on_snd_inside on_fst_inside inside_reads)

lemma send_file_body_inside: "io_respects (along snd S) (send_file_body p)"
  unfolding send_file_body_def
  by (intro inside_steps on_snd_inside inside_reads) (auto split: node.splits intro!: inside_steps send_loop_inside)

lemma try_part_inside:
  "(\<And>nonce. length nonce = 8 \<Longrightarrow> part_name dest base nonce \<in> S) \<Longrightarrow> io_respects (inside S) (try_part n dest base)"
proof (rule io_respectsI)
  fix w r w' assume names: "\<And>nonce. length nonce = 8 \<Longrightarrow> part_name dest base nonce \<in> S" and "try_part n dest base w = (r, w')"
  from try_part_result [OF this(2)] show "inside S w w'"
  proof (elim disjE exE conjE)
    fix nonce w0 assume "length nonce = 8" "touches {} w w0" "create_new (part_name dest base nonce) 384 w0 = (Inr (), w')"
    with io_respectsD [OF create_new_inside [OF names]] inside_trans still_inside show ?thesis by metis
  qed (auto intro: still_inside)
qed

lemma tokio_write_inside:
  assumes "p \<in> S" and "tokio_write p b st w = (x, st', w')"
  shows "inside S w w'"
proof (cases st)
  case None
  obtain y w1 where wr: "write_all p b w = (y, w1)" by (metis prod.exhaust)
  with assms(2) None have "w' = w1" by (auto simp: tokio_write_def split: sum.splits error.splits)
  with io_respectsD [OF write_all_inside [OF assms(1)] wr] show ?thesis by simp
qed (use assms(2) in \<open>auto simp: tokio_write_def\<close>)

lemma body_loop_inside:
  assumes "body_loop tmp len h got st r w = ((outcome, h', got', st'), r', w')" and "tmp \<in> S"
  shows "inside S w w'"
  using assms(1)
proof (induction "length (arriving r)" arbitrary: h got st r w rule: less_induct)
  case less
  from less.prems show ?case
  proof (cases rule: body_loop_cases)
    case (unwritten b e e')
    from tokio_write_inside [OF assms(2) unwritten(2)] show ?thesis .
  next
    case (more b r1 st1 w1)
    from more(1,3) have "length (arriving r1) < length (arriving r)" by simp
    from inside_trans [OF tokio_write_inside [OF assms(2) more(6)] less.hyps [OF this more(7)]] show ?thesis .
  qed simp_all
qed


lemma land_inside: "tmp \<in> S \<Longrightarrow> dest \<in> S \<Longrightarrow> io_respects (inside S) (land tmp dest mode)"
  unfolding land_def set_mode_def
  by (intro inside_steps inside_calls) (auto split: sum.splits intro!: inside_steps inside_calls)

lemma receive_inside:
  assumes "tmp \<in> S" and "dest \<in> S"
  shows "io_respects (along snd S) (\<lambda>(r, w).
        case body_loop tmp len [] 0 None r w of
          ((outcome, h, got, st), r', w1) \<Rightarrow>
            (case flush_and_sync st w1 of
               (flushed, w2) \<Rightarrow>
                 (case body_verdict sha len sha256 outcome flushed h got of
                    Inl e \<Rightarrow> (case remove_file tmp w2 of (_, w3) \<Rightarrow> (Inl e, (r', w3)))
                  | Inr _ \<Rightarrow> (case land tmp dest mode w2 of (x, w3) \<Rightarrow> (x, (r', w3))))))"
proof (rule io_respectsI, clarify)
  fix r w x r' w'
  obtain outcome h got st r1 w1 where 1: "body_loop tmp len [] 0 None r w = ((outcome, h, got, st), r1, w1)" by (metis prod.exhaust)
  obtain flushed w2 where 2: "flush_and_sync st w1 = (flushed, w2)" by (metis prod.exhaust)
  obtain y w3 where 3: "remove_file tmp w2 = (y, w3)" by (metis prod.exhaust)
  obtain z w4 where 4: "land tmp dest mode w2 = (z, w4)" by (metis prod.exhaust)
  assume "(case body_loop tmp len [] 0 None r w of
          ((outcome, h, got, st), r', w1) \<Rightarrow>
            (case flush_and_sync st w1 of
               (flushed, w2) \<Rightarrow>
                 (case body_verdict sha len sha256 outcome flushed h got of
                    Inl e \<Rightarrow> (case remove_file tmp w2 of (_, w3) \<Rightarrow> (Inl e, (r', w3)))
                  | Inr _ \<Rightarrow> (case land tmp dest mode w2 of (x, w3) \<Rightarrow> (x, (r', w3)))))) = (x, r', w')"
  then have "w' = w3 \<or> w' = w4" using 1 2 3 4 by (auto split: sum.splits)
  moreover have "inside S w w1" by (rule body_loop_inside [OF 1 assms(1)])
  moreover have "inside S w1 w2" using io_respectsD [OF reads_inside [OF flush_and_sync_touches] 2] .
  moreover have "inside S w2 w3" using io_respectsD [OF remove_file_inside [OF assms(1)] 3] .
  moreover have "inside S w2 w4" using io_respectsD [OF land_inside [OF assms] 4] .
  ultimately show "along snd S (r, w) (r', w')" unfolding along_def by (auto intro: inside_trans)
qed

lemma recv_file_body_inside:
  assumes "dest \<in> S" and "dir_names dest \<subseteq> S" and "part_names dest \<subseteq> S"
  shows "io_respects (along snd S) (recv_file_body sha dest len sha256 mode lim)"
proof -
  have free: "io_respects (inside S) (ensure_free_space d n)" for d n
    by (rule reads_inside) (rule ensure_free_space_touches)
  have part: "io_respects (inside S) (create_part_file dest)"
    unfolding create_part_file_def using assms(3)
    by (auto simp: part_names_def split: option.splits intro!: inside_steps try_part_inside)
  have "tmp \<in> S" if "on_snd (create_part_file dest) s = (Inr tmp, t)" for s tmp t
    using that create_part_file_Inr(1) assms(3) by (auto simp: on_snd_def split: prod.splits)
  then have rest: "io_respects (along snd S) (io_bind (on_snd (create_part_file dest)) (\<lambda>tmp (r, w).
        case body_loop tmp len [] 0 None r w of
          ((outcome, h, got, st), r', w1) \<Rightarrow>
            (case flush_and_sync st w1 of
               (flushed, w2) \<Rightarrow>
                 (case body_verdict sha len sha256 outcome flushed h got of
                    Inl e \<Rightarrow> (case remove_file tmp w2 of (_, w3) \<Rightarrow> (Inl e, (r', w3)))
                  | Inr _ \<Rightarrow> (case land tmp dest mode w2 of (x, w3) \<Rightarrow> (x, (r', w3)))))))"
    by (intro io_respects_bind_result along_order on_snd_inside part receive_inside assms(1))
  have mk: "io_respects (inside S) (io_context c (create_dir_all (body_dir dest)))" for c
    by (intro inside_steps create_dir_all_inside assms(2))
  note lift = io_respects_bind [OF along_order(2) io_respects_lift [OF along_order(1)]]
    and call = io_respects_bind [OF along_order(2) on_snd_inside]
  show ?thesis unfolding recv_file_body_def Let_def by (rule lift, rule lift, rule call [OF mk], rule call [OF free], rule rest)
qed

section \<open>The commands of a session\<close>

lemma via_inside:
  "io_respects (along dx_world S) (via_send m)" "io_respects (along dx_world S) (via_recv n)"
  "io_respects (inside S) d \<Longrightarrow> io_respects (along dx_world S) (via_world d)"
  "io_respects (along snd S) u \<Longrightarrow> io_respects (along dx_world S) (via_send_world u)"
  "io_respects (along snd S) v \<Longrightarrow> io_respects (along dx_world S) (via_recv_world v)"
  by (auto simp: io_respects_def along_def via_send_def via_recv_def via_world_def via_send_world_def via_recv_world_def split: prod.splits)

lemma route_inside: "io_respects (along dx_world S) (route pc dial st agent)"
proof (rule io_respectsI)
  fix s x s' assume run: "route pc dial st agent s = (x, s')"
  show "along dx_world S s s'"
  proof (cases "dial (sock_path st)")
    case (Inr rw)
    obtain r w where rw: "rw = (r, w)" by (cases rw)
    have "io_respects (along dx_world S)
      (io_bind (via_send (write_msg (enc_route pc) (Route agent))) (\<lambda>_.
       io_bind (via_recv (read_msg (dec_reply pc))) (\<lambda>reply.
          case reply of
            RouteErr e \<Rightarrow> io_lift (Inl (Msg e))
          | RouteOk agent' p remote \<Rightarrow>
              io_ok (fmt [''egdod: session with '', agent', '' via '', show_PathKind p, '' ('', remote, '')'']))))"
      by (intro inside_steps via_inside) (auto split: RouteReply.splits intro!: inside_steps)
    from io_respectsD [OF this] run Inr rw show ?thesis by (fastforce simp: route_def along_def)
  qed (use run in \<open>auto simp: route_def along_def\<close>)
qed

lemma on_fst_along: "io_respects (along dx_world S) m \<Longrightarrow> io_respects (along (\<lambda>st. dx_world (fst st)) S) (on_fst m)"
  by (auto simp: io_respects_def along_def on_fst_def split: prod.splits)

lemma exec_into_inside: "io_respects (along (\<lambda>st. dx_world (fst st)) S) (exec_into pc dial st agent argv lim)"
  unfolding exec_into_def
  by (intro inside_steps on_fst_along route_inside via_inside)
    (auto simp: io_respects_def along_def via_output_def split: prod.splits)

lemma exec_capture_inside: "io_respects (along dx_world S) (exec_capture pc dial st agent argv lim)"
proof (rule io_respectsI)
  fix s x s' assume run: "exec_capture pc dial st agent argv lim s = (x, s')"
  obtain y s1 t where ex: "exec_into pc dial st agent argv lim (s, \<lparr>out = fresh_sink, err = fresh_sink, warned = False\<rparr>) = (y, (s1, t))"
    by (metis prod.exhaust)
  with run have "s' = s1" by (auto simp: exec_capture_def split: sum.splits)
  with io_respectsD [OF exec_into_inside ex, of S] show "along dx_world S s s'" by (simp add: along_def)
qed

lemma push_file_inside: "io_respects (along dx_world S) (push_file pc sha dial st agent local remote)"
  unfolding push_file_def
  by (auto split: prod.splits Ack.splits intro!: inside_steps via_inside route_inside stat_and_hash_inside send_file_body_inside)

lemma pull_file_inside:
  assumes "local \<in> S" and "dir_names local \<subseteq> S" and "part_names local \<subseteq> S"
  shows "io_respects (along dx_world S) (pull_file pc sha dial st agent remote local lim)"
  unfolding pull_file_def using assms
  by (auto split: PullStart.splits intro!: inside_steps via_inside route_inside recv_file_body_inside)

lemma below_names:
  assumes "state_area d \<subseteq> S" and "d @ p \<noteq> []"
  shows "d @ p @ [Normal n] \<in> S" "dir_names (d @ p @ [Normal n]) \<subseteq> S" "part_names (d @ p @ [Normal n]) \<subseteq> S"
proof -
  have "body_dir (d @ p @ [Normal n]) = d @ p" using assms(2) by (simp add: body_dir_def parent_path_def butlast_append)
  then show "dir_names (d @ p @ [Normal n]) \<subseteq> S" using ancestors_append [of d p] assms(1) by auto
qed (use assms(1) state_area_below(1) [of d] part_names_below [of d p n] in auto)

section \<open>The ssh recipe\<close>

lemma file_reader_inside: "io_respects (inside S) (file_reader n)"
  by (rule io_respectsI) (auto simp: file_reader_def tick_inside split: node.splits option.splits)

lemma merge_into_inside:
  assumes "p \<in> S"
  shows "io_respects (inside S) (merge_into p existing blob line)"
proof -
  have "io_respects (along snd S) (merge_authorized_keys (file_put p) file_flush existing blob line)"
  proof (rule merge_respects)
    show "io_respects (along snd S) (file_put p b)" for b
      using tokio_write_inside [OF assms] by (fastforce simp: io_respects_def along_def file_put_def split: prod.splits)
    show "io_respects (along snd S) file_flush"
      by (auto simp: io_respects_def along_def file_flush_def tokio_flush_def tick_inside dest!: handle_call_world
          split: prod.splits option.splits)
  qed simp_all
  from io_respectsD [OF this] show ?thesis by (force simp: io_respects_def along_def merge_into_def split: prod.splits)
qed

lemma install_authorized_key_inside:
  assumes "state_area d \<subseteq> S" and "scratch = d @ p" and "scratch \<noteq> []"
  shows "io_respects (along dx_world S) (install_authorized_key pc sha dials st cfg blob line scratch)"
proof -
  have j: "join scratch n = d @ p @ [Normal n]" for n by (simp add: join_def assms(2))
  have dp: "d @ p \<noteq> []" using assms by simp
  show ?thesis
    unfolding install_authorized_key_def Let_def j
    by (intro inside_steps via_inside pull_file_inside push_file_inside create_new_inside merge_into_inside below_names [OF assms(1) dp])
      (auto split: Pulled.splits intro!: inside_steps via_inside inside_reads file_reader_inside)
qed

lemma read_host_key_inside:
  assumes "state_area d \<subseteq> S" and "scratch = d @ p" and "scratch \<noteq> []"
  shows "io_respects (along dx_world S) (read_host_key pc sha dial st cfg scratch)"
proof -
  have j: "join scratch n = d @ p @ [Normal n]" for n by (simp add: join_def assms(2))
  have dp: "d @ p \<noteq> []" using assms by simp
  show ?thesis
    unfolding read_host_key_def Let_def j
    by (intro io_respects_bind along_order pull_file_inside below_names [OF assms(1) dp])
      (auto split: Pulled.splits list.splits intro!: inside_steps via_inside inside_reads file_reader_inside)
qed

lemma fetch_host_key_inside:
  assumes "state_area d \<subseteq> S" and "scratch = d @ p" and "scratch \<noteq> []"
  shows "io_respects (along dx_world S) (fetch_host_key pc sha dials st cfg scratch)"
  unfolding fetch_host_key_def
  by (auto split: option.splits prod.splits intro!: inside_steps read_host_key_inside [OF assms] exec_capture_inside)

lemma ensure_sshd_inside: "io_respects (along dx_world S) (ensure_sshd pc dial answers st cfg)"
  unfolding ensure_sshd_def
  by (auto split: option.splits prod.splits intro!: inside_steps exec_capture_inside)

text \<open>What the recipe relies on of the local \<open>ssh-keygen\<close> and \<open>ssh\<close>: they write where they are
  told to, below the state directory.\<close>

definition spawns_inside :: "path set \<Rightarrow> spawn \<Rightarrow> bool" where
  "spawns_inside S spawn \<longleftrightarrow> (\<forall>argv. io_respects (inside S) (spawn argv))"

lemma ssh_session_inside:
  assumes "state_area (root st) \<subseteq> S" and "scratch = root st @ p" and "scratch \<noteq> []" and "spawns_inside S spawn"
  shows "io_respects (along dx_world S) (ssh_session pc sha dials spawn tcp_bind answers st cfg scratch)"
proof -
  have kh: "known_hosts_path st \<in> S"
    using assms(1) state_area_below(1) [of "root st"] by (auto simp: known_hosts_path_def ssh_dir_def join_def)
  have sp: "io_respects (inside S) (spawn argv)" for argv using assms(4) by (simp add: spawns_inside_def)
  have key: "io_respects (inside S) (ensure_local_key spawn k)" for k
    unfolding ensure_local_key_def by (intro inside_steps inside_reads sp)
  have now: "io_respects (along dx_world S) (\<lambda>s. (Inr (clock (dx_world s) (tick (dx_world s))), s\<lparr>dx_world := next_tick (dx_world s)\<rparr>))"
    by (auto simp: io_respects_def along_def tick_inside)
  have fw: "io_respects (along dx_world S) (\<lambda>s. (f s, s))" for f :: "duplex \<Rightarrow> 'b result"
    by (auto simp: io_respects_def along_def)
  show ?thesis
    unfolding ssh_session_def Let_def
    by (auto split: prod.splits intro!: inside_steps via_inside key inside_reads now fw sp fs_write_inside kh
        install_authorized_key_inside [OF assms(1-3)] fetch_host_key_inside [OF assms(1-3)] ensure_sshd_inside)
qed

lemma ssh_run_inside:
  assumes "state_area (root st) \<subseteq> S" and "spawns_inside S spawn"
  shows "io_respects (along dx_world S) (ssh_run pc sha dials spawn tcp_bind answers st cfg)"
proof -
  have body: "io_respects (along dx_world S)
    (io_catch (via_world (remove_dir_all scratch)) (\<lambda>_.
      io_bind (via_world (io_context (fmt [''creating '', show_path scratch]) (create_dir_all scratch))) (\<lambda>_.
      io_catch (ssh_session pc sha dials spawn tcp_bind answers st cfg scratch) (\<lambda>outcome.
      io_catch (via_world (remove_dir_all scratch)) (\<lambda>_.
      io_lift outcome)))))" if "scratch = root st @ p" "scratch \<noteq> []" for scratch p
  proof -
    have rm: "io_respects (inside S) (remove_dir_all scratch)"
    proof (rule remove_dir_all_inside)
      fix q assume "take (length scratch) q = scratch"
      then have "q = root st @ p @ drop (length scratch) q" using that(1) by (metis append.assoc append_take_drop_id)
      then show "q \<in> S" using state_area_below(1) assms(1) by (metis subsetD)
    qed
    have "set (ancestors scratch) \<subseteq> S" using ancestors_append [of "root st" p] assms(1) that(1) by auto
    then show ?thesis
      by (intro inside_steps via_inside rm create_dir_all_inside ssh_session_inside [OF assms(1) that assms(2)])
  qed
  show ?thesis
  proof (rule io_respectsI)
    fix s x s' assume run: "ssh_run pc sha dials spawn tcp_bind answers st cfg s = (x, s')"
    let ?n = "fmt [''scratch.'', dec (unat (pid (dx_world s)))]"
    have "join (ssh_dir st) ?n = root st @ [Normal ''ssh'', Normal ?n]" by (simp add: join_def ssh_dir_def)
    from io_respectsD [OF body [OF this]] run show "along dx_world S s s'" by (simp add: ssh_run_def Let_def join_def)
  qed
qed

section \<open>Joining a link, and Bluetooth\<close>

lemma lr_inside:
  "io_respects (inside S) m \<Longrightarrow> io_respects (along lr_world S) (lr_io m)" "io_respects (along lr_world S) (log_event e)"
  by (auto simp: io_respects_def along_def lr_io_def log_event_def split: prod.splits)

lemma ip_inside: "spawns_inside S spawn \<Longrightarrow> io_respects (along lr_world S) (ip spawn args)"
  unfolding ip_def spawns_inside_def by (intro inside_steps lr_inside) blast

lemma join_link_inside:
  assumes "state_area (root st) \<subseteq> S" and "spawns_inside S spawn"
  shows "io_respects (along lr_world S) (join_link sha from_bytes public spawn env st iface)"
proof -
  have "link_conf_path st \<in> S" using assms(1) state_area_below(1) [of "root st"] by (auto simp: link_conf_path_def join_def)
  then show ?thesis
    unfolding join_link_def Let_def
    by (intro inside_steps lr_inside load_key_inside ip_inside assms(2) inside_calls)
qed

lemma await_inside: "t_respects (along bh_world S) (await sc)"
  by (auto simp: t_respects_def along_def await_def Let_def split: option.splits)

lemma bt_call_inside: "(\<And>h. bh_world (f h) = bh_world h) \<Longrightarrow> t_respects (along bh_world S) (bt_call sc f)"
  unfolding t_respects_def along_def
  by (auto simp: bt_call_def await_def Let_def split: option.splits)

lemma t_ok_inside: "t_respects (along f S) (t_ok x)"
  by (simp add: t_respects_def t_ok_def along_def)

lemmas radio_steps = t_respects_bind t_respects_ignore t_respects_lift t_ok_inside along_order await_inside bt_call_inside

lemma forget_inside: "t_respects (along bh_world S) (forget sc device known)"
  unfolding forget_def remove_device_def by (cases known) (auto intro!: radio_steps)

lemma set_powered_inside: "t_respects (along bh_world S) (set_powered b)"
  unfolding set_powered_def by (intro radio_steps) simp

lemma adapter_inside: "t_respects (along bh_world S) (adapter env)"
proof -
  have "t_respects (along bh_world S) (\<lambda>h. if bh_powered h then (Inr True, h) else t_bind (set_powered True) (\<lambda>_. t_ok False) h)"
    using t_respectsD [OF t_respects_bind [OF along_order(2) set_powered_inside t_ok_inside]]
    by (auto simp: t_respects_def along_def split: if_splits)
  then show ?thesis unfolding adapter_def by (intro radio_steps)
qed

lemma ex_inside:
  "t_respects (along (\<lambda>x. bh_world (ex_host x)) S) ex_await"
  "io_respects (inside S) m \<Longrightarrow> t_respects (along (\<lambda>x. bh_world (ex_host x)) S) (ex_world m)"
  "(\<And>x. ex_host (f x) = ex_host x) \<Longrightarrow> t_respects (along (\<lambda>x. bh_world (ex_host x)) S) (ex_update f)"
  by (auto simp: t_respects_def io_respects_def along_def ex_await_def await_def Let_def ex_world_def ex_update_def t_lift_def
      split: option.splits prod.splits)

lemma ex_calls_inside:
  "t_respects (along (\<lambda>x. bh_world (ex_host x)) S) (ex_call r)" "t_respects (along (\<lambda>x. bh_world (ex_host x)) S) (ex_recv n)"
  "t_respects (along (\<lambda>x. bh_world (ex_host x)) S) (ex_send b k)" "t_respects (along (\<lambda>x. bh_world (ex_host x)) S) (ex_send_frame b)"
proof -
  show "t_respects (along (\<lambda>x. bh_world (ex_host x)) S) (ex_call r)" unfolding ex_call_def by (intro radio_steps ex_inside)
  show "t_respects (along (\<lambda>x. bh_world (ex_host x)) S) (ex_recv n)" unfolding ex_recv_def
    by (intro radio_steps ex_inside) (auto simp: t_respects_def along_def t_lift_def split: prod.splits)
  have s: "t_respects (along (\<lambda>x. bh_world (ex_host x)) S) (ex_send b k)" for b k
    by (auto simp: t_respects_def ex_send_def along_def t_lift_def split: prod.splits sum.splits option.splits
        dest!: t_respectsD [OF ex_inside(1) [of S]])
  show "t_respects (along (\<lambda>x. bh_world (ex_host x)) S) (ex_send b k)" by (rule s)
  show "t_respects (along (\<lambda>x. bh_world (ex_host x)) S) (ex_send_frame b)" unfolding ex_send_frame_def by (intro radio_steps s)
qed

lemma client_exchange_inside: "t_respects (along (\<lambda>x. bh_world (ex_host x)) S) (client_exchange c ck agent conf d)"
  unfolding client_exchange_def client_credentials_def Let_def
  by (intro radio_steps ex_calls_inside ex_inside inside_reads) simp_all

lemma provision_attempt_inside: "t_respects (along bh_world S) (provision_attempt c ck agent conf address known d)"
  unfolding t_respects_def
proof (intro allI impI)
  fix h r h' assume run: "provision_attempt c ck agent conf address known d h = (r, h')"
  obtain att x where ex: "client_exchange c ck agent conf d \<lparr>ex_host = h, ex_in = reader_of [], ex_out = fresh_sink, ex_installed = False\<rparr> = (att, x)"
    by (metis prod.exhaust)
  have 1: "inside S (bh_world h) (bh_world (ex_host x))" using t_respectsD [OF client_exchange_inside ex, of S] by (simp add: along_def)
  have "t_respects (along bh_world S) (t_bind (forget Select address known) (\<lambda>_ h. (Inr b, h\<lparr>bh_active := None\<rparr>)))" for b :: bool
    by (intro radio_steps forget_inside) (simp add: t_respects_def along_def)
  note 2 = t_respectsD [OF this]
  from run ex have "h' = ex_host x \<or> (\<exists>(b :: bool) y. t_bind (forget Select address known) (\<lambda>_ h. (Inr b, h\<lparr>bh_active := None\<rparr>)) (ex_host x) = (y, h'))"
    by (auto simp: provision_attempt_def split: sum.splits stop.splits)
  with 1 2 inside_trans show "along bh_world S h h'" unfolding along_def by metis
qed

lemma try_device_inside: "t_respects (along bh_world S) (try_device c show_id ck agent conf known looked address d)"
proof -
  have "t_respects (along bh_world S) (\<lambda>h.
     case wanted show_id agent d of
       None \<Rightarrow> (Inr False, h)
     | Some True \<Rightarrow> (Inl (Failed e), h)
     | Some False \<Rightarrow>
         (let was_known = (address \<in> set known); h = h\<lparr>bh_active := Some (address, was_known)\<rparr> in
          if SCAN_WAIT \<le> looked then (Inl (Failed e'), h)
          else provision_attempt c ck agent conf address was_known d h))" for e e'
    using t_respectsD [OF provision_attempt_inside [of S]]
    by (fastforce simp: t_respects_def along_def Let_def split: option.splits bool.splits if_splits)
  then show ?thesis unfolding try_device_def by (intro radio_steps)
qed

lemma scan_loop_inside: "t_respects (along bh_world S) (scan_loop c show_id ck agent conf known ts)"
proof (induction ts)
  case Nil
  have "t_respects (along bh_world S) (t_bind (await Select) (\<lambda>_. t_lift r))" for r :: "unit result" by (intro radio_steps)
  from t_respectsD [OF this] show ?case unfolding t_respects_def scan_loop.simps by blast
next
  case (Cons t ts)
  show ?case unfolding t_respects_def
  proof (intro allI impI)
    fix h r h' assume run: "scan_loop c show_id ck agent conf known (t # ts) h = (r, h')"
    obtain y h1 where aw: "await Select h = (y, h1)" by (metis prod.exhaust)
    have 1: "inside S (bh_world h) (bh_world h1)" using t_respectsD [OF await_inside aw, of S] by (simp add: along_def)
    have turn: "inside S (bh_world h2) (bh_world h3)"
      if "try_device c show_id ck agent conf known (sc_looked t) address d h2 = (z, h3)" for address d z h2 h3
      using t_respectsD [OF try_device_inside that, of S] by (simp add: along_def)
    have rest: "inside S (bh_world h2) (bh_world h')" if "scan_loop c show_id ck agent conf known ts h2 = (r, h')" for h2
      using t_respectsD [OF Cons that] by (simp add: along_def)
    show "along bh_world S h h'"
    proof (cases "SCAN_WAIT \<le> sc_head t \<or> isl y")
      case True
      with run aw 1 show ?thesis by (cases y) (auto simp: along_def split: if_splits)
    next
      case False
      then have go: "\<not> SCAN_WAIT \<le> sc_head t" "y = Inr ()" by (auto, cases y, auto)
      show ?thesis
      proof (cases "sc_event t")
        case None
        with run aw go 1 show ?thesis by (simp add: along_def)
      next
        case (Some ev)
        show ?thesis
        proof (cases ev)
          case (DeviceAdded address d)
          obtain z h3 where tr: "try_device c show_id ck agent conf known (sc_looked t) address d
              (h1\<lparr>bh_devices := List.insert address (bh_devices h1)\<rparr>) = (z, h3)" by (metis prod.exhaust)
          from run aw go Some DeviceAdded tr have "h' = h3 \<or> scan_loop c show_id ck agent conf known ts h3 = (r, h')"
            by (auto split: sum.splits if_splits)
          moreover have "inside S (bh_world h1) (bh_world h3)" using turn [OF tr] by simp
          ultimately show ?thesis unfolding along_def using 1 rest inside_trans by metis
        next
          case OtherEvent
          with run aw go Some have "scan_loop c show_id ck agent conf known ts h1 = (r, h')" by simp
          from rest [OF this] 1 inside_trans show ?thesis unfolding along_def by metis
        qed
      qed
    qed
  qed
qed

lemma provisioning_inside: "t_respects (along bh_world S) (provisioning c show_id ck agent conf ts)"
proof -
  have "t_respects (along bh_world S) (\<lambda>h. t_bind (bt_call Select id) (\<lambda>_. scan_loop c show_id ck agent conf (bh_devices h) ts) h)"
  proof -
    have "t_respects (along bh_world S) (t_bind (bt_call Select id) (\<lambda>_. scan_loop c show_id ck agent conf known ts))" for known
      by (intro radio_steps scan_loop_inside) simp
    then show ?thesis unfolding t_respects_def by blast
  qed
  then show ?thesis unfolding provisioning_def by (intro radio_steps) simp
qed

lemma leave_inside: "inside S (bh_world h) (bh_world (release h))" "inside S (bh_world h) (bh_world (power_back b h))"
proof -
  show "inside S (bh_world h) (bh_world (release h))"
  proof (cases "bh_active h")
    case (Some dk)
    obtain d k where dk: "dk = (d, k)" by (cases dk)
    obtain y h1 where "forget Plain d k (h\<lparr>bh_active := None\<rparr>) = (y, h1)" by (metis prod.exhaust)
    with t_respectsD [OF forget_inside this, of S] Some dk show ?thesis by (simp add: release_def along_def)
  qed (simp add: release_def)
  obtain y h1 where "t_ignore (set_powered False) h = (y, h1)" by (metis prod.exhaust)
  with t_respectsD [OF t_respects_ignore [OF set_powered_inside] this, of S]
  show "inside S (bh_world h) (bh_world (power_back b h))" by (simp add: power_back_def along_def)
qed

lemma provision_inside: "io_respects (along bh_world S) (provision c show_id env ck agent ssid psk ts)"
proof (rule io_respectsI)
  fix h r h' assume run: "provision c show_id env ck agent ssid psk ts h = (r, h')"
  obtain y h1 where ad: "adapter env (h\<lparr>bh_active := None\<rparr>) = (y, h1)" by (metis prod.exhaust)
  have 1: "inside S (bh_world h) (bh_world h1)" using t_respectsD [OF adapter_inside ad, of S] by (simp add: along_def)
  show "along bh_world S h h'"
  proof (cases "network_conf ssid psk")
    case (Inr conf)
    obtain z h2 where pr: "provisioning c show_id ck agent conf ts h1 = (z, h2)" by (metis prod.exhaust)
    have 2: "inside S (bh_world h1) (bh_world h2)" using t_respectsD [OF provisioning_inside pr, of S] by (simp add: along_def)
    from run Inr ad pr have "h' = h1 \<or> (\<exists>b. h' = power_back b (release h2))"
      by (auto simp: provision_def split: sum.splits)
    with 1 2 leave_inside [of S] inside_trans show ?thesis unfolding along_def by metis
  qed (use run in \<open>simp add: provision_def along_def\<close>)
qed

section \<open>Where a controller writes\<close>

fun may_write :: "StateDir \<Rightarrow> ControllerCmd \<Rightarrow> path set" where
  "may_write st (CmdPull agent remote local lim) = {local} \<union> dir_names local \<union> part_names local"
| "may_write st cmd = state_area (root st)"

lemma on_inside:
  "io_respects (along dx_world S) m \<Longrightarrow> io_respects (along mc_world S) (on_conn m)"
  "io_respects (inside S) d \<Longrightarrow> io_respects (along mc_world S) (on_disk d)"
  "io_respects (along (\<lambda>st. dx_world (fst st)) S) n \<Longrightarrow> io_respects (along mc_world S) (on_exec n)"
  "io_respects (along bh_world S) b \<Longrightarrow> io_respects (along mc_world S) (on_radio b)"
  "io_respects (along lr_world S) l \<Longrightarrow> io_respects (along mc_world S) (on_link l)"
  "io_respects (along mc_world S) (print t)" "io_respects (along mc_world S) (print_lines ts)"
proof -
  show c: "io_respects (along mc_world S) (on_conn m)" if "io_respects (along dx_world S) m" for m :: "(duplex, 'x) io"
    using that by (auto simp: io_respects_def along_def on_conn_def mc_world_def split: prod.splits)
  show "io_respects (along mc_world S) (on_disk d)" if "io_respects (inside S) d"
    unfolding on_disk_def by (intro c via_inside that)
  show "io_respects (along mc_world S) (on_exec n)" if "io_respects (along (\<lambda>st. dx_world (fst st)) S) n"
    using that by (fastforce simp: io_respects_def along_def on_exec_def mc_world_def split: prod.splits)
  show "io_respects (along mc_world S) (on_radio b)" if "io_respects (along bh_world S) b"
    using that by (fastforce simp: io_respects_def along_def on_radio_def mc_world_def split: prod.splits)
  show "io_respects (along mc_world S) (on_link l)" if "io_respects (along lr_world S) l"
    using that by (fastforce simp: io_respects_def along_def on_link_def mc_world_def split: prod.splits)
  show "io_respects (along mc_world S) (print t)" for t by (auto simp: io_respects_def along_def print_def mc_world_def)
  then show "io_respects (along mc_world S) (print_lines ts)" by (simp add: print_lines_def)
qed

lemma run_controller_inside:
  assumes "S = may_write st cmd" and "spawns_inside S (ce_spawn env)"
  shows "io_respects (along mc_world S) (run_controller env st cmd)"
proof -
  have st: "state_area (root st) \<subseteq> S" if "\<And>a r l n. cmd \<noteq> CmdPull a r l n" using that assms(1) by (cases cmd) auto
  have fw: "io_respects (along mc_world S) (\<lambda>mc. (f mc, mc))" for f :: "machine \<Rightarrow> 'b result"
    by (auto simp: io_respects_def along_def)
  note rules = inside_steps on_inside fw
  show ?thesis
  proof (cases cmd)
    case (CmdPull agent remote local lim)
    with assms(1) show ?thesis
      unfolding run_controller_def Let_def pull_def
      by (auto split: Pulled.splits intro!: rules pull_file_inside)
  next
    case (CmdJoin iface json)
    then show ?thesis
      using st unfolding run_controller_def Let_def
      by (cases iface) (auto intro!: rules join_link_inside load_key_inside assms(2))
  next
    case (CmdBle agent network psk_file adapter)
    then show ?thesis
      unfolding run_controller_def Let_def by (auto intro!: rules inside_reads load_key_inside provision_inside)
  next
    case (CmdExec agent argv)
    then show ?thesis unfolding run_controller_def Let_def exec_def by (auto intro!: rules exec_into_inside)
  next
    case (CmdPush agent local remote)
    then show ?thesis unfolding run_controller_def Let_def push_def by (auto split: prod.splits intro!: rules push_file_inside)
  next
    case (CmdSsh a)
    then show ?thesis using st unfolding run_controller_def Let_def by (auto intro!: rules ssh_run_inside assms(2))
  qed (use st in \<open>auto simp: run_controller_def Let_def split: prod.splits intro!: rules state_cmds_inside\<close>)
qed



end
