(* ===== verification/Spec2Isabelle.thy ===== *)
theory Spec2Isabelle
  imports Confinement
begin

text \<open>
  \<open>egdod\<close> gives root access to a bare machine that dials out.  An agent on the target
  (\<open>src/agent.rs\<close>) dials its controller over \<open>iroh\<close> and never listens; \<open>serve\<close> on the operator's
  machine (\<open>src/controller.rs\<close>) admits the agents that were approved, probes whether it can be
  reached, publishes its status, and proxies the short-lived commands (\<open>exec\<close>, \<open>push\<close>, \<open>pull\<close>,
  \<open>forward\<close>, \<open>ssh\<close>) that reach it over a unix socket in its state directory (\<open>src/state.rs\<close>).  A
  target without a network hosts an access point derived from the controller's node id
  (\<open>src/link.rs\<close>) or is handed a network over Bluetooth (\<open>src/ble.rs\<close>); process 1 of its boot image
  (\<open>src/boot/init.c\<close>) starts these programs.

  \<^bold>\<open>Foundations.\<close>  \<open>Prelude\<close>: words, bytes, the type \<open>error\<close> with \<open>'a result\<close>, the sequencing of
  fallible effects (\<open>io_bind\<close> is the source's \<open>?\<close>), and the frame rule \<open>io_respects\<close>.  \<open>Rust_Text\<close>:
  the functions of \<open>str\<close>.  \<open>Streams\<close>: readers that deliver in any chunks and may break, sinks that
  may fail after any prefix, the locale \<open>framing\<close>.  \<open>Fs\<close>: paths, the file system with a failure of
  the environment possible at every call, the ghost \<open>history\<close> of every node map that another process
  could have seen, and \<open>touches\<close>, what an operation may change.  \<open>Process\<close>: child processes.
  \<open>Duplex\<close>: one end of a request stream.

  \<^bold>\<open>Components\<close>, in the order of the code:
  \<^item> \<open>Proto\<close>, \<open>File_Transfer\<close>, \<open>Exec_Output\<close> (\<open>src/proto.rs\<close>): messages and frames, sending and
    receiving a file, receiving a command's output.  Round trip of messages under any chunking;
    a received file is exactly what was announced, is never seen half-written, is refused above
    the ceiling or the free space, and leaves nothing behind when it fails; the output is bounded.
  \<^item> \<open>Atomic_File\<close>, \<open>State_Dir\<close> (\<open>src/state.rs\<close>): the two routines that replace a file, as
    interpretations of the locale \<open>atomic_replace\<close>; keys, the approved list, pending agents, status.
    State files are never torn, approving is exact, identities are stable; three error paths that
    lose state are shown as they are.
  \<^item> \<open>Net\<close> (\<open>src/net.rs\<close>), \<open>Pipe\<close> (\<open>src/pipe.rs\<close>): endpoints, the label of a path, the probe; splicing.
  \<^item> \<open>Agent\<close> (\<open>src/agent.rs\<close>): the dial loop, admission, the four handlers, draining a child's pipes.
  \<^item> \<open>Serve\<close> (\<open>src/controller.rs\<close>, \<open>serve\<close>): the step relation \<open>serve_step\<close> on the shared state, with
    invariants by rule induction over its reachable states: only approved agents, the slot of an
    agent that redials, an honest status, a restart after exactly the configured failures.
  \<^item> \<open>Commands\<close> (\<open>src/controller.rs\<close>, the commands): each command as a function on a \<open>duplex\<close>.
  \<^item> \<open>Civil_Date\<close>, \<open>Authorized_Keys\<close>, \<open>Ssh\<close> (\<open>src/ssh.rs\<close>): the calendar, the merge of
    \<open>authorized_keys\<close> over the locale \<open>writer\<close>, and the recipe.
  \<^item> \<open>Access_Link\<close> (\<open>src/link.rs\<close>), \<open>Boot_Init\<close> (\<open>src/boot/init.c\<close>): the derivation is well-formed for
    every digest, \<open>join\<close> cleans up, and process 1 reads the derivation whole.
  \<^item> \<open>Ble\<close>, \<open>Ble_Session\<close> (\<open>src/ble.rs\<close>): the messages, the configuration, its installation, and the
    two programs as tasks that a timer or a signal can stop at any await.  \<open>Ble_Exchange\<close> and
    \<open>Ble_Programs\<close> hold their lemmas: the target installs only what its controller signed, a
    success of the controller means that the target has the network, an undisturbed exchange
    completes, and the adapter is left as it was found.
  \<^item> \<open>Cli\<close> (\<open>src/main.rs\<close>): the commands and what each does with its arguments, on the record
    \<open>machine\<close>.

  \<^bold>\<open>Compositions.\<close>  \<open>End_To_End\<close> composes command, unix socket, proxy and agent, where every hop may be
  cut short and none alters what it carries (\<open>relayed\<close>); the theorems are here for \<open>push\<close>, \<open>pull\<close> and
  \<open>status\<close>, in \<open>Recipe\<close> for \<open>ssh\<close> and in \<open>Cli\<close> for \<open>exec\<close>, from the command line to the exit status of
  the process.  \<open>Cli\<close> also composes process 1 with \<open>egdod link\<close> and \<open>egdod agent\<close>.  \<open>Confinement\<close> follows
  every controller command to its file system calls: it writes inside the state directory only.

  \<^bold>\<open>Parameters.\<close>  Code that is not in the repository is an argument, with what is used of it named:
  \<open>postcard\<close> (\<open>postcard_laws\<close>), keys and JSON (\<open>codec\<close>, \<open>key_text_laws\<close>), SHA-256, \<open>iroh\<close> (\<open>agent_net\<close>,
  \<open>probe_net\<close>), the cryptography of \<open>ble.rs\<close> (\<open>ble_laws\<close>, and that signatures are not forged where a
  theorem says so), \<open>bluer\<close> (\<open>bh_fault\<close>, \<open>adapter_env\<close>, \<open>ble_device\<close>), \<open>clap\<close> (\<open>clap_reads\<close>), and the
  programs that are started (\<open>spawn\<close>, \<open>target\<close>).

  \<^bold>\<open>Bounds.\<close>  No definition needs fuel: every loop over a stream, a list of events or the text of a
  command line ends because its input shrinks, a loop that waits for a deadline because time passes
  (\<open>await_carrier\<close>, \<open>retry\<close>); \<open>drain_output\<close> runs on the samples it takes, of which eight are shown to be
  enough, and \<open>try_part\<close> and \<open>await_banner\<close> have the source's own counts.
  The loops that never end (\<open>serve\<close>, the agent's dial loop, the canary) are the step relation and
  functions of the list of what happens to them.  A file's length plus one chunk is assumed to stay
  below 2^64 where the code adds to a \<open>u64\<close>.  At most 40 symbolic links are followed, in the last
  component of a path.

  \<^bold>\<open>Not modelled.\<close>  How \<open>clap\<close> reads a command line; logging and what is only printed on standard
  error; a first \<open>bind\<close> or an \<open>accept\<close> on the control socket that fails, which ends \<open>serve\<close>.  A handler's
  file accesses are one step of \<open>serve_step\<close>: what two handlers can do to each other inside one is
  \<open>threads_share_staging\<close>.  Of \<open>init.c\<close>, the devices, mounts, addresses and routes it asks the kernel for
  and the loop that watches the link; the shell scripts, package recipes and configuration files of
  the boot image; the demonstration and the tests; the vendored \<open>noq-udp\<close>, which only \<open>iroh\<close> calls.
\<close>

section \<open>Copying a file to the target\<close>

text \<open>C3. A \<open>push\<close> that reports success has put the file on the target: the target's file has
  exactly the bytes and the permission bits of the local one, through the control socket, the
  proxy, the agent's stream and the staging file, wherever a stream may have been cut.\<close>

theorem push_end_to_end:
  assumes "postcard_laws pc"
    and push: "push_file pc sha dial st agent local remote s = (Inr (len, sha256), s')"
    and "dial (sock_path st) = Inr (r0, w0)" and "sent w0 = []"
    and "handle pc sha tg a = (y, a')"
    and "relayed pc c paths open_bi m r0 (sent (dx_send s')) a a'"
    and small: "\<And>q b k. follow (nodes (dx_world s)) local = Some q \<Longrightarrow> nodes (dx_world s) q = Some (File b k)
      \<Longrightarrow> length b + CHUNK < 18446744073709551616"
  shows "\<exists>q b k. follow (nodes (dx_world s)) local = Some q \<and> nodes (dx_world s) q = Some (File b k)
    \<and> nodes (dx_world a') (path_of remote) = Some (File b (and k 4095)) \<and> sha256 = sha b"
  using assms by (rule push_delivers)

theorem push_end_to_end_witness:
  "\<exists>pc dial s' a a' y. push_file pc id dial demo_dir ''any'' [Normal ''l''] ''f'' (idle demo_disk) = (Inr (1, [7]), s')
    \<and> dx_world a = blank_world \<and> handle pc id no_target a = (y, a')
    \<and> nodes (dx_world a') [Normal ''f''] = Some (File [7] 420)"
proof -
  let ?pc = "demo_postcard (Push ''f'' 420 1 [7]) AckOk PullMissing (Route ''any'') (RouteOk ''t'' Unknown ''no open path'')"
  let ?dial = "\<lambda>_. Inr (reader_of (demo_frame @ demo_frame), fresh_sink) :: (reader \<times> sink) result"
  let ?a = "\<lparr>dx_recv = reader_of (demo_frame @ [7]), dx_send = fresh_sink, dx_world = blank_world, dx_tcp = None\<rparr>"
  note codec = demo_postcard_def only_enc_def only_dec_def MAX_MSG_def demo_frame
  obtain s' where push: "push_file ?pc id ?dial demo_dir ''any'' [Normal ''l''] ''f'' (idle demo_disk) = (Inr (word_of_nat (length [7 :: u8]), id [7]), s')"
    and sent: "sent (dx_send s') = sent fresh_sink @ frame [0] @ frame [0] @ [7]"
    by (rule push_file_ok [where kb = "[0]" and ab = "[0]" and k = "''t''" and p = Unknown and t = "''no open path''"
        and s = "idle demo_disk" and pc = ?pc and dial = ?dial and ?r0.0 = "reader_of (demo_frame @ demo_frame)" and rb = "[0]"
        and pb = "[0]" and c = "[7]" and m = 420 and q = "[Normal ''l'']" and sha = id and remote = "''f''"])
      (use demo_disk_file in \<open>auto simp: idle_def codec\<close>)
  have p: "path_of ''f'' = [Normal ''f'']" by (simp add: path_of_def starts_with_def component_of_def)
  obtain a' where hd: "handle ?pc id no_target ?a = (Inr (), a')" and asent: "sent (dx_send a') = sent (dx_send ?a) @ frame [0]"
  proof (rule handle_push_ok [where a = ?a and pb = "[0]" and c = "[7]" and pc = ?pc and remote = "''f''" and mode = 420 and len = 1
        and ab = "[0]" and sha = id and tg = no_target])
    fix r :: reader assume r: "arriving r = [7]" "broken r = None"
    show "\<exists>r' w'. recv_file_body id (path_of ''f'') 1 (id [7]) 420 (- 1) (r, dx_world ?a) = (Inr (), (r', w'))"
      unfolding p by (rule recv_file_body_lands) (use r in \<open>simp_all add: file_name_def CHUNK_def\<close>)
  qed (simp_all add: codec)
  have "relayed ?pc two_keys (\<lambda>_. []) (\<lambda>_. Inr (reader_of demo_frame, fresh_sink)) [(True, \<lparr>s_conn = 4, s_id = 4, s_since = 0\<rparr>)]
        (reader_of (demo_frame @ demo_frame)) (demo_frame @ (demo_frame @ [7])) ?a a'"
    by (rule demo_relayed) (use asent in \<open>simp_all add: codec\<close>)
  then have "relayed ?pc two_keys (\<lambda>_. []) (\<lambda>_. Inr (reader_of demo_frame, fresh_sink)) [(True, \<lparr>s_conn = 4, s_id = 4, s_since = 0\<rparr>)]
        (reader_of (demo_frame @ demo_frame)) (sent (dx_send s')) ?a a'" using sent by (simp add: demo_frame)
  moreover have "length b + CHUNK < 18446744073709551616" if "nodes (dx_world (idle demo_disk)) q = Some (File b k)" for q b k
    using that by (auto simp: idle_def demo_disk_def CHUNK_def split: if_splits)
  ultimately have "nodes (dx_world a') [Normal ''f''] = Some (File [7] 420)"
    using push_end_to_end [OF demo_postcard_laws push _ _ hd] demo_disk_file by (force simp: idle_def p)
  with push hd show ?thesis by (intro exI [of _ ?pc] exI [of _ ?dial] exI [of _ s'] exI [of _ ?a] exI [of _ a'] exI [of _ "Inr ()"]) simp
qed

section \<open>Copying a file from the target\<close>

text \<open>C4. A \<open>pull\<close> that reports success has fetched the target's file: the local file has exactly
  the bytes and the permission bits of the target's, and no more than the ceiling allows.\<close>

theorem pull_end_to_end:
  assumes "postcard_laws pc"
    and pull: "pull_file pc sha dial st agent remote local lim s = (Inr (Fetched len sha256), s')"
    and "dial (sock_path st) = Inr (r0, w0)" and "sent w0 = []"
    and "handle pc sha tg a = (y, a')"
    and "relayed pc c paths open_bi m r0 (sent (dx_send s')) a a'"
    and small: "\<And>q b k. follow (nodes (dx_world a)) (path_of remote) = Some q \<Longrightarrow> nodes (dx_world a) q = Some (File b k)
      \<Longrightarrow> length b + CHUNK < 18446744073709551616"
  shows "\<exists>q b k. follow (nodes (dx_world a)) (path_of remote) = Some q \<and> nodes (dx_world a) q = Some (File b k)
    \<and> nodes (dx_world s') local = Some (File b (and k 4095)) \<and> length b \<le> unat lim"
  using assms by (rule pull_fetches)


theorem pull_end_to_end_witness:
  "\<exists>pc dial s' a a' y. pull_file pc id dial demo_dir ''any'' ''l'' [Normal ''f''] 10 (idle blank_world) = (Inr (Fetched 1 [7]), s')
    \<and> dx_world a = demo_disk \<and> handle pc id no_target a = (y, a')
    \<and> nodes (dx_world s') [Normal ''f''] = Some (File [7] 420)"
proof -
  let ?pc = "demo_postcard (Pull ''l'') AckOk (PullOk 420 1 [7]) (Route ''any'') (RouteOk ''t'' Unknown ''no open path'')"
  let ?dial = "\<lambda>_. Inr (reader_of (demo_frame @ (demo_frame @ [7])), fresh_sink) :: (reader \<times> sink) result"
  let ?a = "\<lparr>dx_recv = reader_of demo_frame, dx_send = fresh_sink, dx_world = demo_disk, dx_tcp = None\<rparr>"
  note codec = demo_postcard_def only_enc_def only_dec_def MAX_MSG_def demo_frame
  obtain s1 where s1: "arriving (dx_recv s1) = [7]" "broken (dx_recv s1) = None" "dx_world s1 = dx_world (idle blank_world)"
    "sent (dx_send s1) = sent fresh_sink @ frame [0] @ frame [0]"
    "pull_file ?pc id ?dial demo_dir ''any'' ''l'' [Normal ''f''] 10 (idle blank_world) =
      (case PullOk 420 1 [7] of PullMissing \<Rightarrow> io_ok Missing
       | PullErr e \<Rightarrow> io_lift (Inl (Msg (fmt [''agent could not read '', ''l'', '': '', e])))
       | PullOk mode len sha256 \<Rightarrow>
           io_bind (via_recv_world (recv_file_body id [Normal ''f''] len sha256 mode 10)) (\<lambda>_. io_ok (Fetched len sha256))) s1"
    by (rule pull_start_ok [where kb = "[0]" and sb = "[0]" and k = "''t''" and p = Unknown and t = "''no open path''" and st = demo_dir
        and s = "idle blank_world" and pc = ?pc and dial = ?dial and ?r0.0 = "reader_of (demo_frame @ (demo_frame @ [7]))"
        and ?w0.0 = fresh_sink and rb = "[0]" and pb = "[0]" and rest = "[7]" and sha = id and remote = "''l''" and agent = "''any''"
        and ps = "PullOk 420 1 [7]" and local = "[Normal ''f'']" and lim = 10])
      (simp_all add: codec)
  obtain r2 w2 where body: "recv_file_body id [Normal ''f''] 1 [7] 420 10 (dx_recv s1, dx_world s1) = (Inr (), (r2, w2))"
    using recv_file_body_lands [of "dx_world s1" "[Normal ''f'']" 1 10 "dx_recv s1" id "[7]" 420] s1(1-3)
    by (auto simp: idle_def file_name_def CHUNK_def)
  define s' where "s' = s1\<lparr>dx_recv := r2, dx_world := w2\<rparr>"
  have pull: "pull_file ?pc id ?dial demo_dir ''any'' ''l'' [Normal ''f''] 10 (idle blank_world) = (Inr (Fetched 1 [7]), s')"
    using s1(5) body by (simp add: s'_def io_bind_def via_recv_world_def)
  obtain a' where hd: "handle ?pc id no_target ?a = (Inr (), a')" and asent: "sent (dx_send a') = sent (dx_send ?a) @ frame [0] @ [7]"
    by (rule handle_pull_ok [where a = ?a and pb = "[0]" and c = "[7]" and m = 420 and q = "[Normal ''l'']" and pc = ?pc
        and remote = "''l''" and sb = "[0]" and sha = id and tg = no_target])
      (use demo_disk_file in \<open>simp_all add: codec path_of_l\<close>)
  have "relayed ?pc two_keys (\<lambda>_. []) (\<lambda>_. Inr (reader_of (demo_frame @ [7]), fresh_sink)) [(True, \<lparr>s_conn = 4, s_id = 4, s_since = 0\<rparr>)]
        (reader_of (demo_frame @ (demo_frame @ [7]))) (demo_frame @ demo_frame) ?a a'"
    by (rule demo_relayed) (use asent in \<open>simp_all add: codec\<close>)
  then have "relayed ?pc two_keys (\<lambda>_. []) (\<lambda>_. Inr (reader_of (demo_frame @ [7]), fresh_sink)) [(True, \<lparr>s_conn = 4, s_id = 4, s_since = 0\<rparr>)]
        (reader_of (demo_frame @ (demo_frame @ [7]))) (sent (dx_send s')) ?a a'" using s1(4) by (simp add: demo_frame s'_def)
  moreover have "length b + CHUNK < 18446744073709551616" if "nodes (dx_world ?a) q = Some (File b k)" for q b k
    using that by (auto simp: demo_disk_def CHUNK_def split: if_splits)
  ultimately have "nodes (dx_world s') [Normal ''f''] = Some (File [7] 420)"
    using pull_end_to_end [OF demo_postcard_laws pull _ _ hd] demo_disk_file by (force simp: path_of_l)
  with pull hd show ?thesis by (intro exI [of _ ?pc] exI [of _ ?dial] exI [of _ s'] exI [of _ ?a] exI [of _ a'] exI [of _ "Inr ()"]) simp
qed


text \<open>C18. What an unattended operator sees: right after a probe of the running controller, the exit
  code of \<open>status\<close> is 0 exactly when that probe succeeded and the controller's process is still
  there, and 2 otherwise, with and without \<open>--json\<close>.\<close>

theorem status_exit_code:
  assumes "serve_step c st restart_after s (Probed r) s'" and "calm (sv_world s)" and "state_ready st (sv_world s)"
    and "is_dir (nodes (sv_world s)) (root st)"
    and "nodes (sv_world s) (unique_tmp (pid (sv_world s)) (status_path st)) = None"
    and "\<And>k. nodes (sv_world s) (status_path st) \<noteq> Some (Dir k)"
    and "status_to_json c (sv_status s') = Inr b" and "status_from_json c b = Inr (sv_status s')"
  shows "\<exists>ls w'. status_cmd c st json (sv_world s') =
    (Inr (if \<not> isl r \<and> running (sv_world s') (sv_status s') then 0 else 2, ls), w')"
proof -
  note p = probe_publishes [OF assms(1-7)]
  from p(3) obtain k where "nodes (sv_world s') (status_path st) = Some (File b k)" by blast
  from status_cmd_reads [OF p(2) this assms(8,7), of json, unfolded EXIT_UNDIALABLE_def] p(1) show ?thesis by simp
qed

theorem status_exit_code_witness:
  "\<exists>c s' ls w'. serve_step c demo_dir 1 (demo_start\<lparr>sv_canary := CProbe\<rparr>) (Probed (Inl (Msg ''timed out''))) s'
     \<and> status_cmd (c :: bool codec) demo_dir False (sv_world s') = (Inr (2, ls), w')"
proof -
  let ?s = "demo_start\<lparr>sv_canary := CProbe\<rparr>" and ?r = "Inl (Msg ''timed out'')"
  define t where "t = (canary_err (render (Msg ''timed out'')) 1 (first_status ''n'' 1 0 Direct))\<lparr>updated_unix := unix_of 0\<rparr>"
  define c where "c = two_keys\<lparr>status_to_json := (\<lambda>_. Inr [1]), status_from_json := (\<lambda>_. Inr t)\<rparr>"
  obtain f a sw where turn: "canary_turn c demo_dir 1 ?r (sv_failures ?s) (sv_status ?s, sv_world ?s) = (f, a, sw)"
    by (metis prod.exhaust)
  have t: "fst sw = t"
    using turn by (auto simp: canary_turn_def status_update_pure serve_start_def t_def demo_world_def Let_def)
  define s' where "s' = put_status sw (?s\<lparr>sv_failures := f, sv_restart := a, sv_canary := (if a then CDone else CSleep)\<rparr>)"
  have step: "serve_step c demo_dir 1 ?s (Probed ?r) s'"
    unfolding s'_def by (rule serve_step.canary_probe [OF _ turn]) simp
  have w: "sv_world ?s = demo_world (\<lambda>_. None)" by (simp add: serve_start_def)
  have pre: "calm (sv_world ?s)" "state_ready demo_dir (sv_world ?s)" "is_dir (nodes (sv_world ?s)) (root demo_dir)"
      "nodes (sv_world ?s) (unique_tmp (pid (sv_world ?s)) (status_path demo_dir)) = None"
      "nodes (sv_world ?s) (status_path demo_dir) \<noteq> Some (Dir k)" for k
    unfolding w using demo_ready is_dir_s
    by (simp_all, simp_all add: demo_world_def calm_def status_path_def join_def unique_tmp_def with_file_name_def
        file_name_def)
  have js: "status_to_json c (sv_status s') = Inr [1]" "status_from_json c [1] = Inr (sv_status s')"
    using t by (simp_all add: c_def s'_def put_status_def)
  from status_exit_code [OF step pre js, of False] step show ?thesis by auto
qed

end
